(* ===== verification/Prelude.thy ===== *)
theory Prelude
  imports Main "HOL-Library.Word"
begin

text \<open>
  Shared vocabulary of the OS64 development.

  The kernel and the Mini64 rescue system are freestanding C for x86-64 and i386. This theory
  names the machine types they use (\<open>uint8_t\<close> \dots \<open>uint64_t\<close> are words of their width), the
  little-endian byte-buffer accessors that the file systems, the Multiboot parsers and the panic
  store all define for themselves (\<open>r16\<close>, \<open>r32\<close>, \<open>w16\<close>, \<open>w32\<close>), C character data,
  and the generic lemmas on lists, words and buffers that the component theories share. The
  collection \<open>buf_simps\<close> holds the accessor lemmas; \<open>state_defs\<close> collects the defining equations
  of small state-passing operations.
\<close>

unbundle bit_operations_syntax

named_theorems buf_simps \<open>byte buffers: lengths, reads after writes\<close>
named_theorems state_defs \<open>defining equations of small state-passing operations\<close>

section \<open>Machine types\<close>

type_synonym u8 = "8 word"
type_synonym u16 = "16 word"
type_synonym u32 = "32 word"
type_synonym u64 = "64 word"

type_synonym bytes = "u8 list"

text \<open>A byte-addressed memory, read by code that dereferences raw addresses.\<close>

type_synonym memory = "nat \<Rightarrow> u8"

text \<open>
  \<open>size_t\<close> quantities that stay far below the width of the type are natural numbers; where the
  source adds or subtracts them the wrap-around modulo \<open>2 ^ 64\<close> is written out.
\<close>

definition add64 :: "nat \<Rightarrow> nat \<Rightarrow> nat" where
  "add64 a b = (a + b) mod 2 ^ 64"

definition sub64 :: "nat \<Rightarrow> nat \<Rightarrow> nat" where
  "sub64 a b = (a + (2 ^ 64 - b mod 2 ^ 64)) mod 2 ^ 64"

lemma add64_small [simp]: "a + b < 2 ^ 64 \<Longrightarrow> add64 a b = a + b"
  by (simp add: add64_def)

lemma sub64_le [simp]:
  assumes "b \<le> a" and "a < 2 ^ 64"
  shows "sub64 a b = a - b"
proof -
  have "sub64 a b = (a - b + 2 ^ 64) mod 2 ^ 64"
    using assms by (simp add: sub64_def)
  also have "\<dots> = a - b"
    using assms by (simp only: mod_add_self2) simp
  finally show ?thesis .
qed

lemma unat_ucast_8_32 [simp]: "unat (ucast b :: u32) = unat b" for b :: u8
proof -
  have "unat b < 2 ^ 8" using unsigned_less [of b, where ?'a = nat] by simp
  then show ?thesis by (simp add: unsigned_ucast_eq take_bit_nat_eq_self)
qed

lemma of_nat_eq_iff_u32: "m < 2 ^ 32 \<Longrightarrow> n < 2 ^ 32 \<Longrightarrow> (of_nat m :: u32) = of_nat n \<longleftrightarrow> m = n"
proof -
  assume "m < 2 ^ 32" "n < 2 ^ 32"
  then have "unat (of_nat m :: u32) = m" "unat (of_nat n :: u32) = n" by (simp_all add: unat_of_nat)
  then show ?thesis by metis
qed

section \<open>Little-endian accessors of byte buffers\<close>

text \<open>
  \<open>r16\<close> and \<open>r32\<close> assemble an unsigned value from two and four bytes, \<open>w16\<close> and \<open>w32\<close>
  store the low bytes of a value. The sources give \<open>r16\<close> a 16-bit or a 32-bit result type; the
  value is below \<open>2 ^ 16\<close> in both cases, so one 32-bit function models them all.
\<close>

definition r16 :: "bytes \<Rightarrow> nat \<Rightarrow> u32" where
  "r16 b p = (ucast (b ! p) :: u32) OR push_bit 8 (ucast (b ! (p + 1)))"

definition r32 :: "bytes \<Rightarrow> nat \<Rightarrow> u32" where
  "r32 b p = r16 b p OR push_bit 16 (r16 b (p + 2))"

definition w16 :: "bytes \<Rightarrow> nat \<Rightarrow> u32 \<Rightarrow> bytes" where
  "w16 b p v = b[p := ucast v, p + 1 := ucast (drop_bit 8 v)]"

definition w32 :: "bytes \<Rightarrow> nat \<Rightarrow> u32 \<Rightarrow> bytes" where
  "w32 b p v = w16 (w16 b p v) (p + 2) (drop_bit 16 v)"

lemma length_w16 [simp, buf_simps]: "length (w16 b p v) = length b"
  by (simp add: w16_def)

lemma length_w32 [simp, buf_simps]: "length (w32 b p v) = length b"
  by (simp add: w32_def)

lemma r16_bound: "unat (r16 b p) < 2 ^ 16"
proof -
  have "r16 b p = take_bit 16 (r16 b p)"
    by (rule bit_word_eqI) (auto simp: r16_def bit_simps dest: bit_imp_le_length)
  also have "unat \<dots> = take_bit 16 (unat (r16 b p))"
    by (simp add: unsigned_take_bit_eq)
  finally show ?thesis
    by (metis take_bit_nat_less_exp)
qed

lemma r16_w16_same [simp, buf_simps]:
  "p + 1 < length b \<Longrightarrow> r16 (w16 b p v) p = take_bit 16 v"
  by (simp add: r16_def w16_def) (rule bit_word_eqI, auto simp: bit_simps)

lemma nth_w16_other [simp, buf_simps]:
  "q \<noteq> p \<Longrightarrow> q \<noteq> p + 1 \<Longrightarrow> w16 b p v ! q = b ! q"
  by (simp add: w16_def)

lemma nth_w32_other [simp, buf_simps]:
  "q < p \<or> p + 3 < q \<Longrightarrow> w32 b p v ! q = b ! q"
  by (auto simp: w32_def)

lemma r16_w16_other [simp, buf_simps]:
  "q + 1 < p \<or> p + 1 < q \<Longrightarrow> r16 (w16 b p v) q = r16 b q"
  by (auto simp: r16_def)

lemma r16_w32_other [simp, buf_simps]:
  "q + 1 < p \<or> p + 3 < q \<Longrightarrow> r16 (w32 b p v) q = r16 b q"
  by (auto simp: r16_def)

lemma r32_w16_other [simp, buf_simps]:
  "q + 3 < p \<or> p + 1 < q \<Longrightarrow> r32 (w16 b p v) q = r32 b q"
  by (auto simp: r32_def)

lemma r32_w32_other [simp, buf_simps]:
  "q + 3 < p \<or> p + 3 < q \<Longrightarrow> r32 (w32 b p v) q = r32 b q"
  by (auto simp: r32_def)

lemma r32_w32_same [simp, buf_simps]:
  assumes "p + 3 < length b"
  shows "r32 (w32 b p v) p = v"
proof -
  have lo: "r16 (w16 (w16 b p v) (p + 2) (drop_bit 16 v)) p = take_bit 16 v"
    using assms by (subst r16_w16_other) simp_all
  have hi: "r16 (w16 (w16 b p v) (p + 2) (drop_bit 16 v)) (p + 2) = take_bit 16 (drop_bit 16 v)"
    using assms by (subst r16_w16_same) simp_all
  have "take_bit 16 v OR push_bit 16 (take_bit 16 (drop_bit 16 v)) = v"
    by (rule bit_word_eqI) (auto simp: bit_simps)
  then show ?thesis
    by (simp only: r32_def w32_def lo hi)
qed

lemma r16_update_other [simp, buf_simps]:
  "q \<noteq> p \<Longrightarrow> q \<noteq> p + 1 \<Longrightarrow> r16 (b[q := x]) p = r16 b p"
  by (simp add: r16_def)

lemma r32_update_other [simp, buf_simps]:
  "q < p \<or> p + 3 < q \<Longrightarrow> r32 (b[q := x]) p = r32 b p"
  by (auto simp: r32_def r16_def)

text \<open>Reads of 32-bit and 64-bit values at a raw address.\<close>

definition ld32 :: "memory \<Rightarrow> nat \<Rightarrow> u32" where
  "ld32 m a = ucast (m a) OR push_bit 8 (ucast (m (a + 1))) OR
     push_bit 16 (ucast (m (a + 2))) OR push_bit 24 (ucast (m (a + 3)))"

definition ld64 :: "memory \<Rightarrow> nat \<Rightarrow> u64" where
  "ld64 m a = ucast (ld32 m a) OR push_bit 32 (ucast (ld32 m (a + 4)))"

text \<open>\<open>(size + 7) & ~7\<close>: Multiboot tags are padded to eight bytes.\<close>

definition pad8 :: "u32 \<Rightarrow> u32" where
  "pad8 n = (n + 7) AND NOT 7"

section \<open>Testing single bits\<close>

lemma bit7: "(s AND 0x80 = 0) = (\<not> bit s 7)" for s :: u8
  using and_exp_eq_0_iff_not_bit [of s 7] by simp

lemma bit3: "(s AND 8 = 0) = (\<not> bit s 3)" for s :: u8
  using and_exp_eq_0_iff_not_bit [of s 3] by simp

lemma bit0': "(s AND 1 = 0) = (\<not> bit s 0)" for s :: u8
  using and_exp_eq_0_iff_not_bit [of s 0] by simp

section \<open>Copying into buffers\<close>

text \<open>\<open>for (i = 0; i < n; i++) d[p + i] = s[i]\<close> with \<open>n = length s\<close>.\<close>

fun put :: "'a list \<Rightarrow> nat \<Rightarrow> 'a list \<Rightarrow> 'a list" where
  "put d p [] = d"
| "put d p (x # xs) = put (d[p := x]) (Suc p) xs"

lemma length_put [simp, buf_simps]: "length (put d p xs) = length d"
  by (induction d p xs rule: put.induct) simp_all

lemma nth_put:
  "p + length xs \<le> length d \<Longrightarrow>
    put d p xs ! i = (if p \<le> i \<and> i < p + length xs then xs ! (i - p) else d ! i)"
proof (induction d p xs rule: put.induct)
  case (2 d p x xs)
  then show ?case
    by (auto simp: nth_list_update nth_Cons')
qed auto

lemma nth_put_other [simp, buf_simps]:
  "i < p \<or> p + length xs \<le> i \<Longrightarrow> put d p xs ! i = d ! i"
  by (induction d p xs rule: put.induct) (auto simp: nth_list_update)

lemma put_eq_append:
  "p + length xs \<le> length d \<Longrightarrow> put d p xs = take p d @ xs @ drop (p + length xs) d"
  by (rule nth_equalityI) (auto simp: nth_put nth_append)

section \<open>Character data\<close>

text \<open>
  A C string is the list of its characters before the terminating zero. \<open>cstr\<close> reads one out of
  a character array.
\<close>

abbreviation NUL :: char where "NUL \<equiv> CHR 0x00"
abbreviation LF :: char where "LF \<equiv> CHR 0x0A"

definition cstr :: "char list \<Rightarrow> string" where
  "cstr buf = takeWhile (\<lambda>c. c \<noteq> NUL) buf"

lemma cstr_Cons [simp]: "cstr (c # cs) = (if c = NUL then [] else c # cstr cs)"
  by (simp add: cstr_def)

lemma cstr_Nil [simp]: "cstr [] = []"
  by (simp add: cstr_def)

lemma cstr_append_NUL [simp]: "NUL \<notin> set s \<Longrightarrow> cstr (s @ NUL # t) = s"
  by (induction s) auto

lemma cstr_no_NUL [simp]: "NUL \<notin> set (cstr buf)"
  unfolding cstr_def by (induction buf) auto

text \<open>\<open>lo <= c && c <= hi\<close> for ASCII bounds; it does not matter whether \<open>char\<close> is signed.\<close>

definition between :: "char \<Rightarrow> char \<Rightarrow> char \<Rightarrow> bool" where
  "between lo hi c \<longleftrightarrow> (of_char lo :: nat) \<le> of_char c \<and> (of_char c :: nat) \<le> of_char hi"

definition ord :: "char \<Rightarrow> u8" where
  "ord c = of_char c"

definition chr :: "u8 \<Rightarrow> char" where
  "chr b = char_of (unat b)"

lemma unat_ord: "unat (ord c) = of_char c"
proof -
  have "unat (of_nat (of_char c) :: u8) = of_char c mod 256"
    by (simp add: unat_of_nat)
  moreover have "(of_nat (of_char c) :: u8) = of_char c"
    by (rule of_nat_of_char)
  ultimately show ?thesis
    by (simp add: ord_def)
qed

lemma chr_ord [simp]: "chr (ord c) = c"
  by (simp add: chr_def unat_ord)

lemma ord_chr [simp]: "ord (chr b) = b"
proof -
  have "unat (ord (chr b)) = unat b mod 256"
    by (simp add: chr_def unat_ord)
  also have "\<dots> = unat b"
    using unsigned_less [of b, where ?'a = nat] by simp
  finally show ?thesis
    by (rule word_unat_eq_iff [THEN iffD2])
qed

lemma ord_inject [simp]: "ord c = ord d \<longleftrightarrow> c = d"
  by (metis chr_ord)

end
