(* ===== verification/Font.thy ===== *)
theory Font
  imports Prelude
begin

text \<open>
  The 8x16 bitmap font of \<^verbatim>\<open>src/kernel/drivers/display/font8x16.h\<close>, shared by the kernel
  display driver and the Mini64 console: 128 glyphs of sixteen rows, the leftmost pixel of a row in
  the most significant bit. The table is given in eight runs of sixteen glyphs.
\<close>

definition font_00 :: bytes where
  "font_00 = [
     0, 0, 0, 0, 0, 0, 0, 0, 0, 0, 0, 0, 0, 0, 0, 0,
     0, 0, 0, 0, 0, 0, 0, 0, 0, 0, 0, 0, 0, 0, 0, 0,
     0, 0, 0, 0, 0, 0, 0, 0, 0, 0, 0, 0, 0, 0, 0, 0,
     0, 0, 0, 0, 0, 0, 0, 0, 0, 0, 0, 0, 0, 0, 0, 0,
     0, 0, 0, 0, 0, 0, 0, 0, 0, 0, 0, 0, 0, 0, 0, 0,
     0, 0, 0, 0, 0, 0, 0, 0, 0, 0, 0, 0, 0, 0, 0, 0,
     0, 0, 0, 0, 0, 0, 0, 0, 0, 0, 0, 0, 0, 0, 0, 0,
     0, 0, 0, 0, 0, 0, 0, 0, 0, 0, 0, 0, 0, 0, 0, 0,
     0, 0, 0, 0, 0, 0, 0, 0, 0, 0, 0, 0, 0, 0, 0, 0,
     0, 0, 0, 0, 0, 0, 0, 0, 0, 0, 0, 0, 0, 0, 0, 0,
     0, 0, 0, 0, 0, 0, 0, 0, 0, 0, 0, 0, 0, 0, 0, 0,
     0, 0, 0, 0, 0, 0, 0, 0, 0, 0, 0, 0, 0, 0, 0, 0,
     0, 0, 0, 0, 0, 0, 0, 0, 0, 0, 0, 0, 0, 0, 0, 0,
     0, 0, 0, 0, 0, 0, 0, 0, 0, 0, 0, 0, 0, 0, 0, 0,
     0, 0, 0, 0, 0, 0, 0, 0, 0, 0, 0, 0, 0, 0, 0, 0,
     0, 0, 0, 0, 0, 0, 0, 0, 0, 0, 0, 0, 0, 0, 0, 0
   ]"

definition font_10 :: bytes where
  "font_10 = [
     0, 0, 0, 0, 0, 0, 0, 0, 0, 0, 0, 0, 0, 0, 0, 0,
     0, 0, 0, 0, 0, 0, 0, 0, 0, 0, 0, 0, 0, 0, 0, 0,
     0, 0, 0, 0, 0, 0, 0, 0, 0, 0, 0, 0, 0, 0, 0, 0,
     0, 0, 0, 0, 0, 0, 0, 0, 0, 0, 0, 0, 0, 0, 0, 0,
     0, 0, 0, 0, 0, 0, 0, 0, 0, 0, 0, 0, 0, 0, 0, 0,
     0, 0, 0, 0, 0, 0, 0, 0, 0, 0, 0, 0, 0, 0, 0, 0,
     0, 0, 0, 0, 0, 0, 0, 0, 0, 0, 0, 0, 0, 0, 0, 0,
     0, 0, 0, 0, 0, 0, 0, 0, 0, 0, 0, 0, 0, 0, 0, 0,
     0, 0, 0, 0, 0, 0, 0, 0, 0, 0, 0, 0, 0, 0, 0, 0,
     0, 0, 0, 0, 0, 0, 0, 0, 0, 0, 0, 0, 0, 0, 0, 0,
     0, 0, 0, 0, 0, 0, 0, 0, 0, 0, 0, 0, 0, 0, 0, 0,
     0, 0, 0, 0, 0, 0, 0, 0, 0, 0, 0, 0, 0, 0, 0, 0,
     0, 0, 0, 0, 0, 0, 0, 0, 0, 0, 0, 0, 0, 0, 0, 0,
     0, 0, 0, 0, 0, 0, 0, 0, 0, 0, 0, 0, 0, 0, 0, 0,
     0, 0, 0, 0, 0, 0, 0, 0, 0, 0, 0, 0, 0, 0, 0, 0,
     0, 0, 0, 0, 0, 0, 0, 0, 0, 0, 0, 0, 0, 0, 0, 0
   ]"

definition font_20 :: bytes where
  "font_20 = [
     0, 0, 0, 0, 0, 0, 0, 0, 0, 0, 0, 0, 0, 0, 0, 0,
     0, 0, 0x18, 0x18, 0x18, 0x18, 0x18, 0x18, 0x18, 0, 0x18, 0x18, 0, 0, 0, 0,
     0, 0x66, 0x66, 0x66, 0x66, 0, 0, 0, 0, 0, 0, 0, 0, 0, 0, 0,
     0, 0, 0x6C, 0x6C, 0xFE, 0x6C, 0x6C, 0x6C, 0x6C, 0xFE, 0x6C, 0x6C, 0, 0, 0, 0,
     0, 0x10, 0x7E, 0xD0, 0xD0, 0xD0, 0x7C, 0x16, 0x16, 0x16, 0x16, 0xFC, 0x10, 0, 0, 0,
     0, 0, 0x06, 0x66, 0x6C, 0x0C, 0x18, 0x18, 0x30, 0x36, 0x66, 0x60, 0, 0, 0, 0,
     0, 0, 0x38, 0x6C, 0x6C, 0x6C, 0x38, 0x70, 0xDA, 0xCC, 0xCC, 0x7A, 0, 0, 0, 0,
     0, 0x18, 0x18, 0x18, 0x18, 0, 0, 0, 0, 0, 0, 0, 0, 0, 0, 0,
     0, 0x0E, 0x18, 0x30, 0x30, 0x60, 0x60, 0x60, 0x60, 0x30, 0x30, 0x18, 0x0E, 0, 0, 0,
     0, 0x70, 0x18, 0x0C, 0x0C, 0x06, 0x06, 0x06, 0x06, 0x0C, 0x0C, 0x18, 0x70, 0, 0, 0,
     0, 0, 0, 0, 0x66, 0x3C, 0x18, 0xFF, 0x18, 0x3C, 0x66, 0, 0, 0, 0, 0,
     0, 0, 0, 0, 0, 0x18, 0x18, 0x7E, 0x18, 0x18, 0, 0, 0, 0, 0, 0,
     0, 0, 0, 0, 0, 0, 0, 0, 0, 0, 0x18, 0x18, 0x30, 0, 0, 0,
     0, 0, 0, 0, 0, 0, 0, 0x7E, 0, 0, 0, 0, 0, 0, 0, 0,
     0, 0, 0, 0, 0, 0, 0, 0, 0, 0, 0x18, 0x18, 0, 0, 0, 0,
     0, 0x06, 0x06, 0x0C, 0x0C, 0x18, 0x18, 0x30, 0x30, 0x60, 0x60, 0xC0, 0xC0, 0, 0, 0
   ]"

definition font_30 :: bytes where
  "font_30 = [
     0, 0, 0x7C, 0xC6, 0xC6, 0xCE, 0xDE, 0xF6, 0xE6, 0xC6, 0xC6, 0x7C, 0, 0, 0, 0,
     0, 0, 0x18, 0x38, 0x78, 0x58, 0x18, 0x18, 0x18, 0x18, 0x18, 0x7E, 0, 0, 0, 0,
     0, 0, 0x7C, 0xC6, 0x06, 0x06, 0x0C, 0x18, 0x30, 0x60, 0xC6, 0xFE, 0, 0, 0, 0,
     0, 0, 0x7C, 0xC6, 0x06, 0x06, 0x3C, 0x06, 0x06, 0x06, 0xC6, 0x7C, 0, 0, 0, 0,
     0, 0, 0xC0, 0xC0, 0xCC, 0xCC, 0xCC, 0xCC, 0xFE, 0x0C, 0x0C, 0x0C, 0, 0, 0, 0,
     0, 0, 0xFE, 0xC6, 0xC0, 0xC0, 0xFC, 0x06, 0x06, 0x06, 0xC6, 0x7C, 0, 0, 0, 0,
     0, 0, 0x7C, 0xC6, 0xC0, 0xC0, 0xFC, 0xC6, 0xC6, 0xC6, 0xC6, 0x7C, 0, 0, 0, 0,
     0, 0, 0xFE, 0xC6, 0x06, 0x06, 0x0C, 0x18, 0x30, 0x30, 0x30, 0x30, 0, 0, 0, 0,
     0, 0, 0x7C, 0xC6, 0xC6, 0xC6, 0x7C, 0xC6, 0xC6, 0xC6, 0xC6, 0x7C, 0, 0, 0, 0,
     0, 0, 0x7C, 0xC6, 0xC6, 0xC6, 0xC6, 0x7E, 0x06, 0x06, 0xC6, 0x7C, 0, 0, 0, 0,
     0, 0, 0, 0, 0, 0x18, 0x18, 0, 0, 0, 0x18, 0x18, 0, 0, 0, 0,
     0, 0, 0, 0, 0, 0x18, 0x18, 0, 0, 0, 0x18, 0x18, 0x30, 0, 0, 0,
     0, 0, 0x06, 0x0C, 0x18, 0x30, 0x60, 0x60, 0x30, 0x18, 0x0C, 0x06, 0, 0, 0, 0,
     0, 0, 0, 0, 0, 0x7E, 0, 0, 0x7E, 0, 0, 0, 0, 0, 0, 0,
     0, 0, 0x60, 0x30, 0x18, 0x0C, 0x06, 0x06, 0x0C, 0x18, 0x30, 0x60, 0, 0, 0, 0,
     0, 0, 0x7C, 0xC6, 0x06, 0x0C, 0x18, 0x30, 0x30, 0, 0x30, 0x30, 0, 0, 0, 0
   ]"

definition font_40 :: bytes where
  "font_40 = [
     0, 0, 0, 0x7C, 0xC2, 0xDA, 0xDA, 0xDA, 0xDA, 0xDE, 0xC0, 0x7C, 0, 0, 0, 0,
     0, 0, 0x7C, 0xC6, 0xC6, 0xC6, 0xFE, 0xC6, 0xC6, 0xC6, 0xC6, 0xC6, 0, 0, 0, 0,
     0, 0, 0xFC, 0xC6, 0xC6, 0xC6, 0xFC, 0xC6, 0xC6, 0xC6, 0xC6, 0xFC, 0, 0, 0, 0,
     0, 0, 0x7E, 0xC0, 0xC0, 0xC0, 0xC0, 0xC0, 0xC0, 0xC0, 0xC0, 0x7E, 0, 0, 0, 0,
     0, 0, 0xFC, 0xC6, 0xC6, 0xC6, 0xC6, 0xC6, 0xC6, 0xC6, 0xC6, 0xFC, 0, 0, 0, 0,
     0, 0, 0x7E, 0xC0, 0xC0, 0xC0, 0xF8, 0xC0, 0xC0, 0xC0, 0xC0, 0x7E, 0, 0, 0, 0,
     0, 0, 0x7E, 0xC0, 0xC0, 0xC0, 0xF8, 0xC0, 0xC0, 0xC0, 0xC0, 0xC0, 0, 0, 0, 0,
     0, 0, 0x7E, 0xC0, 0xC0, 0xC0, 0xDE, 0xC6, 0xC6, 0xC6, 0xC6, 0x7E, 0, 0, 0, 0,
     0, 0, 0xC6, 0xC6, 0xC6, 0xC6, 0xFE, 0xC6, 0xC6, 0xC6, 0xC6, 0xC6, 0, 0, 0, 0,
     0, 0, 0x7E, 0x18, 0x18, 0x18, 0x18, 0x18, 0x18, 0x18, 0x18, 0x7E, 0, 0, 0, 0,
     0, 0, 0x7E, 0x18, 0x18, 0x18, 0x18, 0x18, 0x18, 0x18, 0x18, 0xF0, 0, 0, 0, 0,
     0, 0, 0xC6, 0xC6, 0xC6, 0xCC, 0xF8, 0xCC, 0xC6, 0xC6, 0xC6, 0xC6, 0, 0, 0, 0,
     0, 0, 0xC0, 0xC0, 0xC0, 0xC0, 0xC0, 0xC0, 0xC0, 0xC0, 0xC0, 0x7E, 0, 0, 0, 0,
     0, 0, 0xC6, 0xEE, 0xFE, 0xD6, 0xC6, 0xC6, 0xC6, 0xC6, 0xC6, 0xC6, 0, 0, 0, 0,
     0, 0, 0xC6, 0xC6, 0xE6, 0xE6, 0xD6, 0xD6, 0xCE, 0xCE, 0xC6, 0xC6, 0, 0, 0, 0,
     0, 0, 0x7C, 0xC6, 0xC6, 0xC6, 0xC6, 0xC6, 0xC6, 0xC6, 0xC6, 0x7C, 0, 0, 0, 0
   ]"

definition font_50 :: bytes where
  "font_50 = [
     0, 0, 0xFC, 0xC6, 0xC6, 0xC6, 0xFC, 0xC0, 0xC0, 0xC0, 0xC0, 0xC0, 0, 0, 0, 0,
     0, 0, 0x7C, 0xC6, 0xC6, 0xC6, 0xC6, 0xC6, 0xC6, 0xD6, 0xD6, 0x7C, 0x18, 0x0C, 0, 0,
     0, 0, 0xFC, 0xC6, 0xC6, 0xC6, 0xFC, 0xC6, 0xC6, 0xC6, 0xC6, 0xC6, 0, 0, 0, 0,
     0, 0, 0x7E, 0xC0, 0xC0, 0xC0, 0x7C, 0x06, 0x06, 0x06, 0x06, 0xFC, 0, 0, 0, 0,
     0, 0, 0xFF, 0x18, 0x18, 0x18, 0x18, 0x18, 0x18, 0x18, 0x18, 0x18, 0, 0, 0, 0,
     0, 0, 0xC6, 0xC6, 0xC6, 0xC6, 0xC6, 0xC6, 0xC6, 0xC6, 0xC6, 0x7E, 0, 0, 0, 0,
     0, 0, 0xC6, 0xC6, 0xC6, 0xC6, 0xC6, 0xC6, 0xC6, 0x6C, 0x38, 0x10, 0, 0, 0, 0,
     0, 0, 0xC6, 0xC6, 0xC6, 0xC6, 0xC6, 0xC6, 0xD6, 0xFE, 0xEE, 0xC6, 0, 0, 0, 0,
     0, 0, 0xC6, 0xC6, 0xC6, 0x6C, 0x38, 0x6C, 0xC6, 0xC6, 0xC6, 0xC6, 0, 0, 0, 0,
     0, 0, 0xC6, 0xC6, 0xC6, 0xC6, 0x7E, 0x06, 0x06, 0x06, 0x06, 0xFC, 0, 0, 0, 0,
     0, 0, 0xFE, 0x06, 0x06, 0x0C, 0x18, 0x30, 0x60, 0xC0, 0xC0, 0xFE, 0, 0, 0, 0,
     0, 0x3E, 0x30, 0x30, 0x30, 0x30, 0x30, 0x30, 0x30, 0x30, 0x30, 0x30, 0x3E, 0, 0, 0,
     0, 0xC0, 0xC0, 0x60, 0x60, 0x30, 0x30, 0x18, 0x18, 0x0C, 0x0C, 0x06, 0x06, 0, 0, 0,
     0, 0x7C, 0x0C, 0x0C, 0x0C, 0x0C, 0x0C, 0x0C, 0x0C, 0x0C, 0x0C, 0x0C, 0x7C, 0, 0, 0,
     0, 0x10, 0x38, 0x6C, 0xC6, 0, 0, 0, 0, 0, 0, 0, 0, 0, 0, 0,
     0, 0, 0, 0, 0, 0, 0, 0, 0, 0, 0, 0, 0, 0, 0xFE, 0
   ]"

definition font_60 :: bytes where
  "font_60 = [
     0, 0x30, 0x18, 0x0C, 0, 0, 0, 0, 0, 0, 0, 0, 0, 0, 0, 0,
     0, 0, 0, 0, 0, 0x7C, 0x06, 0x7E, 0xC6, 0xC6, 0xC6, 0x7E, 0, 0, 0, 0,
     0, 0, 0xC0, 0xC0, 0xC0, 0xFC, 0xC6, 0xC6, 0xC6, 0xC6, 0xC6, 0xFC, 0, 0, 0, 0,
     0, 0, 0, 0, 0, 0x7E, 0xC0, 0xC0, 0xC0, 0xC0, 0xC0, 0x7E, 0, 0, 0, 0,
     0, 0, 0x06, 0x06, 0x06, 0x7E, 0xC6, 0xC6, 0xC6, 0xC6, 0xC6, 0x7E, 0, 0, 0, 0,
     0, 0, 0, 0, 0, 0x7E, 0xC6, 0xC6, 0xFE, 0xC0, 0xC0, 0x7E, 0, 0, 0, 0,
     0, 0, 0x1E, 0x30, 0x30, 0x30, 0x7C, 0x30, 0x30, 0x30, 0x30, 0x30, 0, 0, 0, 0,
     0, 0, 0, 0, 0, 0x7E, 0xC6, 0xC6, 0xC6, 0xC6, 0xC6, 0x7C, 0x06, 0x06, 0xFC, 0,
     0, 0, 0xC0, 0xC0, 0xC0, 0xFC, 0xC6, 0xC6, 0xC6, 0xC6, 0xC6, 0xC6, 0, 0, 0, 0,
     0, 0, 0x18, 0x18, 0, 0x38, 0x18, 0x18, 0x18, 0x18, 0x18, 0x1C, 0, 0, 0, 0,
     0, 0, 0x18, 0x18, 0, 0x18, 0x18, 0x18, 0x18, 0x18, 0x18, 0x18, 0x18, 0x18, 0x70, 0,
     0, 0, 0xC0, 0xC0, 0xC0, 0xCC, 0xD8, 0xF0, 0xF0, 0xD8, 0xCC, 0xC6, 0, 0, 0, 0,
     0, 0, 0x30, 0x30, 0x30, 0x30, 0x30, 0x30, 0x30, 0x30, 0x30, 0x1C, 0, 0, 0, 0,
     0, 0, 0, 0, 0, 0xEC, 0xD6, 0xD6, 0xD6, 0xD6, 0xC6, 0xC6, 0, 0, 0, 0,
     0, 0, 0, 0, 0, 0xFC, 0xC6, 0xC6, 0xC6, 0xC6, 0xC6, 0xC6, 0, 0, 0, 0,
     0, 0, 0, 0, 0, 0x7C, 0xC6, 0xC6, 0xC6, 0xC6, 0xC6, 0x7C, 0, 0, 0, 0
   ]"

definition font_70 :: bytes where
  "font_70 = [
     0, 0, 0, 0, 0, 0xFC, 0xC6, 0xC6, 0xC6, 0xC6, 0xC6, 0xFC, 0xC0, 0xC0, 0xC0, 0,
     0, 0, 0, 0, 0, 0x7E, 0xC6, 0xC6, 0xC6, 0xC6, 0xC6, 0x7E, 0x06, 0x06, 0x06, 0,
     0, 0, 0, 0, 0, 0x7E, 0xC6, 0xC0, 0xC0, 0xC0, 0xC0, 0xC0, 0, 0, 0, 0,
     0, 0, 0, 0, 0, 0x7E, 0xC0, 0xC0, 0x7C, 0x06, 0x06, 0xFC, 0, 0, 0, 0,
     0, 0, 0x30, 0x30, 0x30, 0x7C, 0x30, 0x30, 0x30, 0x30, 0x30, 0x1E, 0, 0, 0, 0,
     0, 0, 0, 0, 0, 0xC6, 0xC6, 0xC6, 0xC6, 0xC6, 0xC6, 0x7E, 0, 0, 0, 0,
     0, 0, 0, 0, 0, 0xC6, 0xC6, 0xC6, 0xC6, 0x6C, 0x38, 0x10, 0, 0, 0, 0,
     0, 0, 0, 0, 0, 0xC6, 0xC6, 0xD6, 0xD6, 0xD6, 0xD6, 0x6E, 0, 0, 0, 0,
     0, 0, 0, 0, 0, 0xC6, 0x6C, 0x38, 0x38, 0x6C, 0xC6, 0xC6, 0, 0, 0, 0,
     0, 0, 0, 0, 0, 0xC6, 0xC6, 0xC6, 0xC6, 0xC6, 0xC6, 0x7E, 0x06, 0x06, 0xFC, 0,
     0, 0, 0, 0, 0, 0xFE, 0x06, 0x0C, 0x18, 0x30, 0x60, 0xFE, 0, 0, 0, 0,
     0, 0x0E, 0x18, 0x18, 0x18, 0x18, 0x70, 0x70, 0x18, 0x18, 0x18, 0x18, 0x0E, 0, 0, 0,
     0, 0x18, 0x18, 0x18, 0x18, 0x18, 0x18, 0x18, 0x18, 0x18, 0x18, 0x18, 0x18, 0, 0, 0,
     0, 0x70, 0x18, 0x18, 0x18, 0x18, 0x0E, 0x0E, 0x18, 0x18, 0x18, 0x18, 0x70, 0, 0, 0,
     0, 0, 0, 0, 0, 0, 0x32, 0x7E, 0x4C, 0, 0, 0, 0, 0, 0, 0,
     0, 0, 0, 0, 0, 0, 0, 0, 0, 0, 0, 0, 0, 0, 0, 0
   ]"

definition os64_font8x16 :: bytes where
  "os64_font8x16 = font_00 @ font_10 @ font_20 @ font_30 @ font_40 @ font_50 @ font_60 @ font_70"

lemma length_os64_font8x16: "length os64_font8x16 = 128 * 16"
  by (simp add: os64_font8x16_def font_00_def font_10_def font_20_def font_30_def font_40_def font_50_def font_60_def font_70_def)

end
