(* ===== verification/C_Code.thy ===== *)
theory C_Code
  imports Prelude
begin

text \<open>
  C idioms that several components share: string comparison, counting loops, and stores into
  arrays with the loops that open or close a gap. A load or store outside an array is
  \<open>None\<close>.
\<close>

section \<open>Strings\<close>

text \<open>C strings are lists without NUL, so the end of the string is the end of the list.\<close>

fun streq :: "string \<Rightarrow> string \<Rightarrow> bool" where
  "streq (a # as) (b # bs) \<longleftrightarrow> a = b \<and> streq as bs"
| "streq [] [] \<longleftrightarrow> True"
| "streq _ _ \<longleftrightarrow> False"

definition lower :: "char \<Rightarrow> char" where
  "lower c = (if between (CHR ''A'') (CHR ''Z'') c then chr (ord c + 32) else c)"

fun streq_ci :: "string \<Rightarrow> string \<Rightarrow> bool" where
  "streq_ci (a # as) (b # bs) \<longleftrightarrow> lower a = lower b \<and> streq_ci as bs"
| "streq_ci [] [] \<longleftrightarrow> True"
| "streq_ci _ _ \<longleftrightarrow> False"

fun startswith :: "string \<Rightarrow> string \<Rightarrow> bool" where
  "startswith s [] \<longleftrightarrow> True"
| "startswith (c # s) (p # ps) \<longleftrightarrow> c = p \<and> startswith s ps"
| "startswith [] (p # ps) \<longleftrightarrow> False"

lemma streq_iff [simp]: "streq a b \<longleftrightarrow> a = b"
  by (induction a b rule: streq.induct) auto

lemma streq_ci_iff: "streq_ci a b \<longleftrightarrow> map lower a = map lower b"
  by (induction a b rule: streq_ci.induct) auto

lemma startswith_iff [simp]: "startswith s p \<longleftrightarrow> (\<exists>t. s = p @ t)"
  by (induction s p rule: startswith.induct) auto

section \<open>Counting loops\<close>

text \<open>\<open>for (int i = a; i < b; i++) s = f i s\<close>.\<close>

definition for_int :: "int \<Rightarrow> int \<Rightarrow> (int \<Rightarrow> 's \<Rightarrow> 's) \<Rightarrow> 's \<Rightarrow> 's" where
  "for_int a b f s = fold f [a..b - 1] s"

lemma for_int_empty [simp]: "b \<le> a \<Longrightarrow> for_int a b f s = s"
  by (simp add: for_int_def)

lemma for_int_Suc: "for_int a (a + int (Suc n)) f s = f (a + int n) (for_int a (a + int n) f s)"
proof -
  have "[a..a + int n] = [a..a + int n - 1] @ [a + int n]" by (rule upto_rec2) simp
  then show ?thesis by (simp add: for_int_def)
qed

text \<open>Loop invariants of counting loops.\<close>

lemma for_int_invariant:
  assumes "P 0 s" and "\<And>k t. int k < b - a \<Longrightarrow> P k t \<Longrightarrow> P (Suc k) (f (a + int k) t)"
  shows "P (nat (b - a)) (for_int a b f s)"
proof (cases "a \<le> b")
  case True
  have "k \<le> nat (b - a) \<Longrightarrow> P k (for_int a (a + int k) f s)" for k
  proof (induction k)
    case (Suc k)
    then show ?case unfolding for_int_Suc by (intro assms(2)) auto
  qed (simp add: assms(1))
  from this [of "nat (b - a)"] True show ?thesis by simp
next
  case False
  then show ?thesis using assms(1) by simp
qed

section \<open>Arrays\<close>

definition store :: "nat \<Rightarrow> char \<Rightarrow> char list \<Rightarrow> char list option" where
  "store i c b = (if i < length b then Some (b[i := c]) else None)"

text \<open>\<open>for (i = pos; i < len; i++) buf[i] = buf[i + 1]\<close> and
  \<open>for (i = len; i > pos; i--) buf[i] = buf[i - 1]\<close>.\<close>

function shift_left :: "nat \<Rightarrow> nat \<Rightarrow> char list \<Rightarrow> char list option" where
  "shift_left i n b =
     (if i < n then if i + 1 < length b then shift_left (i + 1) n (b[i := b ! (i + 1)]) else None
      else Some b)"
  by pat_completeness auto
termination by (relation "measure (\<lambda>(i, n, b). n - i)") auto

declare shift_left.simps [simp del]

fun shift_right :: "nat \<Rightarrow> nat \<Rightarrow> char list \<Rightarrow> char list option" where
  "shift_right p 0 b = Some b"
| "shift_right p (Suc i) b =
     (if p < Suc i then if Suc i < length b then shift_right p i (b[Suc i := b ! i]) else None
      else Some b)"

lemma shift_left_append:
  "shift_left (length l) (length l + length r) (l @ x # r @ zs) = Some (l @ r @ last (x # r) # zs)"
proof (induction r arbitrary: l x)
  case (Cons y r)
  from Cons [of "l @ [y]" y] show ?case
    by (subst shift_left.simps) (simp add: list_update_append nth_append)
qed (simp add: shift_left.simps)

lemma shift_right_append:
  "shift_right (length l) (length l + length r) (l @ r @ z # zs) =
     Some (if r = [] then l @ z # zs else l @ hd r # r @ zs)"
proof (induction r arbitrary: z zs rule: rev_induct)
  case (snoc y r)
  from snoc [of y "y # zs"] show ?case by (auto simp: list_update_append nth_append)
qed (cases "length l"; simp)

lemma store_append [simp]: "store (length l) c (l @ z # zs) = Some (l @ c # zs)"
  by (simp add: store_def list_update_append)

lemma length_cstr: "NUL \<in> set b \<Longrightarrow> length (cstr b) < length b"
  unfolding cstr_def by (induction b) auto

end
