(* ===== verification/M64_Console.thy ===== *)
theory M64_Console
  imports Font C_Code
begin

text \<open>
  The console of the Mini64 rescue kernel (\<^verbatim>\<open>src/mini64/kernel.c\<close>, lines 1 to 160): the VGA text
  screen, the linear framebuffer with the bitmap font, and the number printers.

  The VGA text memory is a list of 80 x 25 cells. The framebuffer is a map from byte offsets to
  bytes; \<open>fb\<close> is its physical address, and 0 selects the text screen, as the null test of the
  source does. \<open>int\<close> variables are integers.
\<close>

section \<open>State\<close>

record console =
  attr :: u8
  row :: int
  col :: int
  VGA_BUF :: "u16 list"
  fb :: u64
  vram :: "int \<Rightarrow> u8"
  fb_w :: int
  fb_h :: int
  fb_pitch :: int
  fb_rows :: int
  fb_cols :: int

definition VGA_COLS :: int where "VGA_COLS = 80"
definition VGA_ROWS :: int where "VGA_ROWS = 25"

lemmas vga_consts = VGA_COLS_def VGA_ROWS_def

section \<open>The framebuffer\<close>

text \<open>A store of a 32-bit pixel at a byte offset.\<close>

definition put_pixel :: "int \<Rightarrow> u32 \<Rightarrow> (int \<Rightarrow> u8) \<Rightarrow> int \<Rightarrow> u8" where
  "put_pixel p v m = m(p := ucast v, p + 1 := ucast (drop_bit 8 v),
     p + 2 := ucast (drop_bit 16 v), p + 3 := ucast (drop_bit 24 v))"

definition fb_scroll :: "console \<Rightarrow> console" where
  "fb_scroll c = c\<lparr>vram :=
     for_int ((fb_rows c - 1) * 16) (fb_rows c * 16) (\<lambda>y.
       for_int 0 (fb_w c) (\<lambda>k m. m(y * fb_pitch c + 4 * k := 0, y * fb_pitch c + 4 * k + 1 := 0,
         y * fb_pitch c + 4 * k + 2 := 0, y * fb_pitch c + 4 * k + 3 := 0)))
     (for_int 0 ((fb_rows c - 1) * 16) (\<lambda>y.
        for_int 0 (fb_w c * 4) (\<lambda>x m.
          m(y * fb_pitch c + x := m ((y + 16) * fb_pitch c + x)))) (vram c))\<rparr>"

definition fb_glyph :: "console \<Rightarrow> char \<Rightarrow> (int \<Rightarrow> u8) \<Rightarrow> int \<Rightarrow> u8" where
  "fb_glyph c ch = for_int 0 16 (\<lambda>gy.
     let bits = os64_font8x16 ! (of_char ch * 16 + nat gy) in
     for_int 0 8 (\<lambda>gx m.
       let px = col c * 8 + gx; py = row c * 16 + gy in
       if px < fb_w c \<and> py < fb_h c
       then put_pixel (py * fb_pitch c + px * 4)
              (if bit bits (nat (7 - gx)) then 0x00C0C0C0 else 0x00303030) m
       else m))"

definition fb_putc :: "char \<Rightarrow> console \<Rightarrow> console" where
  "fb_putc ch c =
     (if ch = CHR ''\<newline>'' then c\<lparr>col := 0, row := row c + 1\<rparr>
      else let ch = (if (of_char ch :: nat) < 32 \<or> (of_char ch :: nat) > 127 then CHR ''?'' else ch);
               c1 = c\<lparr>vram := fb_glyph c ch (vram c), col := col c + 1\<rparr>;
               c2 = (if col c1 = fb_cols c1 then c1\<lparr>col := 0, row := row c1 + 1\<rparr> else c1)
           in if row c2 = fb_rows c2 then fb_scroll (c2\<lparr>row := fb_rows c2 - 1\<rparr>) else c2)"

definition fb_clear :: "console \<Rightarrow> console" where
  "fb_clear c = c\<lparr>vram := for_int 0 (fb_h c) (\<lambda>y. for_int 0 (fb_w c)
       (\<lambda>x. put_pixel (y * fb_pitch c + x * 4) 0x00303030)) (vram c), row := 0, col := 0\<rparr>"

section \<open>The text screen\<close>

definition vga_cell :: "console \<Rightarrow> char \<Rightarrow> u16" where
  "vga_cell c ch = push_bit 8 (ucast (attr c)) OR of_char ch"

definition vga_scroll :: "console \<Rightarrow> console" where
  "vga_scroll c = c\<lparr>VGA_BUF :=
     for_int 0 VGA_COLS (\<lambda>x b. b[nat ((VGA_ROWS - 1) * VGA_COLS + x) := vga_cell c (CHR '' '')])
      (for_int 1 VGA_ROWS (\<lambda>y. for_int 0 VGA_COLS (\<lambda>x b.
         b[nat ((y - 1) * VGA_COLS + x) := b ! nat (y * VGA_COLS + x)])) (VGA_BUF c)),
     row := VGA_ROWS - 1\<rparr>"

definition putc :: "char \<Rightarrow> console \<Rightarrow> console" where
  "putc ch c =
     (if fb c \<noteq> 0 then fb_putc ch c
      else let c1 = (if ch = CHR ''\<newline>'' then c\<lparr>col := 0, row := row c + 1\<rparr>
                     else c\<lparr>VGA_BUF := (VGA_BUF c)[nat (row c * VGA_COLS + col c) := vga_cell c ch],
                            col := col c + 1\<rparr>);
               c2 = (if col c1 = VGA_COLS then c1\<lparr>col := 0, row := row c1 + 1\<rparr> else c1)
           in if row c2 = VGA_ROWS then vga_scroll c2 else c2)"

definition puts :: "string \<Rightarrow> console \<Rightarrow> console" where
  "puts s = fold putc s"

text \<open>The branch of the command \<open>clear\<close> for the text screen.\<close>

definition vga_clear :: "console \<Rightarrow> console" where
  "vga_clear c = for_int 0 VGA_ROWS (\<lambda>y. for_int 0 VGA_COLS (\<lambda>x c.
     c\<lparr>VGA_BUF := (VGA_BUF c)[nat (y * VGA_COLS + x) := vga_cell c (CHR '' '')]\<rparr>))
     (c\<lparr>row := 0, col := 0\<rparr>)"

section \<open>Numbers\<close>

text \<open>The digit buffer of \<open>pnum\<close>, filled from the least significant digit.\<close>

fun num_digits :: "nat \<Rightarrow> string" where
  "num_digits n = (if n = 0 then [] else char_of (48 + n mod 10) # num_digits (n div 10))"

declare num_digits.simps [simp del]

definition pnum :: "u32 \<Rightarrow> console \<Rightarrow> console" where
  "pnum n = (if n = 0 then putc (CHR ''0'') else puts (rev (num_digits (unat n))))"

definition phex :: "u8 \<Rightarrow> console \<Rightarrow> console" where
  "phex v = putc (''0123456789ABCDEF'' ! unat (v AND 15)) \<circ>
            putc (''0123456789ABCDEF'' ! unat (drop_bit 4 v))"

section \<open>The text screen as a list of cells\<close>

definition vga_ok :: "console \<Rightarrow> bool" where
  "vga_ok c \<longleftrightarrow> fb c = 0 \<and> length (VGA_BUF c) = 2000 \<and>
     0 \<le> row c \<and> row c < VGA_ROWS \<and> 0 \<le> col c \<and> col c < VGA_COLS"

text \<open>
  The reference: the cell index of the cursor is a single number \<open>k\<close>; a character is stored there,
  and reaching the end of the screen drops the first line.
\<close>

definition cursor :: "console \<Rightarrow> nat" where
  "cursor c = nat (row c * VGA_COLS + col c)"

fun tty_advance :: "u16 \<Rightarrow> u16 list \<times> nat \<Rightarrow> u16 list \<times> nat" where
  "tty_advance blank (b, k) =
     (if k \<ge> 2000 then (drop 80 b @ replicate 80 blank, k - 80) else (b, k))"

definition tty_putc :: "u8 \<Rightarrow> char \<Rightarrow> u16 list \<times> nat \<Rightarrow> u16 list \<times> nat" where
  "tty_putc a ch bk = (case bk of (b, k) \<Rightarrow>
     tty_advance (push_bit 8 (ucast a) OR of_char (CHR '' ''))
       (if ch = CHR ''\<newline>'' then (b, (k div 80 + 1) * 80)
        else (b[k := push_bit 8 (ucast a) OR of_char ch], k + 1)))"

section \<open>Scrolling\<close>

lemma scroll_row:
  assumes "o' + 160 \<le> length b"
  shows "length (for_int 0 80 (\<lambda>x b. b[nat (int o' + x) := b ! nat (int o' + 80 + x)]) b) = length b \<and>
    (\<forall>i. for_int 0 80 (\<lambda>x b. b[nat (int o' + x) := b ! nat (int o' + 80 + x)]) b ! i =
       (if o' \<le> i \<and> i < o' + 80 then b ! (i + 80) else b ! i))"
proof -
  have "length (for_int 0 80 (\<lambda>x b. b[nat (int o' + x) := b ! nat (int o' + 80 + x)]) b) = length b \<and>
    (\<forall>i. for_int 0 80 (\<lambda>x b. b[nat (int o' + x) := b ! nat (int o' + 80 + x)]) b ! i =
       (if o' \<le> i \<and> i < o' + nat (80 - 0) then b ! (i + 80) else b ! i))"
  proof (rule for_int_invariant [where P = "\<lambda>k t. length t = length b \<and>
        (\<forall>i. t ! i = (if o' \<le> i \<and> i < o' + k then b ! (i + 80) else b ! i))"])
    fix k t
    assume k: "int k < 80 - 0"
      and t: "length t = length b \<and> (\<forall>i. t ! i = (if o' \<le> i \<and> i < o' + k then b ! (i + 80) else b ! i))"
    have n: "nat (int o' + (0 + int k)) = o' + k" "nat (int o' + 80 + (0 + int k)) = o' + 80 + k"
      by simp_all
    show "length (t[nat (int o' + (0 + int k)) := t ! nat (int o' + 80 + (0 + int k))]) = length b \<and>
       (\<forall>i. t[nat (int o' + (0 + int k)) := t ! nat (int o' + 80 + (0 + int k))] ! i =
         (if o' \<le> i \<and> i < o' + Suc k then b ! (i + 80) else b ! i))"
      unfolding n using t k assms by (auto simp: nth_list_update ac_simps)
  qed auto
  then show ?thesis by simp
qed

lemma scroll_rows:
  assumes "length b = 2000"
  shows "length (for_int 1 VGA_ROWS (\<lambda>y. for_int 0 VGA_COLS (\<lambda>x b.
         b[nat ((y - 1) * VGA_COLS + x) := b ! nat (y * VGA_COLS + x)])) b) = 2000 \<and>
    (\<forall>i. for_int 1 VGA_ROWS (\<lambda>y. for_int 0 VGA_COLS (\<lambda>x b.
         b[nat ((y - 1) * VGA_COLS + x) := b ! nat (y * VGA_COLS + x)])) b ! i =
       (if i < nat (VGA_ROWS - 1) * 80 then b ! (i + 80) else b ! i))"
proof (rule for_int_invariant [where P = "\<lambda>k t. length t = 2000 \<and>
    (\<forall>i. t ! i = (if i < k * 80 then b ! (i + 80) else b ! i))"])
  fix k t
  assume k: "int k < VGA_ROWS - 1"
    and t: "length t = 2000 \<and> (\<forall>i. t ! i = (if i < k * 80 then b ! (i + 80) else b ! i))"
  have e: "(1 + int k - 1) * VGA_COLS = int (k * 80)" "(1 + int k) * VGA_COLS = int (k * 80) + 80"
    by (simp_all add: vga_consts algebra_simps)
  have "k * 80 + 160 \<le> length t" using k t by (simp add: vga_consts)
  from scroll_row [OF this] t
  show "length (for_int 0 VGA_COLS (\<lambda>x b. b[nat ((1 + int k - 1) * VGA_COLS + x) :=
      b ! nat ((1 + int k) * VGA_COLS + x)]) t) = 2000 \<and>
    (\<forall>i. for_int 0 VGA_COLS (\<lambda>x b. b[nat ((1 + int k - 1) * VGA_COLS + x) :=
      b ! nat ((1 + int k) * VGA_COLS + x)]) t ! i = (if i < Suc k * 80 then b ! (i + 80) else b ! i))"
    unfolding e by (auto simp: VGA_COLS_def)
qed (use assms in auto)

lemma blank_row:
  assumes "length b = 2000"
  shows "length (for_int 0 VGA_COLS (\<lambda>x b. b[nat ((VGA_ROWS - 1) * VGA_COLS + x) := v]) b) = 2000 \<and>
   (\<forall>i<2000. for_int 0 VGA_COLS (\<lambda>x b. b[nat ((VGA_ROWS - 1) * VGA_COLS + x) := v]) b ! i =
      (if 1920 \<le> i \<and> i < 1920 + nat (VGA_COLS - 0) then v else b ! i))"
proof (rule for_int_invariant [where P = "\<lambda>k t. length t = 2000 \<and>
    (\<forall>i<2000. t ! i = (if 1920 \<le> i \<and> i < 1920 + k then v else b ! i))"])
  fix k t
  assume k: "int k < VGA_COLS - 0"
    and t: "length t = 2000 \<and> (\<forall>i<2000. t ! i = (if 1920 \<le> i \<and> i < 1920 + k then v else b ! i))"
  have "nat ((VGA_ROWS - 1) * VGA_COLS + (0 + int k)) = 1920 + k" by (simp add: vga_consts)
  with t k show "length (t[nat ((VGA_ROWS - 1) * VGA_COLS + (0 + int k)) := v]) = 2000 \<and>
    (\<forall>i<2000. t[nat ((VGA_ROWS - 1) * VGA_COLS + (0 + int k)) := v] ! i =
      (if 1920 \<le> i \<and> i < 1920 + Suc k then v else b ! i))"
    by (auto simp: nth_list_update VGA_COLS_def)
qed (use assms in auto)

lemma vga_scroll_eq:
  assumes "length (VGA_BUF c) = 2000"
  shows "vga_scroll c = c\<lparr>VGA_BUF := drop 80 (VGA_BUF c) @ replicate 80 (vga_cell c (CHR '' '')),
    row := VGA_ROWS - 1\<rparr>"
proof -
  let ?t = "for_int 1 VGA_ROWS (\<lambda>y. for_int 0 VGA_COLS (\<lambda>x b.
         b[nat ((y - 1) * VGA_COLS + x) := b ! nat (y * VGA_COLS + x)])) (VGA_BUF c)"
  from scroll_rows [OF assms] have t: "length ?t = 2000"
    "\<And>i. ?t ! i = (if i < 1920 then VGA_BUF c ! (i + 80) else VGA_BUF c ! i)" 
    by (simp_all add: VGA_ROWS_def)
  have "for_int 0 VGA_COLS (\<lambda>x b. b[nat ((VGA_ROWS - 1) * VGA_COLS + x) := vga_cell c (CHR '' '')]) ?t
    = drop 80 (VGA_BUF c) @ replicate 80 (vga_cell c (CHR '' ''))"
    by (rule nth_equalityI)
      (use blank_row [OF t(1), of "vga_cell c (CHR '' '')"] t(2) assms in
        \<open>auto simp: nth_append VGA_COLS_def ac_simps\<close>)
  then show ?thesis by (simp add: vga_scroll_def)
qed

lemma putc_tty:
  assumes "vga_ok c"
  shows "vga_ok (putc ch c) \<and> attr (putc ch c) = attr c \<and>
    (VGA_BUF (putc ch c), cursor (putc ch c)) = tty_putc (attr c) ch (VGA_BUF c, cursor c)"
proof -
  obtain r k where rk: "row c = int r" "col c = int k"
    using assms unfolding vga_ok_def by (metis zero_le_imp_eq_int)
  then have b: "r < 25" "k < 80" "length (VGA_BUF c) = 2000" "fb c = 0"
    using assms by (auto simp: vga_ok_def vga_consts)
  have cur: "cursor c = r * 80 + k" by (simp add: cursor_def rk vga_consts nat_add_distrib nat_mult_distrib)
  have nt: "nat (int r * 80 + int k) = r * 80 + k" by (simp add: nat_add_distrib nat_mult_distrib)
  have dv: "(r * 80 + k) div 80 = r" using b by simp
  show ?thesis
  proof (cases "ch = CHR ''\<newline>''")
    case True
    with b rk show ?thesis
      by (cases "r = 24") (auto simp: putc_def Let_def vga_scroll_eq vga_ok_def vga_consts
        tty_putc_def cursor_def cur [unfolded cursor_def vga_consts] dv vga_cell_def nat_add_distrib nat_mult_distrib)
  next
    case False
    with b rk show ?thesis
      by (cases "k = 79"; cases "r = 24") (auto simp: putc_def Let_def vga_scroll_eq vga_ok_def vga_consts
        tty_putc_def cursor_def nt vga_cell_def nat_add_distrib nat_mult_distrib)
  qed
qed

lemma puts_append: "puts (s @ t) c = puts t (puts s c)"
  by (simp add: puts_def)

lemma puts_Cons [simp]: "puts (ch # s) c = puts s (putc ch c)" "puts [] c = c"
  by (simp_all add: puts_def)

text \<open>The geometry of the framebuffer never changes while printing.\<close>

lemma putc_geometry [simp]:
  "fb (putc ch c) = fb c" "fb_rows (putc ch c) = fb_rows c" "fb_cols (putc ch c) = fb_cols c"
  by (auto simp: putc_def fb_putc_def fb_scroll_def vga_scroll_def Let_def)

section \<open>Properties\<close>

text \<open>C37: On the text screen, printing a string keeps the cursor inside the 80 x 25 screen and
  leaves exactly the screen a teletype would show: each character in the next cell, line feed at
  column 80 and on newline, and the first line dropped when the last one is passed.\<close>

theorem puts_tty:
  assumes "vga_ok c"
  shows "vga_ok (puts s c) \<and>
    (VGA_BUF (puts s c), cursor (puts s c)) = fold (tty_putc (attr c)) s (VGA_BUF c, cursor c)"
  using assms
proof (induction s arbitrary: c)
  case (Cons ch s)
  from putc_tty [OF Cons.prems, of ch] Cons.IH [of "putc ch c"] show ?case by auto
qed simp

definition demo_console :: console where
  "demo_console = \<lparr>attr = 0x0F, row = 24, col = 78, VGA_BUF = replicate 2000 0, fb = 0,
     vram = (\<lambda>_. 0), fb_w = 0, fb_h = 0, fb_pitch = 0, fb_rows = 0, fb_cols = 0\<rparr>"

theorem puts_tty_witness:
  "vga_ok (puts ''OK!'' demo_console) \<and> cursor (puts ''OK!'' demo_console) = 24 * 80 + 1"
proof -
  have "vga_ok demo_console" "cursor demo_console = 24 * 80 + 78"
    by (simp_all add: demo_console_def vga_ok_def vga_consts cursor_def)
  from puts_tty [OF this(1), of "''OK!''"] this(2) show ?thesis
    by (simp add: tty_putc_def)
qed

lemma fb_below_stuck: "fb c \<noteq> 0 \<Longrightarrow> fb_rows c < row c \<Longrightarrow> fb_rows (putc ch c) < row (putc ch c)"
  by (auto simp: putc_def fb_putc_def Let_def)

lemma fb_below_stuck_puts:
  "fb c \<noteq> 0 \<Longrightarrow> fb_rows c < row c \<Longrightarrow> fb_rows c < row (puts s c)"
proof (induction s arbitrary: c)
  case (Cons ch s)
  from Cons.IH [of "putc ch c"] fb_below_stuck [of c ch] Cons.prems show ?case by simp
qed simp

text \<open>In framebuffer mode the newline branch returns before the scroll test, so two newlines on
  the last text row move the cursor below the screen, and no later output ever brings it back: the
  test \<open>row == fb_rows\<close> is never true again.\<close>

theorem fb_double_newline_stuck:
  assumes "fb c \<noteq> 0" and "row c = fb_rows c - 1"
  shows "fb_rows c < row (puts (CHR ''\<newline>'' # CHR ''\<newline>'' # s) c)"
proof -
  have "fb_rows c < row (putc (CHR ''\<newline>'') (putc (CHR ''\<newline>'') c))"
    using assms by (simp add: putc_def fb_putc_def)
  then show ?thesis
    using fb_below_stuck_puts [of "putc (CHR ''\<newline>'') (putc (CHR ''\<newline>'') c)" s] assms by simp
qed

theorem fb_double_newline_stuck_witness:
  "30 < row (puts ''\<newline>\<newline>ok'' (demo_console\<lparr>fb := 0xFD000000, fb_rows := 30, row := 29\<rparr>))"
  using fb_double_newline_stuck [of "demo_console\<lparr>fb := 0xFD000000, fb_rows := 30, row := 29\<rparr>" "''ok''"]
  by simp

end
