(* ===== verification/Ports.thy ===== *)
theory Ports
  imports Prelude
begin

text \<open>
  Port input and output, and the contract of an ATA disk behind it.

  The instructions \<open>inb\<close>, \<open>outb\<close>, \<open>inw\<close> and \<open>outw\<close> of the drivers are the fields of a
  record \<open>ports\<close> over the type \<open>'w\<close> of the state of the hardware; every driver takes it as an
  argument. What an ATA drive does is not part of the sources: the locale \<open>ata_device\<close> states
  the documented behaviour of a fault-free drive in PIO mode that the drivers rely on, and
  \<open>ata_ports\<close> is a drive that has it. The last section has the combinator for operations that
  stop at the first failure.
\<close>

section \<open>Port instructions\<close>

record 'w ports =
  inb :: "u16 \<Rightarrow> 'w \<Rightarrow> u8 \<times> 'w"
  outb :: "u16 \<Rightarrow> u8 \<Rightarrow> 'w \<Rightarrow> 'w"
  inw :: "u16 \<Rightarrow> 'w \<Rightarrow> u16 \<times> 'w"
  outw :: "u16 \<Rightarrow> u16 \<Rightarrow> 'w \<Rightarrow> 'w"

section \<open>Operations that stop at the first failure\<close>

text \<open>\<open>if (!f()) return 0; g()\<close>: the state reached by \<open>f\<close> is kept in both cases.\<close>

definition check :: "('s \<Rightarrow> 'a option \<times> 's) \<Rightarrow> ('a \<Rightarrow> 's \<Rightarrow> 'b option \<times> 's) \<Rightarrow> 's \<Rightarrow> 'b option \<times> 's" where
  "check f g s = (case fst (f s) of None \<Rightarrow> (None, snd (f s)) | Some a \<Rightarrow> g a (snd (f s)))"

lemma check_Some [simp]: "fst (f s) = Some a \<Longrightarrow> check f g s = g a (snd (f s))"
  by (simp add: check_def)

lemma check_None [simp]: "fst (f s) = None \<Longrightarrow> check f g s = (None, snd (f s))"
  by (simp add: check_def)

lemma check_eq_SomeD:
  "check f g s = (Some b, s') \<Longrightarrow> \<exists>a s1. f s = (Some a, s1) \<and> g a s1 = (Some b, s')"
  by (cases "f s"; cases "fst (f s)") (auto simp: check_def)

section \<open>The ATA drive\<close>

text \<open>
  What is observable of a drive: how many status reads it stays busy, the task-file registers, the
  data transfer in progress, the sectors as words (what a read returns), the sectors on the
  medium (what survives a power loss) and the identification words.
\<close>

datatype ata_phase = Idle | Data_in "u16 list" | Data_out u32 "u16 list"

record ata =
  busy :: nat
  drive_head :: u8
  sector_count :: u8
  lba_low :: u8
  lba_mid :: u8
  lba_high :: u8
  phase :: ata_phase
  sectors :: "u32 \<Rightarrow> u16 list"
  media :: "u32 \<Rightarrow> u16 list"
  ident :: "u16 list"

text \<open>The 28-bit sector number in the task file.\<close>

definition lba28 :: "ata \<Rightarrow> u32" where
  "lba28 v = ucast (lba_low v) OR push_bit 8 (ucast (lba_mid v)) OR push_bit 16 (ucast (lba_high v)) OR
     push_bit 24 (ucast (drive_head v AND 15))"

text \<open>READ SECTORS, WRITE SECTORS, FLUSH CACHE and IDENTIFY DEVICE.\<close>

definition ata_command :: "u8 \<Rightarrow> ata \<Rightarrow> ata" where
  "ata_command cmd v =
     (if cmd = 0x20 then v\<lparr>phase := Data_in (sectors v (lba28 v))\<rparr>
      else if cmd = 0x30 then v\<lparr>phase := Data_out (lba28 v) []\<rparr>
      else if cmd = 0xE7 then v\<lparr>media := sectors v\<rparr>
      else if cmd = 0xEC then v\<lparr>phase := Data_in (ident v)\<rparr>
      else v)"

definition POLL_MAX :: nat where "POLL_MAX = 1000000"

locale ata_device =
  fixes io :: "'w ports" and view :: "'w \<Rightarrow> ata"
  assumes status_busy: "busy (view w) = Suc n \<Longrightarrow>
      bit (fst (inb io 0x1F7 w)) 7 \<and> \<not> bit (fst (inb io 0x1F7 w)) 3 \<and> \<not> bit (fst (inb io 0x1F7 w)) 0 \<and>
      view (snd (inb io 0x1F7 w)) = (view w)\<lparr>busy := n\<rparr>"
    and status_ready: "busy (view w) = 0 \<Longrightarrow>
      fst (inb io 0x1F7 w) \<noteq> 0 \<and> \<not> bit (fst (inb io 0x1F7 w)) 7 \<and> \<not> bit (fst (inb io 0x1F7 w)) 0 \<and>
      bit (fst (inb io 0x1F7 w)) 3 = (phase (view w) \<noteq> Idle) \<and>
      view (snd (inb io 0x1F7 w)) = view w"
    and set_count: "busy (view w) = 0 \<Longrightarrow> view (outb io 0x1F2 x w) = (view w)\<lparr>sector_count := x\<rparr>"
    and set_low: "busy (view w) = 0 \<Longrightarrow> view (outb io 0x1F3 x w) = (view w)\<lparr>lba_low := x\<rparr>"
    and set_mid: "busy (view w) = 0 \<Longrightarrow> view (outb io 0x1F4 x w) = (view w)\<lparr>lba_mid := x\<rparr>"
    and set_high: "busy (view w) = 0 \<Longrightarrow> view (outb io 0x1F5 x w) = (view w)\<lparr>lba_high := x\<rparr>"
    and set_head: "busy (view w) = 0 \<Longrightarrow> view (outb io 0x1F6 x w) = (view w)\<lparr>drive_head := x\<rparr>"
    and command: "busy (view w) = 0 \<Longrightarrow> phase (view w) = Idle \<Longrightarrow> cmd \<in> {0x20, 0x30, 0xE7, 0xEC} \<Longrightarrow>
      \<exists>n < POLL_MAX. view (outb io 0x1F7 cmd w) = (ata_command cmd (view w))\<lparr>busy := n\<rparr>"
    and data_in: "busy (view w) = 0 \<Longrightarrow> phase (view w) = Data_in (d # ds) \<Longrightarrow>
      fst (inw io 0x1F0 w) = d \<and>
      view (snd (inw io 0x1F0 w)) = (view w)\<lparr>phase := (if ds = [] then Idle else Data_in ds)\<rparr>"
    and data_out: "busy (view w) = 0 \<Longrightarrow> phase (view w) = Data_out l ws \<Longrightarrow> length ws < 255 \<Longrightarrow>
      view (outw io 0x1F0 d w) = (view w)\<lparr>phase := Data_out l (ws @ [d])\<rparr>"
    and data_out_last: "busy (view w) = 0 \<Longrightarrow> phase (view w) = Data_out l ws \<Longrightarrow> length ws = 255 \<Longrightarrow>
      \<exists>n < POLL_MAX. view (outw io 0x1F0 d w) =
        (view w)\<lparr>phase := Idle, sectors := (sectors (view w))(l := ws @ [d]), busy := n\<rparr>"
begin

text \<open>Writing the task file.\<close>

lemmas task_file = set_count set_low set_mid set_high set_head

end

section \<open>A drive with this behaviour\<close>

text \<open>A drive that is busy for three status reads after each command and each sector.\<close>

definition ata_ports :: "ata ports" where
  "ata_ports = \<lparr>
     inb = (\<lambda>p v. if p = 0x1F7
        then (case busy v of Suc n \<Rightarrow> (0x80, v\<lparr>busy := n\<rparr>)
              | 0 \<Rightarrow> (if phase v = Idle then 0x50 else 0x58, v)) else (0, v)),
     outb = (\<lambda>p x v.
        if p = 0x1F7 then (ata_command x v)\<lparr>busy := 3\<rparr>
        else if p = 0x1F6 then v\<lparr>drive_head := x\<rparr>
        else if p = 0x1F5 then v\<lparr>lba_high := x\<rparr>
        else if p = 0x1F4 then v\<lparr>lba_mid := x\<rparr>
        else if p = 0x1F3 then v\<lparr>lba_low := x\<rparr>
        else if p = 0x1F2 then v\<lparr>sector_count := x\<rparr> else v),
     inw = (\<lambda>p v. case phase v of
        Data_in (x # xs) \<Rightarrow> (x, v\<lparr>phase := (if xs = [] then Idle else Data_in xs)\<rparr>)
      | _ \<Rightarrow> (0, v)),
     outw = (\<lambda>p x v. case phase v of
        Data_out l ws \<Rightarrow> if length ws < 255 then v\<lparr>phase := Data_out l (ws @ [x])\<rparr>
          else v\<lparr>phase := Idle, sectors := (sectors v)(l := ws @ [x]), busy := 3\<rparr>
      | _ \<Rightarrow> v)\<rparr>"

interpretation ata_sim: ata_device ata_ports "\<lambda>v. v"
  by unfold_locales (auto simp: ata_ports_def POLL_MAX_def intro!: exI [of _ "3::nat"] split: nat.split)

text \<open>A blank disk of zeros.\<close>

definition blank_ata :: ata where
  "blank_ata = \<lparr>busy = 0, drive_head = 0, sector_count = 0, lba_low = 0, lba_mid = 0, lba_high = 0,
     phase = Idle, sectors = (\<lambda>_. replicate 256 0), media = (\<lambda>_. replicate 256 0),
     ident = replicate 256 0\<rparr>"

end
