(* ===== verification/M64_Disk.thy ===== *)
theory M64_Disk
  imports Ports
begin

text \<open>
  The ATA driver of the Mini64 rescue kernel (\<^verbatim>\<open>src/mini64/kernel.c\<close>, lines 180 to 260): polling,
  sector reads and writes, the write counter that bounds uncommitted data, cache flush and drive
  identification. Operations return an option (\<open>None\<close> where the source returns 0) and the state.

  The second half proves the driver against any \<open>ata_device\<close>, and provides it to the file
  system as a \<open>sector_disk\<close>, the interface the FAT32 code is verified against.
\<close>

section \<open>The driver\<close>

record 'w drive =
  pending_writes :: u32
  world :: 'w

text \<open>The polling loops of \<open>disk_wait_ready\<close> and \<open>disk_wait_data\<close>, with the number of rounds left.\<close>

fun poll_ready :: "'w ports \<Rightarrow> nat \<Rightarrow> 'w \<Rightarrow> unit option \<times> 'w" where
  "poll_ready io 0 w = (None, w)"
| "poll_ready io (Suc n) w =
     (let (s, w1) = inb io 0x1F7 w
      in if s AND 0x80 = 0 then (Some (), w1) else poll_ready io n w1)"

definition disk_wait_ready :: "'w ports \<Rightarrow> 'w \<Rightarrow> unit option \<times> 'w" where
  "disk_wait_ready io w = poll_ready io POLL_MAX w"

fun poll_data :: "'w ports \<Rightarrow> nat \<Rightarrow> 'w \<Rightarrow> unit option \<times> 'w" where
  "poll_data io 0 w = (None, w)"
| "poll_data io (Suc n) w =
     (let (s, w1) = inb io 0x1F7 w
      in if s AND 1 \<noteq> 0 then (None, w1)
         else if s AND 8 \<noteq> 0 then (Some (), w1)
         else poll_data io n w1)"

definition disk_wait_data :: "'w ports \<Rightarrow> 'w \<Rightarrow> unit option \<times> 'w" where
  "disk_wait_data io w = poll_data io POLL_MAX w"

definition disk_select :: "'w ports \<Rightarrow> u32 \<Rightarrow> u8 \<Rightarrow> 'w \<Rightarrow> unit option \<times> 'w" where
  "disk_select io lba cmd = check (disk_wait_ready io) (\<lambda>_ w.
     (Some (),
      outb io 0x1F7 cmd
       (outb io 0x1F5 (ucast (drop_bit 16 lba))
        (outb io 0x1F4 (ucast (drop_bit 8 lba))
         (outb io 0x1F3 (ucast lba)
          (outb io 0x1F2 1
           (outb io 0x1F6 (ucast (0xE0 OR (drop_bit 24 lba AND 15))) w)))))))"

text \<open>The transfer loops: \<open>n\<close> words from or to the data port, the low byte first.\<close>

fun in_words :: "'w ports \<Rightarrow> nat \<Rightarrow> 'w \<Rightarrow> u16 list \<times> 'w" where
  "in_words io 0 w = ([], w)"
| "in_words io (Suc n) w =
     (let (x, w1) = inw io 0x1F0 w; (xs, w2) = in_words io n w1 in (x # xs, w2))"

fun word_bytes :: "u16 list \<Rightarrow> bytes" where
  "word_bytes [] = []"
| "word_bytes (x # xs) = ucast x # ucast (drop_bit 8 x) # word_bytes xs"

fun out_words :: "'w ports \<Rightarrow> bytes \<Rightarrow> 'w \<Rightarrow> 'w" where
  "out_words io (a # b # bs) w =
     out_words io bs (outw io 0x1F0 (ucast a OR push_bit 8 (ucast b)) w)"
| "out_words io _ w = w"

definition disk_read :: "'w ports \<Rightarrow> u32 \<Rightarrow> 'w drive \<Rightarrow> bytes option \<times> 'w drive" where
  "disk_read io lba d =
     (let (r, w) = check (disk_select io lba 0x20) (\<lambda>_. check (disk_wait_data io) (\<lambda>_ w.
        let (ws, w1) = in_words io 256 w in (Some (word_bytes ws), w1))) (world d)
      in (r, d\<lparr>world := w\<rparr>))"

definition disk_flush :: "'w ports \<Rightarrow> 'w drive \<Rightarrow> unit option \<times> 'w drive" where
  "disk_flush io d =
     (if pending_writes d = 0 then (Some (), d)
      else let (r, w) = check (disk_wait_ready io) (\<lambda>_ w.
                 check (disk_wait_ready io) (\<lambda>_ w. (Some (), w)) (outb io 0x1F7 0xE7 w)) (world d)
           in (r, d\<lparr>world := w, pending_writes := (if r = None then pending_writes d else 0)\<rparr>))"

definition disk_write :: "'w ports \<Rightarrow> u32 \<Rightarrow> bytes \<Rightarrow> 'w drive \<Rightarrow> unit option \<times> 'w drive" where
  "disk_write io lba buf d =
     (let (r, w) = check (disk_select io lba 0x30) (\<lambda>_. check (disk_wait_data io) (\<lambda>_ w.
        disk_wait_ready io (out_words io buf w))) (world d)
      in case r of None \<Rightarrow> (None, d\<lparr>world := w\<rparr>)
         | Some _ \<Rightarrow>
           let d1 = d\<lparr>world := w, pending_writes := pending_writes d + 1\<rparr>
           in if pending_writes d1 < 128 then (Some (), d1) else disk_flush io d1)"

text \<open>The model name of the identification words: high byte first, trailing spaces removed
  (\<open>cstr\<close>: the callers print up to the first zero byte).\<close>

fun model_chars :: "u16 list \<Rightarrow> string" where
  "model_chars [] = []"
| "model_chars (x # xs) = chr (ucast (drop_bit 8 x)) # chr (ucast x) # model_chars xs"

definition disk_identify :: "'w ports \<Rightarrow> 'w drive \<Rightarrow> (string \<times> u32) option \<times> 'w drive" where
  "disk_identify io d =
     (let (r, w) = check (disk_wait_ready io) (\<lambda>_ w.
        let (s, w1) = inb io 0x1F7
              (outb io 0x1F7 0xEC (outb io 0x1F5 0 (outb io 0x1F4 0 (outb io 0x1F3 0
                (outb io 0x1F2 0 (outb io 0x1F6 0xA0 w))))))
        in if s = 0 then (None, w1)
           else check (disk_wait_data io) (\<lambda>_ w2.
             let (ws, w3) = in_words io 256 w2;
                 model = rev (dropWhile (\<lambda>c. c = CHR '' '') (rev (model_chars (take 20 (drop 27 ws)))))
             in (Some (cstr model, ucast (ws ! 60) OR push_bit 16 (ucast (ws ! 61))), w3)) w1) (world d)
      in (r, d\<lparr>world := w\<rparr>))"

section \<open>The disk interface of the file system\<close>

record 'd disk_ops =
  rd :: "u32 \<Rightarrow> 'd \<Rightarrow> bytes option \<times> 'd"
  wr :: "u32 \<Rightarrow> bytes \<Rightarrow> 'd \<Rightarrow> unit option \<times> 'd"
  fl :: "'d \<Rightarrow> unit option \<times> 'd"

definition drive_ops :: "'w ports \<Rightarrow> 'w drive disk_ops" where
  "drive_ops io = \<lparr>rd = disk_read io, wr = disk_write io, fl = disk_flush io\<rparr>"

fun bytes_words :: "bytes \<Rightarrow> u16 list" where
  "bytes_words (a # b # bs) = (ucast a OR push_bit 8 (ucast b)) # bytes_words bs"
| "bytes_words _ = []"

lemma length_word_bytes [simp]: "length (word_bytes ws) = 2 * length ws"
  by (induction ws) auto

lemma length_bytes_words [simp]: "length (bytes_words bs) = length bs div 2"
  by (induction bs rule: bytes_words.induct) auto

lemma word_bytes_words: "even (length bs) \<Longrightarrow> word_bytes (bytes_words bs) = bs"
proof (induction bs rule: bytes_words.induct)
  case (1 a b bs)
  have "ucast (ucast a OR push_bit 8 (ucast b) :: u16) = a" for a b :: u8
    by (rule bit_word_eqI) (auto simp: bit_simps)
  moreover have "ucast (drop_bit 8 (ucast a OR push_bit 8 (ucast b) :: u16)) = b" for a b :: u8
    by (rule bit_word_eqI) (auto simp: bit_simps dest: bit_imp_le_length)
  ultimately show ?case using 1 by simp
qed auto

lemma lba28_task:
  "lba28 (v\<lparr>busy := n, drive_head := ucast (0xE0 OR (drop_bit 24 lba AND 15)), sector_count := c,
     lba_low := ucast lba, lba_mid := ucast (drop_bit 8 lba), lba_high := ucast (drop_bit 16 lba)\<rparr>)
   = take_bit 28 lba" for lba :: u32
proof -
  have "ucast (0xE0 OR y) AND 15 = (take_bit 4 (ucast y) :: u8)" for y :: u32
  proof -
    have "ucast (0xE0 OR y) AND 15 = (ucast y AND 15 :: u8)"
      by (simp add: unsigned_or_eq bit.conj_disj_distrib2)
    also have "\<dots> = take_bit 4 (ucast y)" by (simp add: take_bit_eq_mask mask_eq_exp_minus_1)
    finally show ?thesis .
  qed
  moreover have "drop_bit 24 lba AND 15 = take_bit 4 (drop_bit 24 lba)"
    by (simp add: take_bit_eq_mask mask_eq_exp_minus_1)
  ultimately show ?thesis
    by (simp add: lba28_def) (rule bit_word_eqI, auto simp: bit_simps)
qed

locale sector_disk =
  fixes ops :: "'d disk_ops" and sec :: "'d \<Rightarrow> u32 \<Rightarrow> bytes" and ok :: "'d \<Rightarrow> bool"
  assumes rd_ok: "ok d \<Longrightarrow> fst (rd ops l d) = Some (sec d l) \<and> ok (snd (rd ops l d)) \<and>
      sec (snd (rd ops l d)) = sec d"
    and wr_ok: "ok d \<Longrightarrow> length b = 512 \<Longrightarrow> fst (wr ops l b d) = Some () \<and> ok (snd (wr ops l b d)) \<and>
      sec (snd (wr ops l b d)) = (\<lambda>k. if take_bit 28 k = take_bit 28 l then b else sec d k)"
    and fl_ok: "ok d \<Longrightarrow> fst (fl ops d) = Some () \<and> ok (snd (fl ops d)) \<and>
      sec (snd (fl ops d)) = sec d"
    and sec_length: "ok d \<Longrightarrow> length (sec d l) = 512"
begin

lemma rd_simps [simp]:
  assumes "ok d"
  shows "fst (rd ops l d) = Some (sec d l)" "ok (snd (rd ops l d))" "sec (snd (rd ops l d)) = sec d"
  using rd_ok [OF assms] by blast+

lemma wr_simps [simp]:
  assumes "ok d" and "length b = 512"
  shows "fst (wr ops l b d) = Some ()" "ok (snd (wr ops l b d))"
    "sec (snd (wr ops l b d)) k = (if take_bit 28 k = take_bit 28 l then b else sec d k)"
  using wr_ok [OF assms] by auto

lemma fl_simps [simp]:
  assumes "ok d"
  shows "fst (fl ops d) = Some ()" "ok (snd (fl ops d))" "sec (snd (fl ops d)) = sec d"
  using fl_ok [OF assms] by blast+

lemma read_after_write:
  "ok d \<Longrightarrow> length b = 512 \<Longrightarrow> fst (rd ops l (snd (wr ops l b d))) = Some b"
  by simp

end

section \<open>The driver on an ATA drive\<close>

text \<open>The drive is idle and answers within the polling bound; sectors have 256 words.\<close>

definition drive_ok :: "('w \<Rightarrow> ata) \<Rightarrow> 'w drive \<Rightarrow> bool" where
  "drive_ok view d \<longleftrightarrow> (let v = view (world d) in busy v < POLL_MAX \<and> phase v = Idle \<and>
     (\<forall>l. length (sectors v l) = 256) \<and> length (ident v) = 256)"

definition drive_sec :: "('w \<Rightarrow> ata) \<Rightarrow> 'w drive \<Rightarrow> u32 \<Rightarrow> bytes" where
  "drive_sec view d l = word_bytes (sectors (view (world d)) (take_bit 28 l))"

context ata_device
begin

lemma poll_ready_ok:
  "busy (view w) < n \<Longrightarrow> fst (poll_ready io n w) = Some () \<and>
     view (snd (poll_ready io n w)) = (view w)\<lparr>busy := 0\<rparr>"
proof (induction n arbitrary: w)
  case (Suc n)
  show ?case
  proof (cases "busy (view w)")
    case 0
    with status_ready [of w] show ?thesis by (simp add: split_def bit7)
  next
    case (Suc m)
    with status_busy [of w m] Suc.IH [of "snd (inb io 0x1F7 w)"] Suc.prems show ?thesis
      by (simp add: split_def bit7)
  qed
qed simp

lemma wait_ready_ok:
  "busy (view w) < POLL_MAX \<Longrightarrow> fst (disk_wait_ready io w) = Some () \<and>
     view (snd (disk_wait_ready io w)) = (view w)\<lparr>busy := 0\<rparr>"
  by (simp add: disk_wait_ready_def poll_ready_ok)

lemma poll_data_ok:
  "busy (view w) < n \<Longrightarrow> phase (view w) \<noteq> Idle \<Longrightarrow> fst (poll_data io n w) = Some () \<and>
     view (snd (poll_data io n w)) = (view w)\<lparr>busy := 0\<rparr>"
proof (induction n arbitrary: w)
  case (Suc n)
  show ?case
  proof (cases "busy (view w)")
    case 0
    with status_ready [of w] Suc.prems show ?thesis by (simp add: split_def bit3 bit0')
  next
    case (Suc m)
    with status_busy [of w m] Suc.IH [of "snd (inb io 0x1F7 w)"] Suc.prems show ?thesis
      by (simp add: split_def bit3 bit0')
  qed
qed simp

lemma wait_data_ok:
  "busy (view w) < POLL_MAX \<Longrightarrow> phase (view w) \<noteq> Idle \<Longrightarrow> fst (disk_wait_data io w) = Some () \<and>
     view (snd (disk_wait_data io w)) = (view w)\<lparr>busy := 0\<rparr>"
  by (simp add: disk_wait_data_def poll_data_ok)

lemma select_ok:
  assumes "busy (view w) < POLL_MAX" and "phase (view w) = Idle" and "cmd \<in> {0x20, 0x30}"
  shows "fst (disk_select io lba cmd w) = Some ()"
    and "\<exists>v n. n < POLL_MAX \<and> view (snd (disk_select io lba cmd w)) = (ata_command cmd v)\<lparr>busy := n\<rparr> \<and>
      lba28 v = take_bit 28 lba \<and> sectors v = sectors (view w) \<and> media v = media (view w) \<and>
      ident v = ident (view w)"
proof -
  show "fst (disk_select io lba cmd w) = Some ()"
    using wait_ready_ok [OF assms(1)] by (simp add: disk_select_def)
  let ?w = "outb io 0x1F5 (ucast (drop_bit 16 lba)) (outb io 0x1F4 (ucast (drop_bit 8 lba))
     (outb io 0x1F3 (ucast lba) (outb io 0x1F2 1
      (outb io 0x1F6 (ucast (0xE0 OR (drop_bit 24 lba AND 15))) (snd (disk_wait_ready io w))))))"
  let ?v = "(view w)\<lparr>busy := 0, drive_head := ucast (0xE0 OR (drop_bit 24 lba AND 15)), sector_count := 1,
     lba_low := ucast lba, lba_mid := ucast (drop_bit 8 lba), lba_high := ucast (drop_bit 16 lba)\<rparr>"
  have v: "view ?w = ?v" using wait_ready_ok [OF assms(1)] by (simp add: task_file)
  then obtain n where "n < POLL_MAX" "view (outb io 0x1F7 cmd ?w) = (ata_command cmd ?v)\<lparr>busy := n\<rparr>"
    using command [of ?w cmd] assms(2,3) by auto
  then show "\<exists>v n. n < POLL_MAX \<and> view (snd (disk_select io lba cmd w)) = (ata_command cmd v)\<lparr>busy := n\<rparr> \<and>
      lba28 v = take_bit 28 lba \<and> sectors v = sectors (view w) \<and> media v = media (view w) \<and>
      ident v = ident (view w)"
    using wait_ready_ok [OF assms(1)] lba28_task
    by (intro exI [of _ ?v] exI [of _ n]) (simp add: disk_select_def)
qed

lemma in_words_ok:
  "busy (view w) = 0 \<Longrightarrow> phase (view w) = Data_in ws \<Longrightarrow> ws \<noteq> [] \<Longrightarrow>
     fst (in_words io (length ws) w) = ws \<and>
     view (snd (in_words io (length ws) w)) = (view w)\<lparr>phase := Idle\<rparr>"
proof (induction ws arbitrary: w)
  case (Cons x xs)
  with data_in [of w x xs] Cons.IH [of "snd (inw io 0x1F0 w)"] show ?case
    by (cases "xs = []") (simp_all add: split_def)
qed simp

lemma out_words_ok:
  "busy (view w) = 0 \<Longrightarrow> phase (view w) = Data_out l ws \<Longrightarrow> bs \<noteq> [] \<Longrightarrow> even (length bs) \<Longrightarrow>
     length ws + length bs div 2 = 256 \<Longrightarrow>
     \<exists>n < POLL_MAX. view (out_words io bs w) = (view w)\<lparr>phase := Idle,
       sectors := (sectors (view w))(l := ws @ bytes_words bs), busy := n\<rparr>"
proof (induction bs arbitrary: w ws rule: bytes_words.induct)
  case (1 a b bs)
  let ?x = "ucast a OR push_bit 8 (ucast b) :: u16"
  show ?case
  proof (cases "bs = []")
    case True
    with 1 data_out_last [of w l ws ?x] show ?thesis by (simp add: fun_upd_def)
  next
    case False
    then have "length bs \<noteq> 0" "even (length bs)" using 1 by auto
    then have "length bs div 2 \<noteq> 0" by presburger
    with 1 data_out [of w l ws ?x] False show ?thesis
      using 1(1) [of "outw io 0x1F0 ?x w" "ws @ [?x]"] by simp
  qed
qed auto

lemma disk_read_ok:
  assumes "drive_ok view d"
  shows "fst (disk_read io lba d) = Some (drive_sec view d lba) \<and> drive_ok view (snd (disk_read io lba d)) \<and>
    drive_sec view (snd (disk_read io lba d)) = drive_sec view d \<and>
    media (view (world (snd (disk_read io lba d)))) = media (view (world d)) \<and>
    pending_writes (snd (disk_read io lba d)) = pending_writes d"
proof -
  let ?w = "world d" and ?w1 = "snd (disk_select io lba 0x20 (world d))"
  from assms have d: "busy (view ?w) < POLL_MAX" "phase (view ?w) = Idle"
    "\<And>l. length (sectors (view ?w) l) = 256" "length (ident (view ?w)) = 256"
    by (auto simp: drive_ok_def Let_def)
  obtain v n where n: "n < POLL_MAX" "view ?w1 = (ata_command 0x20 v)\<lparr>busy := n\<rparr>"
    and v: "lba28 v = take_bit 28 lba" "sectors v = sectors (view ?w)" "media v = media (view ?w)"
      "ident v = ident (view ?w)"
    using select_ok(2) [OF d(1,2), of "0x20" lba] by blast
  let ?ws = "sectors (view ?w) (take_bit 28 lba)" and ?w2 = "snd (disk_wait_data io ?w1)"
  from n v have "busy (view ?w1) < POLL_MAX" "phase (view ?w1) = Data_in ?ws" by (simp_all add: ata_command_def)
  with wait_data_ok [of ?w1] have wd: "fst (disk_wait_data io ?w1) = Some ()"
    and v2: "view ?w2 = (view ?w1)\<lparr>busy := 0\<rparr>" by auto
  have "?ws \<noteq> []" using d(3) [of "take_bit 28 lba"] by auto
  then have iw: "fst (in_words io 256 ?w2) = ?ws" "view (snd (in_words io 256 ?w2)) = (view ?w2)\<lparr>phase := Idle\<rparr>"
    using in_words_ok [of ?w2 ?ws] v2 \<open>phase (view ?w1) = Data_in ?ws\<close> d(3) by auto
  have "disk_read io lba d = (Some (word_bytes ?ws), d\<lparr>world := snd (in_words io 256 ?w2)\<rparr>)"
    using select_ok(1) [OF d(1,2), of "0x20" lba] wd iw by (simp add: disk_read_def split_def)
  with iw v2 n v d show ?thesis
    by (simp add: drive_sec_def drive_ok_def ata_command_def fun_eq_iff)
qed

lemma disk_flush_ok:
  assumes "drive_ok view d"
  shows "fst (disk_flush io d) = Some () \<and> drive_ok view (snd (disk_flush io d)) \<and>
    drive_sec view (snd (disk_flush io d)) = drive_sec view d \<and>
    pending_writes (snd (disk_flush io d)) = 0 \<and>
    media (view (world (snd (disk_flush io d)))) =
      (if pending_writes d = 0 then media (view (world d)) else sectors (view (world d))) \<and>
    sectors (view (world (snd (disk_flush io d)))) = sectors (view (world d))"
proof -
  let ?w1 = "snd (disk_wait_ready io (world d))" and ?w = "world d"
  from assms have d: "busy (view ?w) < POLL_MAX" "phase (view ?w) = Idle"
    by (auto simp: drive_ok_def Let_def)
  from wait_ready_ok [OF d(1)] have w1: "fst (disk_wait_ready io ?w) = Some ()"
    "view ?w1 = (view ?w)\<lparr>busy := 0\<rparr>" by auto
  then obtain n where n: "n < POLL_MAX"
      "view (outb io 0x1F7 0xE7 ?w1) = (ata_command 0xE7 (view ?w1))\<lparr>busy := n\<rparr>"
    using command [of ?w1 "0xE7"] d(2) by auto
  with wait_ready_ok [of "outb io 0x1F7 0xE7 ?w1"]
  have "fst (disk_wait_ready io (outb io 0x1F7 0xE7 ?w1)) = Some ()"
    "view (snd (disk_wait_ready io (outb io 0x1F7 0xE7 ?w1))) = (ata_command 0xE7 (view ?w1))\<lparr>busy := 0\<rparr>"
    by auto
  with w1 assms show ?thesis
    by (auto simp: disk_flush_def split_def drive_ok_def drive_sec_def ata_command_def Let_def fun_eq_iff)
qed

lemma disk_write_ok:
  assumes "drive_ok view d" and "length b = 512"
  shows "fst (disk_write io lba b d) = Some () \<and> drive_ok view (snd (disk_write io lba b d)) \<and>
    drive_sec view (snd (disk_write io lba b d)) =
      (\<lambda>k. if take_bit 28 k = take_bit 28 lba then b else drive_sec view d k) \<and>
    (if pending_writes d + 1 < 128
     then pending_writes (snd (disk_write io lba b d)) = pending_writes d + 1 \<and>
       media (view (world (snd (disk_write io lba b d)))) = media (view (world d))
     else pending_writes (snd (disk_write io lba b d)) = 0 \<and>
       (pending_writes d \<noteq> - 1 \<longrightarrow> media (view (world (snd (disk_write io lba b d)))) =
         sectors (view (world (snd (disk_write io lba b d))))))"
proof -
  let ?w = "world d" and ?w1 = "snd (disk_select io lba 0x30 (world d))"
  from assms have d: "busy (view ?w) < POLL_MAX" "phase (view ?w) = Idle"
    "\<And>l. length (sectors (view ?w) l) = 256" "length (ident (view ?w)) = 256"
    by (auto simp: drive_ok_def Let_def)
  obtain v n where n: "n < POLL_MAX" "view ?w1 = (ata_command 0x30 v)\<lparr>busy := n\<rparr>"
    and v: "lba28 v = take_bit 28 lba" "sectors v = sectors (view ?w)" "media v = media (view ?w)"
      "ident v = ident (view ?w)"
    using select_ok(2) [OF d(1,2), of "0x30" lba] by blast
  let ?w2 = "snd (disk_wait_data io ?w1)"
  from n v have "busy (view ?w1) < POLL_MAX" "phase (view ?w1) = Data_out (take_bit 28 lba) []"
    by (simp_all add: ata_command_def)
  with wait_data_ok [of ?w1] have wd: "fst (disk_wait_data io ?w1) = Some ()"
    and v2: "view ?w2 = (view ?w1)\<lparr>busy := 0\<rparr>" by auto
  have "b \<noteq> []" using assms(2) by auto
  with v2 obtain m where m: "m < POLL_MAX" "view (out_words io b ?w2) = (view ?w2)\<lparr>phase := Idle,
       sectors := (sectors (view ?w2))(take_bit 28 lba := bytes_words b), busy := m\<rparr>"
    using out_words_ok [of ?w2 "take_bit 28 lba" "[]" b] assms(2)
      \<open>phase (view ?w1) = Data_out (take_bit 28 lba) []\<close> by auto
  let ?w3 = "snd (disk_wait_ready io (out_words io b ?w2))"
  from m wait_ready_ok [of "out_words io b ?w2"]
  have w3: "fst (disk_wait_ready io (out_words io b ?w2)) = Some ()"
    and v3: "view ?w3 = (view (out_words io b ?w2))\<lparr>busy := 0\<rparr>" by auto
  let ?d = "d\<lparr>world := ?w3, pending_writes := pending_writes d + 1\<rparr>"
  have e: "disk_write io lba b d = (if pending_writes d + 1 < 128 then (Some (), ?d) else disk_flush io ?d)"
    using select_ok(1) [OF d(1,2), of "0x30" lba] wd w3 by (simp add: disk_write_def split_def Let_def)
  have ok: "drive_ok view ?d"
    using v3 m v2 n v d assms(2) by (simp add: drive_ok_def ata_command_def)
  have sec: "drive_sec view ?d = (\<lambda>k. if take_bit 28 k = take_bit 28 lba then b else drive_sec view d k)"
    using v3 m v2 n v assms(2) by (auto simp: drive_sec_def ata_command_def word_bytes_words fun_eq_iff)
  have md: "media (view ?w3) = media (view ?w)" using v3 m v2 n v by (simp add: ata_command_def)
  have "pending_writes d + 1 = 0 \<longleftrightarrow> pending_writes d = - 1"
    by (simp add: eq_neg_iff_add_eq_0)
  with e ok sec md disk_flush_ok [OF ok] show ?thesis by auto
qed

lemma status_any:
  "fst (inb io 0x1F7 w) \<noteq> 0 \<and> (\<exists>m \<le> busy (view w). view (snd (inb io 0x1F7 w)) = (view w)\<lparr>busy := m\<rparr>)"
proof (cases "busy (view w)")
  case 0
  then show ?thesis using status_ready [of w] by auto
next
  case (Suc n)
  then show ?thesis using status_busy [OF Suc] by (auto intro: exI [of _ n])
qed

lemma disk_identify_ok:
  assumes "drive_ok view d"
  shows "fst (disk_identify io d) = Some
      (cstr (rev (dropWhile (\<lambda>c. c = CHR '' '') (rev (model_chars (take 20 (drop 27 (ident (view (world d))))))))),
       ucast (ident (view (world d)) ! 60) OR push_bit 16 (ucast (ident (view (world d)) ! 61))) \<and>
    drive_ok view (snd (disk_identify io d)) \<and>
    drive_sec view (snd (disk_identify io d)) = drive_sec view d \<and>
    pending_writes (snd (disk_identify io d)) = pending_writes d"
proof -
  let ?w = "world d" and ?w1 = "snd (disk_wait_ready io (world d))"
  from assms have d: "busy (view ?w) < POLL_MAX" "phase (view ?w) = Idle"
    "\<And>l. length (sectors (view ?w) l) = 256" "length (ident (view ?w)) = 256"
    by (auto simp: drive_ok_def Let_def)
  from wait_ready_ok [OF d(1)] have w1: "fst (disk_wait_ready io ?w) = Some ()"
    "view ?w1 = (view ?w)\<lparr>busy := 0\<rparr>" by auto
  let ?w2 = "outb io 0x1F5 0 (outb io 0x1F4 0 (outb io 0x1F3 0 (outb io 0x1F2 0 (outb io 0x1F6 0xA0 ?w1))))"
  have "busy (view ?w2) = 0" "phase (view ?w2) = Idle" "sectors (view ?w2) = sectors (view ?w)"
    "ident (view ?w2) = ident (view ?w)"
    using w1 d by (simp_all add: task_file)
  moreover from this obtain n where n: "n < POLL_MAX"
      "view (outb io 0x1F7 0xEC ?w2) = (ata_command 0xEC (view ?w2))\<lparr>busy := n\<rparr>"
    using command [of ?w2 "0xEC"] by auto
  ultimately have v3: "busy (view (outb io 0x1F7 0xEC ?w2)) = n"
    "phase (view (outb io 0x1F7 0xEC ?w2)) = Data_in (ident (view ?w))"
    "sectors (view (outb io 0x1F7 0xEC ?w2)) = sectors (view ?w)"
    "ident (view (outb io 0x1F7 0xEC ?w2)) = ident (view ?w)"
    by (simp_all add: ata_command_def)
  let ?w3 = "outb io 0x1F7 0xEC ?w2" and ?w4 = "snd (inb io 0x1F7 (outb io 0x1F7 0xEC ?w2))"
  from status_any [of ?w3] have s: "fst (inb io 0x1F7 ?w3) \<noteq> 0" by blast
  from status_any [of ?w3] obtain m where "m \<le> n" and v4: "view ?w4 = (view ?w3)\<lparr>busy := m\<rparr>"
    unfolding v3(1) by blast
  with n(1) have m: "m < POLL_MAX" by simp
  let ?w5 = "snd (disk_wait_data io ?w4)"
  have w5: "fst (disk_wait_data io ?w4) = Some ()" "view ?w5 = (view ?w3)\<lparr>busy := 0\<rparr>"
    using wait_data_ok [of ?w4] v4 m v3 by auto
  have "ident (view ?w) \<noteq> []" using d(4) by auto
  then have "fst (in_words io 256 ?w5) = ident (view ?w)"
    "view (snd (in_words io 256 ?w5)) = (view ?w3)\<lparr>busy := 0, phase := Idle\<rparr>"
    using in_words_ok [of ?w5 "ident (view ?w)"] w5 v3 d(4) by auto
  with w1 s w5 v3 d show ?thesis
    by (simp add: disk_identify_def split_def Let_def drive_ok_def drive_sec_def fun_eq_iff)
qed

end

sublocale ata_device \<subseteq> drv: sector_disk "drive_ops io" "drive_sec view" "drive_ok view"
proof
  fix d l
  show "drive_ok view d \<Longrightarrow> fst (rd (drive_ops io) l d) = Some (drive_sec view d l) \<and>
      drive_ok view (snd (rd (drive_ops io) l d)) \<and>
      drive_sec view (snd (rd (drive_ops io) l d)) = drive_sec view d"
    using disk_read_ok by (simp add: drive_ops_def)
  show "drive_ok view d \<Longrightarrow> fst (fl (drive_ops io) d) = Some () \<and>
      drive_ok view (snd (fl (drive_ops io) d)) \<and>
      drive_sec view (snd (fl (drive_ops io) d)) = drive_sec view d"
    using disk_flush_ok by (simp add: drive_ops_def)
  show "drive_ok view d \<Longrightarrow> length (drive_sec view d l) = 512"
    by (simp add: drive_ok_def drive_sec_def Let_def)
  show "drive_ok view d \<Longrightarrow> length b = 512 \<Longrightarrow> fst (wr (drive_ops io) l b d) = Some () \<and>
      drive_ok view (snd (wr (drive_ops io) l b d)) \<and> drive_sec view (snd (wr (drive_ops io) l b d)) =
        (\<lambda>k. if take_bit 28 k = take_bit 28 l then b else drive_sec view d k)" for b
    using disk_write_ok by (simp add: drive_ops_def)
qed

interpretation m64_sim: sector_disk "drive_ops ata_ports" "drive_sec (\<lambda>v. v)" "drive_ok (\<lambda>v. v)"
  by unfold_locales

section \<open>Properties\<close>

text \<open>C11: On every fault-free ATA drive, \<open>disk_write\<close> of a full sector succeeds, \<open>disk_read\<close>
  of that sector number then returns the data written, and every sector with a different 28-bit
  number reads as before.\<close>

theorem disk_write_read:
  assumes "ata_device io view" and "drive_ok view d" and "length b = 512"
  shows "fst (disk_write io lba b d) = Some () \<and>
    (\<forall>k. fst (disk_read io k (snd (disk_write io lba b d))) =
       (if take_bit 28 k = take_bit 28 lba then Some b else fst (disk_read io k d)))"
  using ata_device.disk_write_ok [OF assms] ata_device.disk_read_ok [OF assms(1)] assms(2) by simp

lemma blank_ok: "drive_ok (\<lambda>v. v) \<lparr>pending_writes = n, world = blank_ata\<rparr>"
  by (simp add: drive_ok_def blank_ata_def POLL_MAX_def)

theorem disk_write_read_witness:
  "fst (disk_read ata_ports 5 (snd (disk_write ata_ports 5 (replicate 512 7)
     \<lparr>pending_writes = 0, world = blank_ata\<rparr>))) = Some (replicate 512 7)"
  using disk_write_read [OF ata_sim.ata_device_axioms blank_ok, of "replicate 512 7" 5 0] by simp

lemma word_bytes_inj: "length xs = length ys \<Longrightarrow> word_bytes xs = word_bytes ys \<Longrightarrow> xs = ys"
proof (induction xs ys rule: list_induct2)
  case (Cons x xs y ys)
  have "x = y" if "ucast x = (ucast y :: u8)" "ucast (drop_bit 8 x) = (ucast (drop_bit 8 y) :: u8)" for x y :: u16
  proof (rule bit_word_eqI)
    fix n
    assume n: "n < LENGTH(16)"
    from that have "bit (ucast x :: u8) n = bit (ucast y :: u8) n"
      "bit (ucast (drop_bit 8 x) :: u8) (n - 8) = bit (ucast (drop_bit 8 y) :: u8) (n - 8)" by simp_all
    moreover have "n - 8 < 8" using n by simp
    ultimately show "bit x n = bit y n" using n by (cases "n < 8") (simp_all add: bit_simps)
  qed
  with Cons show ?case by simp
qed simp

text \<open>The addressable sectors whose contents on the medium differ from what the drive returns.\<close>

definition uncommitted :: "('w \<Rightarrow> ata) \<Rightarrow> 'w drive \<Rightarrow> u32 set" where
  "uncommitted view d = {l. take_bit 28 l = l \<and> media (view (world d)) l \<noteq> sectors (view (world d)) l}"

definition bounded_loss :: "('w \<Rightarrow> ata) \<Rightarrow> 'w drive \<Rightarrow> bool" where
  "bounded_loss view d \<longleftrightarrow> unat (pending_writes d) < 128 \<and>
     card (uncommitted view d) \<le> unat (pending_writes d)"

lemma unat_less_128: "unat x < 128 \<longleftrightarrow> x < 128" for x :: u32
  by (simp add: word_less_nat_alt)

lemma bounded_loss_write:
  assumes dev: "ata_device io view" and ok: "drive_ok view d" and b: "length b = 512"
    and bl: "bounded_loss view d"
  shows "bounded_loss view (snd (disk_write io lba b d))"
proof -
  let ?d = "snd (disk_write io lba b d)"
  note w = ata_device.disk_write_ok [OF dev ok b, of lba]
  have p: "unat (pending_writes d + 1) = unat (pending_writes d) + 1"
    using bl unat_add_lem [of "pending_writes d" 1] by (simp add: bounded_loss_def)
  show ?thesis
  proof (cases "pending_writes d + 1 < 128")
    case True
    have "sectors (view (world ?d)) l = sectors (view (world d)) l" if "l \<noteq> take_bit 28 lba" "take_bit 28 l = l" for l
    proof (rule word_bytes_inj)
      from w have "drive_sec view ?d l = drive_sec view d l" using that by auto
      then show "word_bytes (sectors (view (world ?d)) l) = word_bytes (sectors (view (world d)) l)"
        using that by (simp add: drive_sec_def)
      show "length (sectors (view (world ?d)) l) = length (sectors (view (world d)) l)"
        using w ok by (simp add: drive_ok_def Let_def)
    qed
    with w True have "uncommitted view ?d \<subseteq> insert (take_bit 28 lba) (uncommitted view d)"
      by (auto simp: uncommitted_def)
    then have "card (uncommitted view ?d) \<le> card (insert (take_bit 28 lba) (uncommitted view d))"
      by (intro card_mono) simp_all
    also have "\<dots> \<le> Suc (card (uncommitted view d))" by (rule card_insert_le_m1) simp_all
    finally show ?thesis
      using w True p bl by (simp add: bounded_loss_def word_less_nat_alt)
  next
    case False
    have "pending_writes d \<noteq> - 1" using p bl by (auto simp: bounded_loss_def)
    with w False show ?thesis by (auto simp: bounded_loss_def uncommitted_def)
  qed
qed



end
