(* ===== verification/M64_Fat.thy ===== *)
theory M64_Fat
  imports M64_Console M64_Disk
begin

text \<open>
  The FAT32 volume of the Mini64 rescue kernel (\<^verbatim>\<open>src/mini64/kernel.c\<close>, lines 262 to 500 and 524
  to 709): mounting, checking and formatting, the allocation table, the root directory, storing a
  file, the boot-mode file, and the recovery procedure that installs the system.

  The state \<open>mini\<close> has the file-scope variables and the console; disk operations go through a
  \<open>disk_ops\<close> record, which the driver of the theory M64_Disk provides. \<open>None\<close> is the
  return value 0. A data buffer and its size are one list of bytes, shorter than \<open>2 ^ 32 - 512\<close>
  so that the byte counter of the copy loop does not wrap. \<open>sectors_per_cluster\<close> is a divisor in
  \<open>allocate_cluster\<close> and \<open>disk_store_large\<close>; the processor traps when it is zero, and the
  theorems about these operations are for volumes where it is not.
\<close>

section \<open>State\<close>

record 'd mini =
  con :: console
  vol_start :: u32
  reserved :: u32
  fat_sectors :: u32
  data_start :: u32
  root_cluster :: u32
  next_free_cluster :: u32
  sectors_per_cluster :: u8
  fat_count :: u8
  fat_mounted :: bool
  disk :: 'd

definition HOME_START :: u32 where "HOME_START = 2048"
definition HOME_SECTORS :: u32 where "HOME_SECTORS = 129024"

text \<open>The disk operations and the console on the whole state.\<close>

definition rdS :: "'d disk_ops \<Rightarrow> u32 \<Rightarrow> 'd mini \<Rightarrow> bytes option \<times> 'd mini" where
  "rdS ops l st = (fst (rd ops l (disk st)), st\<lparr>disk := snd (rd ops l (disk st))\<rparr>)"

definition wrS :: "'d disk_ops \<Rightarrow> u32 \<Rightarrow> bytes \<Rightarrow> 'd mini \<Rightarrow> unit option \<times> 'd mini" where
  "wrS ops l b st = (fst (wr ops l b (disk st)), st\<lparr>disk := snd (wr ops l b (disk st))\<rparr>)"

definition flS :: "'d disk_ops \<Rightarrow> 'd mini \<Rightarrow> unit option \<times> 'd mini" where
  "flS ops st = (fst (fl ops (disk st)), st\<lparr>disk := snd (fl ops (disk st))\<rparr>)"

definition say :: "string \<Rightarrow> 'd mini \<Rightarrow> 'd mini" where
  "say s st = st\<lparr>con := puts s (con st)\<rparr>"

definition say_num :: "u32 \<Rightarrow> 'd mini \<Rightarrow> 'd mini" where
  "say_num n st = st\<lparr>con := pnum n (con st)\<rparr>"

text \<open>\<open>while (pbar < want) { putc('#'); pbar++; }\<close>; the bar afterwards is the maximum.\<close>

definition bar :: "nat \<Rightarrow> nat \<Rightarrow> 'd mini \<Rightarrow> 'd mini" where
  "bar pbar want = say (replicate (want - pbar) (CHR ''#''))"

section \<open>The allocation table\<close>

definition cluster_lba :: "u32 \<Rightarrow> 'd mini \<Rightarrow> u32" where
  "cluster_lba c st = vol_start st + data_start st + (c - 2) * ucast (sectors_per_cluster st)"

definition fat_get :: "'d disk_ops \<Rightarrow> u32 \<Rightarrow> 'd mini \<Rightarrow> u32 \<times> 'd mini" where
  "fat_get ops c st =
     (let off = c * 4; (r, st1) = rdS ops (vol_start st + reserved st + off div 512) st
      in case r of None \<Rightarrow> (0x0FFFFFFF, st1)
         | Some b \<Rightarrow> (r32 b (unat (off mod 512)) AND 0x0FFFFFFF, st1))"

text \<open>The loop over the copies of the table, \<open>fs\<close> the numbers of the copies still to do.\<close>

fun set_copies :: "'d disk_ops \<Rightarrow> u32 \<Rightarrow> u32 \<Rightarrow> nat list \<Rightarrow> 'd mini \<Rightarrow> unit option \<times> 'd mini" where
  "set_copies ops off v [] st = (Some (), st)"
| "set_copies ops off v (f # fs) st =
     (let lba = vol_start st + reserved st + of_nat f * fat_sectors st + off div 512
      in check (rdS ops lba) (\<lambda>b.
           check (wrS ops lba (w32 b (unat (off mod 512)) v)) (\<lambda>_.
             set_copies ops off v fs)) st)"

definition fat_set :: "'d disk_ops \<Rightarrow> u32 \<Rightarrow> u32 \<Rightarrow> 'd mini \<Rightarrow> unit option \<times> 'd mini" where
  "fat_set ops c v st = set_copies ops (c * 4) v [0..<unat (fat_count st)] st"

section \<open>Mounting and checking\<close>

definition has_signature :: "bytes \<Rightarrow> bool" where
  "has_signature b \<longleftrightarrow> b ! 510 = 0x55 \<and> b ! 511 = 0xAA"

definition fat_init :: "'d disk_ops \<Rightarrow> 'd mini \<Rightarrow> unit option \<times> 'd mini" where
  "fat_init ops = check (rdS ops 0) (\<lambda>b st.
     if \<not> has_signature b then (None, st)
     else if b ! 450 \<noteq> 0x0C \<and> b ! 450 \<noteq> 0x0B then (None, st)
     else check (rdS ops (r32 b 454)) (\<lambda>b st.
       if \<not> has_signature b then (None, st)
       else if r16 b 11 \<noteq> 512 \<or> r32 b 82 \<noteq> 0x33544146 then (None, st)
       else let st1 = st\<lparr>sectors_per_cluster := b ! 13, reserved := r16 b 14, fat_count := b ! 16,
                        fat_sectors := r32 b 36, root_cluster := r32 b 44,
                        data_start := r16 b 14 + ucast (b ! 16) * r32 b 36, next_free_cluster := 3\<rparr>;
                (r, st2) = rdS ops (vol_start st1 + 1) st1;
                st3 = (case r of None \<Rightarrow> st2 | Some b \<Rightarrow>
                   if r32 b 492 \<ge> 3 then st2\<lparr>next_free_cluster := r32 b 492\<rparr> else st2)
            in flS ops (st3\<lparr>fat_mounted := True\<rparr>))
       (st\<lparr>vol_start := r32 b 454\<rparr>))"

definition fat_check :: "'d disk_ops \<Rightarrow> 'd mini \<Rightarrow> unit option \<times> 'd mini" where
  "fat_check ops = check (fat_init ops) (\<lambda>_ st.
     check (rdS ops (vol_start st + 1)) (\<lambda>b st.
       if r32 b 0 \<noteq> 0x41615252 \<or> r32 b 484 \<noteq> 0x61417272 \<or> r32 b 508 \<noteq> 0xAA550000 then (None, st)
       else let (root, st1) = fat_get ops (root_cluster st) st
            in (if root \<noteq> 0 \<and> root \<noteq> 0x0FFFFFF7 then Some () else None, st1)) st)"

section \<open>Formatting\<close>

abbreviation zeros :: "nat \<Rightarrow> bytes" where "zeros n \<equiv> replicate n 0"

definition sig55 :: "bytes \<Rightarrow> bytes" where
  "sig55 b = b[510 := 0x55, 511 := 0xAA]"

definition mbr_sector :: bytes where
  "mbr_sector =
     sig55 (w32 (w32 ((w32 (w32 ((zeros 512)[446 + 4 := 0x0C])
       (446 + 8) HOME_START) (446 + 12) HOME_SECTORS)[462 + 4 := 0x7F])
       (462 + 8) (HOME_START + HOME_SECTORS)) (462 + 12) 131072)"

definition bpb_sector :: bytes where
  "bpb_sector =
     sig55 (put (put (w32 ((w16 (w16 (w32 (w32 (w32 (w32 (w16 (w16 ((w16 ((w16
       (put ((zeros 512)[0 := 0xEB, 1 := 0x58, 2 := 0x90]) 3 (map ord ''OS64FAT ''))
       11 512)[13 := 1]) 14 32)[16 := 2, 21 := 0xF8]) 24 63) 26 16)
       28 HOME_START) 32 HOME_SECTORS) 36 993) 44 2) 48 1) 50 6)[64 := 0x80, 66 := 0x29])
       67 0x64060001) 71 (map ord ''OS64 HOME  '')) 82 (map ord ''FAT32   ''))"

definition fsinfo_sector :: bytes where
  "fsinfo_sector = w32 (w32 (w32 (w32 (w32 (zeros 512) 0 0x41615252) 484 0x61417272) 488 126997)
     492 3) 508 0xAA550000"

definition fat_first_sector :: bytes where
  "fat_first_sector = w32 (w32 (w32 (zeros 512) 0 0x0FFFFFF8) 4 0xFFFFFFFF) 8 0x0FFFFFFF"

definition label_sector :: bytes where
  "label_sector = (put (zeros 512) 0 (map ord ''OS64 HOME  ''))[11 := 8]"

text \<open>The loops that write both tables: the pairs of table and sector number still to do.\<close>

fun format_tables :: "'d disk_ops \<Rightarrow> nat \<Rightarrow> (nat \<times> nat) list \<Rightarrow> 'd mini \<Rightarrow> unit option \<times> 'd mini" where
  "format_tables ops pbar [] st = (Some (), st)"
| "format_tables ops pbar ((f, s) # fss) st =
     check (wrS ops (HOME_START + 32 + of_nat f * 993 + of_nat s)
              (if s = 0 then fat_first_sector else zeros 512)) (\<lambda>_ st.
       let want = (f * 993 + s + 1) * 40 div (2 * 993)
       in format_tables ops (max pbar want) fss (bar pbar want st)) st"

definition fat_format :: "'d disk_ops \<Rightarrow> 'd mini \<Rightarrow> unit option \<times> 'd mini" where
  "fat_format ops =
     check (wrS ops 0 mbr_sector) (\<lambda>_.
     check (wrS ops HOME_START bpb_sector) (\<lambda>_.
     check (wrS ops (HOME_START + 6) bpb_sector) (\<lambda>_.
     check (wrS ops (HOME_START + 1) fsinfo_sector) (\<lambda>_.
     check (wrS ops (HOME_START + 7) fsinfo_sector) (\<lambda>_ st.
     check (format_tables ops 0 (List.product [0, 1] [0..<993])) (\<lambda>_ st.
     check (\<lambda>st. wrS ops (cluster_lba 2 st) label_sector st) (\<lambda>_ st.
       flS ops (st\<lparr>vol_start := HOME_START, reserved := 32, fat_count := 2, fat_sectors := 993,
         sectors_per_cluster := 1, root_cluster := 2, data_start := 2018, next_free_cluster := 3,
         fat_mounted := True\<rparr>))
      (say ''100%\<newline>'' (say '']'' st))) (say ''['' st))))))"

section \<open>The root directory\<close>

definition upper83 :: "char \<Rightarrow> u8" where
  "upper83 c = (if between (CHR ''a'') (CHR ''z'') c then ord c - 32 else ord c)"

definition name83 :: "string \<Rightarrow> bytes \<Rightarrow> bytes" where
  "name83 n out =
     (let base = take 8 (takeWhile (\<lambda>c. c \<noteq> CHR ''.'' \<and> c \<noteq> CHR ''/'') n);
          rest = dropWhile (\<lambda>c. c \<noteq> CHR ''.'') (drop (length base) n)
      in put (put (put out 0 (replicate 11 32)) 0 (map upper83 base)) 8 (map upper83 (take 3 (tl rest))))"

text \<open>The first used slot of the root directory sector with the given name.\<close>

definition slot_of :: "bytes \<Rightarrow> bytes \<Rightarrow> nat option" where
  "slot_of key root = List.find (\<lambda>i. root ! (i * 32) \<noteq> 0 \<and> root ! (i * 32) \<noteq> 0xE5 \<and>
     take 11 (drop (i * 32) root) = key) [0..<16]"

definition find_entry :: "'d disk_ops \<Rightarrow> string \<Rightarrow> 'd mini \<Rightarrow> (bytes \<times> nat) option \<times> 'd mini" where
  "find_entry ops name st = check (rdS ops (cluster_lba (root_cluster st) st)) (\<lambda>root st.
     (map_option (Pair root) (slot_of (name83 name (zeros 11)) root), st)) st"

section \<open>Allocating clusters and storing files\<close>

text \<open>
  The body of both search loops of \<open>allocate_cluster\<close>, with \<open>n\<close> clusters from \<open>c\<close> left:
  \<open>Some 0\<close> is the early return when clearing the cluster fails, \<open>None\<close> the end of the loop.
\<close>

fun scan_free :: "'d disk_ops \<Rightarrow> nat \<Rightarrow> u32 \<Rightarrow> 'd mini \<Rightarrow> u32 option \<times> 'd mini" where
  "scan_free ops 0 c st = (None, st)"
| "scan_free ops (Suc n) c st =
     (let (v, st1) = fat_get ops c st
      in if v = 0 then
           let st2 = snd (fat_set ops c 0x0FFFFFFF st1);
               (r, st3) = wrS ops (cluster_lba c st2) (zeros 512) st2
           in case r of None \<Rightarrow> (Some 0, st3)
              | Some _ \<Rightarrow> (Some c, st3\<lparr>next_free_cluster := c + 1\<rparr>)
         else scan_free ops n (c + 1) st1)"

definition max_cluster :: "'d mini \<Rightarrow> u32" where
  "max_cluster st = (HOME_SECTORS - data_start st) div ucast (sectors_per_cluster st) + 2"

definition allocate_cluster :: "'d disk_ops \<Rightarrow> 'd mini \<Rightarrow> u32 \<times> 'd mini" where
  "allocate_cluster ops st =
     (let max = max_cluster st;
          st1 = (if next_free_cluster st < 3 \<or> next_free_cluster st \<ge> max
                 then st\<lparr>next_free_cluster := 3\<rparr> else st);
          start = next_free_cluster st1;
          (r, st2) = scan_free ops (unat max - unat start) start st1
      in case r of Some c \<Rightarrow> (c, st2)
         | None \<Rightarrow> (let (r, st3) = scan_free ops (unat start - 3) 3 st2
                    in (case r of Some c \<Rightarrow> c | None \<Rightarrow> 0, st3)))"

text \<open>The loop that frees the clusters of an old file, with the number of rounds left.\<close>

fun free_chain :: "'d disk_ops \<Rightarrow> u32 \<Rightarrow> nat \<Rightarrow> u32 \<Rightarrow> 'd mini \<Rightarrow> unit option \<times> 'd mini" where
  "free_chain ops limit 0 c st = (Some (), st)"
| "free_chain ops limit (Suc n) c st =
     (if c \<ge> 2 \<and> c < limit then
        let (nxt, st1) = fat_get ops c st
        in check (fat_set ops c 0) (\<lambda>_ st.
             if nxt \<ge> 0x0FFFFFF8 \<or> nxt < 2 then (Some (), st)
             else free_chain ops limit n nxt st) st1
      else (Some (), st))"

definition entry_cluster :: "bytes \<Rightarrow> nat \<Rightarrow> u32" where
  "entry_cluster root slot = r16 root (slot * 32 + 26) OR push_bit 16 (r16 root (slot * 32 + 20))"

text \<open>The part of \<open>disk_store_large\<close> that removes an existing file of that name.\<close>

definition remove_old :: "'d disk_ops \<Rightarrow> string \<Rightarrow> 'd mini \<Rightarrow> unit option \<times> 'd mini" where
  "remove_old ops name st =
     (let (r, st1) = find_entry ops name st
      in case r of None \<Rightarrow> (Some (), st1)
         | Some (root, slot) \<Rightarrow>
           check (free_chain ops (max_cluster st1) (unat (max_cluster st1)) (entry_cluster root slot))
             (\<lambda>_ st. wrS ops (cluster_lba (root_cluster st) st) (root[slot * 32 := 0xE5]) st) st1)"

fun chunks :: "bytes \<Rightarrow> bytes list" where
  "chunks [] = []"
| "chunks (x # xs) = take 512 (x # xs) # chunks (drop 511 xs)"

text \<open>The copy loop: the blocks still to write, the cluster for the next one, the blocks written
  and the length of the progress bar so far.\<close>

fun store_chunks ::
  "'d disk_ops \<Rightarrow> nat \<Rightarrow> bytes list \<Rightarrow> u32 \<Rightarrow> nat \<Rightarrow> nat \<Rightarrow> 'd mini \<Rightarrow> nat option \<times> 'd mini" where
  "store_chunks ops tot [] tail n pbar st = (Some pbar, st)"
| "store_chunks ops tot (ck # cks) tail n pbar st =
     check (wrS ops (cluster_lba tail st) (put (zeros 512) 0 ck)) (\<lambda>_ st.
       let want = (n + 1) * 40 div tot;
           st1 = bar pbar want st;
           pbar' = max pbar want
       in if cks = [] then (Some pbar', st1)
          else let (nxt, st2) = allocate_cluster ops st1
               in if nxt = 0 then (None, st2)
                  else store_chunks ops tot cks nxt (n + 1) pbar' (snd (fat_set ops tail nxt st2))) st"

definition dir_entry :: "string \<Rightarrow> u32 \<Rightarrow> u32 \<Rightarrow> bytes" where
  "dir_entry name sz clus =
     w16 (w16 (w32 ((name83 name (zeros 32))[11 := 0x20]) 28 sz) 20 (drop_bit 16 clus)) 26 clus"

definition free_slot :: "bytes \<Rightarrow> nat option" where
  "free_slot root = List.find (\<lambda>i. root ! (i * 32) = 0 \<or> root ! (i * 32) = 0xE5) [0..<16]"

text \<open>The part of \<open>disk_store_large\<close> after the removal: find a free slot, write the data, enter it.\<close>

definition store_new :: "'d disk_ops \<Rightarrow> string \<Rightarrow> bytes \<Rightarrow> 'd mini \<Rightarrow> unit option \<times> 'd mini" where
  "store_new ops name data st =
     check (rdS ops (cluster_lba (root_cluster st) st)) (\<lambda>root st.
       case free_slot root of None \<Rightarrow> (None, st)
       | Some slot \<Rightarrow>
         let (clus, st1) = allocate_cluster ops st
         in if clus = 0 then (None, st1)
            else check (store_chunks ops (length (chunks data)) (chunks data) clus 0 0) (\<lambda>pbar st.
              let st2 = say ''%\<newline>'' (say_num 100 (say '']'' (bar pbar 40 st)))
              in check (wrS ops (cluster_lba (root_cluster st2) st2)
                          (put root (slot * 32) (dir_entry name (of_nat (length data)) clus)))
                   (\<lambda>_. flS ops) st2) (say ''['' st1)) st"

definition disk_store_large :: "'d disk_ops \<Rightarrow> string \<Rightarrow> bytes \<Rightarrow> 'd mini \<Rightarrow> unit option \<times> 'd mini" where
  "disk_store_large ops name data =
     check (remove_old ops name) (\<lambda>_. store_new ops name data)"

section \<open>Directory listing, boot mode and deletion\<close>

definition entry_name :: "bytes \<Rightarrow> string" where
  "entry_name e = map chr (takeWhile (\<lambda>b. b \<noteq> 32) (take 8 e) @
     (if e ! 8 \<noteq> 32 then ord (CHR ''.'') # takeWhile (\<lambda>b. b \<noteq> 32) (take 3 (drop 8 e)) else []))"

definition list_entry :: "bytes \<Rightarrow> 'd mini \<Rightarrow> 'd mini" where
  "list_entry e st =
     (let st1 = say '' '' (say (cstr (entry_name e))
            (say (if bit (e ! 11) 4 then ''[DIR] '' else ''[FIL] '') (say ''  '' st)));
          st2 = (if bit (e ! 11) 4 then st1 else say '' bytes'' (say_num (r32 e 28) st1))
      in say ''\<newline>'' st2)"

definition list_dir :: "'d disk_ops \<Rightarrow> 'd mini \<Rightarrow> 'd mini" where
  "list_dir ops st =
     (let (r, st1) = rdS ops (cluster_lba (root_cluster st) st) st
      in case r of None \<Rightarrow> say ''  Cannot read root.\<newline>'' st1
         | Some root \<Rightarrow>
           let es = filter (\<lambda>e. \<not> (e ! 0 = 0 \<or> e ! 0 = 0xE5 \<or> bit (e ! 11) 3))
                      (map (\<lambda>i. take 32 (drop (i * 32) root)) [0..<16])
           in if es = [] then say ''  (empty)\<newline>'' st1 else fold list_entry es st1)"

text \<open>
  \<open>read_bootmode\<close> reads whole sectors into the caller's array of \<open>mx\<close> characters. A store
  outside the array is the outcome \<open>Overrun\<close>; \<open>None\<close> is the return value 0. The loop has
  \<open>n\<close> sectors left to reach the file size.
\<close>

datatype 'a outcome = Ret 'a | Overrun

fun bootmode_sectors ::
  "'d disk_ops \<Rightarrow> nat \<Rightarrow> nat \<Rightarrow> nat \<Rightarrow> u32 \<Rightarrow> bytes \<Rightarrow> 'd mini \<Rightarrow> (bytes \<times> nat) outcome option \<times> 'd mini" where
  "bootmode_sectors ops mx 0 pos cluster buf st = (Some (Ret (buf, pos)), st)"
| "bootmode_sectors ops mx (Suc n) pos cluster buf st =
     check (rdS ops (cluster_lba cluster st)) (\<lambda>b st.
       if pos + 512 > mx then (Some Overrun, st)
       else if n = 0 then (Some (Ret (put buf pos b, pos + 512)), st)
       else let (nxt, st1) = fat_get ops cluster st
            in if nxt \<ge> 0x0FFFFFF8 then (Some (Ret (put buf pos b, pos + 512)), st1)
               else bootmode_sectors ops mx n (pos + 512) nxt (put buf pos b) st1) st"

definition bootmode_value :: "nat \<Rightarrow> string \<Rightarrow> string" where
  "bootmode_value mx s =
     (let p = ''set os64_bootmode='' in
      if take (length p) s = p
      then take (mx - 1) (takeWhile (\<lambda>c. c \<noteq> CHR 0x0D \<and> c \<noteq> CHR ''\<newline>'') (drop (length p) s))
      else s)"

definition read_bootmode :: "'d disk_ops \<Rightarrow> nat \<Rightarrow> 'd mini \<Rightarrow> string outcome option \<times> 'd mini" where
  "read_bootmode ops mx =
     check (find_entry ops ''BOOTMODE.CFG'') (\<lambda>(root, slot).
       let sz = min (unat (r32 root (slot * 32 + 28))) (mx - 1)
       in check (bootmode_sectors ops mx ((sz + 511) div 512) 0 (entry_cluster root slot) (zeros mx))
            (\<lambda>r st. (Some (case r of Overrun \<Rightarrow> Overrun
               | Ret (buf, pos) \<Rightarrow> if pos \<ge> mx then Overrun
                   else Ret (bootmode_value mx (cstr (map chr (buf[pos := 0]))))), st)))"

definition delete_root_file :: "'d disk_ops \<Rightarrow> string \<Rightarrow> 'd mini \<Rightarrow> unit option \<times> 'd mini" where
  "delete_root_file ops name =
     check (find_entry ops name) (\<lambda>(root, slot) st.
       check (wrS ops (cluster_lba (root_cluster st) st) (root[slot * 32 := 0xE5])) (\<lambda>_. flS ops) st)"

definition clear_panic_flag :: "'d disk_ops \<Rightarrow> 'd mini \<Rightarrow> unit option \<times> 'd mini" where
  "clear_panic_flag ops = delete_root_file ops ''PANIC.FLG''"

section \<open>Recovery\<close>

text \<open>A boot module: its address and size in the memory \<open>m\<close>.\<close>

type_synonym module = "nat \<times> u32"

definition mem_bytes :: "memory \<Rightarrow> nat \<Rightarrow> nat \<Rightarrow> bytes" where
  "mem_bytes m a n = map m [a..<a + n]"

definition recover_file ::
  "'d disk_ops \<Rightarrow> memory \<Rightarrow> string \<Rightarrow> module \<Rightarrow> 'd mini \<Rightarrow> unit option \<times> 'd mini" where
  "recover_file ops m name md st =
     (let (r, st1) = disk_store_large ops name (mem_bytes m (fst md) (unat (snd md)))
            (say ''... '' (say name (say ''  Writing '' st)))
      in case r of None \<Rightarrow> (None, say ''FAILED.\<newline>'' st1)
         | Some _ \<Rightarrow> (Some (), say '' bytes written.\<newline>'' (say_num (snd md) st1)))"

text \<open>The sectors of the boot loader still to write, from sector \<open>i\<close> on.\<close>

fun boot_sectors ::
  "'d disk_ops \<Rightarrow> memory \<Rightarrow> nat \<Rightarrow> nat \<Rightarrow> nat \<Rightarrow> nat \<Rightarrow> nat \<Rightarrow> 'd mini \<Rightarrow> nat option \<times> 'd mini" where
  "boot_sectors ops m a secs 0 i pbar st = (Some pbar, st)"
| "boot_sectors ops m a secs (Suc n) i pbar st =
     (let (r, st1) = wrS ops (of_nat i) (mem_bytes m (a + i * 512) 512) st
      in case r of None \<Rightarrow> (None, say ''FAILED.\<newline>'' st1)
         | Some _ \<Rightarrow> let want = (i + 1) * 40 div secs
           in boot_sectors ops m a secs n (i + 1) (max pbar want) (bar pbar want st1))"

definition recover_boot ::
  "'d disk_ops \<Rightarrow> memory \<Rightarrow> module \<Rightarrow> 'd mini \<Rightarrow> unit option \<times> 'd mini" where
  "recover_boot ops m md st =
     (let secs = (unat (snd md) + 511) div 512
      in check (boot_sectors ops m (fst md) secs secs 0 0) (\<lambda>pbar st.
           (Some (), say ''100%\<newline>'' (say '']'' (bar pbar 40 st))))
         (say ''['' (say ''  Writing bootloader... '' st)))"

definition when_some :: "'m option \<Rightarrow> ('m \<Rightarrow> 's \<Rightarrow> unit option \<times> 's) \<Rightarrow> 's \<Rightarrow> unit option \<times> 's" where
  "when_some x f st = (case x of None \<Rightarrow> (Some (), st) | Some m \<Rightarrow> f m st)"

definition nonempty :: "module option \<Rightarrow> module option" where
  "nonempty x = (case x of Some (a, n) \<Rightarrow> if n = 0 then None else Some (a, n) | None \<Rightarrow> None)"

text \<open>The part that mounts the volume, formatting it when there is none.\<close>

definition recover_mount :: "'d disk_ops \<Rightarrow> 'd mini \<Rightarrow> unit option \<times> 'd mini" where
  "recover_mount ops st =
     (if fat_mounted st then (Some (), st)
      else let (r, st1) = fat_init ops st
           in case r of Some _ \<Rightarrow> (Some (), say ''  Existing FAT32 partition mounted.\<newline>'' st1)
              | None \<Rightarrow> let (r, st2) = fat_format ops st1
                in case r of None \<Rightarrow> (None, say ''  Failed to format partition.\<newline>'' st2)
                   | Some _ \<Rightarrow> (Some (), say ''  Partition formatted.\<newline>'' st2))"

text \<open>The verification of the names at the end.\<close>

definition recover_verify :: "'d disk_ops \<Rightarrow> bool \<Rightarrow> 'd mini \<Rightarrow> unit option \<times> 'd mini" where
  "recover_verify ops boot st =
     (let (r, st1) = check (find_entry ops ''KERNEL.BIN'') (\<lambda>_. find_entry ops ''INITRD.BIN'') st
      in if r = None then (None, say ''  Installation verification FAILED.\<newline>'' st1)
         else if \<not> boot then (Some (), st1)
         else let (r, st2) = check (find_entry ops ''MINI64.BIN'') (\<lambda>_. find_entry ops ''GRUB.CFG'') st1
              in if r = None then (None, say ''  Boot file verification FAILED.\<newline>'' st2)
                 else (Some (), st2))"

definition do_recover ::
  "'d disk_ops \<Rightarrow> memory \<Rightarrow> module \<Rightarrow> module option \<Rightarrow> module option \<Rightarrow> module option \<Rightarrow>
   module option \<Rightarrow> 'd mini \<Rightarrow> unit option \<times> 'd mini" where
  "do_recover ops m k i bl cfg mm =
     check (recover_mount ops) (\<lambda>_.
     check (recover_file ops m ''KERNEL.BIN'' k) (\<lambda>_.
     check (when_some i (recover_file ops m ''INITRD.BIN'')) (\<lambda>_.
     check (when_some (nonempty mm) (recover_file ops m ''MINI64.BIN'')) (\<lambda>_.
     check (when_some (nonempty cfg) (recover_file ops m ''GRUB.CFG'')) (\<lambda>_.
     check (when_some (nonempty bl) (recover_boot ops m)) (\<lambda>_ st.
       let (r, st1) = flS ops st
       in case r of None \<Rightarrow> (None, say ''  Final disk synchronization FAILED.\<newline>'' st1)
          | Some _ \<Rightarrow> check (recover_verify ops (bl \<noteq> None)) (\<lambda>_ st.
              (Some (), say (''  OS64 recovery complete. Type '' @ [CHR 0x27] @ ''boot'' @ [CHR 0x27] @ '' to restart.\<newline>'') st)) st1))))))"

end
