(* ===== verification/Keyboard_Port.thy ===== *)
theory Keyboard_Port
  imports Ports
begin

text \<open>
  The contract of the keyboard controller behind the ports 0x60 and 0x64: bit 0 of the status port
  says that a scan code is waiting, and reading the data port takes it. The locale
  \<open>kbd_device\<close> states this for the scan codes \<open>codes w\<close> that are still to come, the first of
  them after \<open>delay w\<close> status reads; \<open>kbd_ports\<close> is a keyboard that has it, next to an ATA
  drive on the other ports.
\<close>

locale kbd_device =
  fixes io :: "'w ports" and codes :: "'w \<Rightarrow> u8 list" and delay :: "'w \<Rightarrow> nat"
  assumes status_wait: "\<lbrakk>codes w \<noteq> []; delay w = Suc n\<rbrakk> \<Longrightarrow>
      \<not> bit (fst (inb io 0x64 w)) 0 \<and> codes (snd (inb io 0x64 w)) = codes w \<and> delay (snd (inb io 0x64 w)) = n"
    and status_full: "\<lbrakk>codes w \<noteq> []; delay w = 0\<rbrakk> \<Longrightarrow>
      bit (fst (inb io 0x64 w)) 0 \<and> codes (snd (inb io 0x64 w)) = codes w \<and> delay (snd (inb io 0x64 w)) = 0"
    and data_take: "\<lbrakk>codes w = c # cs; delay w = 0\<rbrakk> \<Longrightarrow>
      fst (inb io 0x60 w) = c \<and> codes (snd (inb io 0x60 w)) = cs"

section \<open>A machine with a drive and a keyboard\<close>

record machine =
  m_ata :: ata
  m_keys :: "u8 list"
  m_wait :: nat

definition kbd_ports :: "machine ports" where
  "kbd_ports = \<lparr>
     inb = (\<lambda>p w. if p = 0x64
        then (case m_wait w of Suc n \<Rightarrow> (0, w\<lparr>m_wait := n\<rparr>) | 0 \<Rightarrow> (if m_keys w = [] then 0 else 1, w))
        else if p = 0x60 then (case m_keys w of [] \<Rightarrow> (0, w) | c # cs \<Rightarrow> (c, w\<lparr>m_keys := cs, m_wait := 2\<rparr>))
        else (fst (inb ata_ports p (m_ata w)), w\<lparr>m_ata := snd (inb ata_ports p (m_ata w))\<rparr>)),
     outb = (\<lambda>p x w. w\<lparr>m_ata := outb ata_ports p x (m_ata w)\<rparr>),
     inw = (\<lambda>p w. (fst (inw ata_ports p (m_ata w)), w\<lparr>m_ata := snd (inw ata_ports p (m_ata w))\<rparr>)),
     outw = (\<lambda>p x w. w\<lparr>m_ata := outw ata_ports p x (m_ata w)\<rparr>)\<rparr>"

interpretation kbd_sim: kbd_device kbd_ports m_keys m_wait
  by unfold_locales (auto simp: kbd_ports_def split: nat.split)

definition demo_machine :: "u8 list \<Rightarrow> machine" where
  "demo_machine ks = \<lparr>m_ata = blank_ata, m_keys = ks, m_wait = 1\<rparr>"

end
