(* ===== verification/M64_Input.thy ===== *)
theory M64_Input
  imports M64_Fat Keyboard_Port
begin

text \<open>
  The keyboard and the line editor of Mini64 (\<^verbatim>\<open>src/mini64/kernel.c\<close>, \<open>kbd_get\<close>,
  \<open>hist_add\<close> and \<open>readline\<close>).

  Character arrays are lists of the declared length. A load or a store outside an array is the
  value \<open>None\<close> of the key handlers, which \<open>readline\<close> turns into the outcome \<open>Overrun\<close>.
  A key handler returns the new editor state and the characters it prints. The \<open>int\<close> variables
  \<open>pos\<close>, \<open>len\<close> and \<open>hist_count\<close>, which the source decrements only when positive, are natural
  numbers; \<open>h\<close>, which starts at -1, is an integer. \<open>readline\<close> waits for keys without bound and
  is a partial function.
\<close>

section \<open>The keyboard\<close>

record kbd =
  left_shift :: bool
  right_shift :: bool
  caps_lock :: bool

definition kbd_map :: string where
  "kbd_map = [NUL, NUL] @ ''1234567890-='' @ [NUL, NUL] @ ''qwertyuiop[]'' @ [NUL, NUL] @
     ''asdfghjkl;'' @ [CHR 0x27, CHR 0x60, NUL, CHR 0x5C] @ ''zxcvbnm,./'' @ [NUL, CHR ''*'', NUL, CHR '' '']"

definition plain_keys :: string where
  "plain_keys = ''1234567890-=[]'' @ [CHR 0x5C, CHR '';'', CHR 0x27] @ '',./'' @ [CHR 0x60]"

definition upper_keys :: string where
  "upper_keys = ''!@#$%^&*()_+{}|:'' @ [CHR 0x22] @ ''<>?~''"

definition shifted :: "kbd \<Rightarrow> char \<Rightarrow> char" where
  "shifted k c =
     (let shift = left_shift k \<or> right_shift k in
      if between (CHR ''a'') (CHR ''z'') c then if shift \<noteq> caps_lock k then chr (ord c - 32) else c
      else if shift then case map_of (zip plain_keys upper_keys) c of Some d \<Rightarrow> d | None \<Rightarrow> c
      else c)"

text \<open>One scan code: \<open>None\<close> to continue with the next code, \<open>Some c\<close> to return \<open>c\<close>.\<close>

definition kbd_scan :: "u8 \<Rightarrow> kbd \<Rightarrow> char option \<times> kbd" where
  "kbd_scan sc k =
     (if sc = 0xAA then (None, k\<lparr>left_shift := False\<rparr>)
      else if sc = 0xB6 then (None, k\<lparr>right_shift := False\<rparr>)
      else if bit sc 7 then (None, k)
      else if sc = 0x2A then (None, k\<lparr>left_shift := True\<rparr>)
      else if sc = 0x36 then (None, k\<lparr>right_shift := True\<rparr>)
      else if sc = 0x3A then (None, k\<lparr>caps_lock := \<not> caps_lock k\<rparr>)
      else if unat sc < length kbd_map \<and> kbd_map ! unat sc \<noteq> NUL then (Some (shifted k (kbd_map ! unat sc)), k)
      else (Some (if sc = 0x1C then CHR ''\<newline>''
        else if sc = 0x0E then CHR 0x08
        else if sc = 0x48 then CHR 0x1B
        else if sc = 0x50 then CHR 0x1A
        else if sc = 0x4B then CHR 0x03
        else if sc = 0x4D then CHR 0x04
        else if sc = 0x47 then CHR 0x01
        else if sc = 0x4F then CHR 0x02
        else if sc = 0x53 then CHR 0x7F
        else if sc = 0x0F then CHR 0x09
        else NUL), k))"

partial_function (option) kbd_get :: "'w ports \<Rightarrow> kbd \<Rightarrow> 'w \<Rightarrow> (char \<times> kbd \<times> 'w) option" where
  "kbd_get io k w =
     (let (st, w1) = inb io 0x64 w in
      if \<not> bit st 0 then kbd_get io k w1
      else let (sc, w2) = inb io 0x60 w1; (r, k') = kbd_scan sc k
           in case r of None \<Rightarrow> kbd_get io k' w2 | Some c \<Rightarrow> Some (c, k', w2))"

section \<open>The history\<close>

definition HIST_MAX :: nat where "HIST_MAX = 8"

record hist =
  history :: "char list list"
  hist_count :: nat

text \<open>\<open>rows\<close> shifted down by one up to row \<open>n\<close>, from the last row on.\<close>

fun shift_rows :: "nat \<Rightarrow> char list list \<Rightarrow> char list list" where
  "shift_rows 0 rows = rows"
| "shift_rows (Suc i) rows = shift_rows i (rows[Suc i := rows ! i])"

definition hist_add :: "string \<Rightarrow> hist \<Rightarrow> hist" where
  "hist_add line H =
     (if line = [] then H
      else if hist_count H \<noteq> 0 \<and> streq (cstr (history H ! (hist_count H - 1))) line then H
      else let n = (if hist_count H < HIST_MAX then hist_count H + 1 else hist_count H);
               rows = shift_rows (n - 1) (history H)
           in \<lparr>history = rows[0 := (put (rows ! 0) 0 (take 128 line))[127 := NUL]], hist_count = n\<rparr>)"

section \<open>The line editor\<close>

definition cmd_list :: "string list" where
  "cmd_list = [''boot'', ''reboot'', ''halt'', ''install'', ''recover'', ''recover-with-bl'', ''bootmode'',
     ''status'', ''uname'', ''version'', ''meminfo'', ''modules'', ''diskinfo'',
     ''chkfs'', ''mount'', ''umount'', ''sync'', ''ls'', ''hexdump'', ''format'',
     ''history'', ''echo'', ''clear'', ''help'']"

record edit =
  buf :: "char list"
  pos :: nat
  len :: nat
  h :: int
  saved :: "char list"

abbreviation BS :: char where "BS \<equiv> CHR 0x08"

text \<open>\<open>for (i = p; i < n; i++) putc(buf[i])\<close>.\<close>

definition chars :: "nat \<Rightarrow> nat \<Rightarrow> char list \<Rightarrow> string" where
  "chars p n b = map ((!) b) [p..<n]"

definition key_backspace :: "edit \<Rightarrow> (edit \<times> string) option" where
  "key_backspace e =
     (if pos e \<noteq> 0 then
        let p = pos e - 1; n = len e - 1 in
        Option.bind (shift_left p (len e) (buf e)) (\<lambda>b.
        Option.bind (store n NUL b) (\<lambda>b.
          Some (e\<lparr>buf := b, pos := p, len := n\<rparr>, [BS] @ chars p n b @ '' '' @ replicate (n - p) BS)))
      else Some (e, []))"

definition key_delete :: "edit \<Rightarrow> (edit \<times> string) option" where
  "key_delete e =
     (if pos e < len e then
        let p = pos e; n = len e - 1 in
        Option.bind (shift_left p (len e) (buf e)) (\<lambda>b.
        Option.bind (store n NUL b) (\<lambda>b.
          Some (e\<lparr>buf := b, len := n\<rparr>, chars p n b @ '' '' @ replicate (n + 1 - p) BS)))
      else Some (e, []))"

definition key_home :: "edit \<Rightarrow> (edit \<times> string) option" where
  "key_home e = Some (e\<lparr>pos := 0\<rparr>, replicate (pos e) BS)"

definition key_end :: "edit \<Rightarrow> (edit \<times> string) option" where
  "key_end e =
     (if len e \<le> length (buf e) then Some (e\<lparr>pos := max (pos e) (len e)\<rparr>, chars (pos e) (len e) (buf e))
      else None)"

definition key_left :: "edit \<Rightarrow> (edit \<times> string) option" where
  "key_left e = Some (if pos e > 0 then (e\<lparr>pos := pos e - 1\<rparr>, [BS]) else (e, []))"

definition key_right :: "edit \<Rightarrow> (edit \<times> string) option" where
  "key_right e =
     (if pos e < len e then
        if pos e < length (buf e) then Some (e\<lparr>pos := pos e + 1\<rparr>, [buf e ! pos e]) else None
      else Some (e, []))"

text \<open>The number of leading characters a command shares with the buffer; \<open>None\<close> when the buffer
  ends before a difference or a NUL is found.\<close>

fun common :: "string \<Rightarrow> char list \<Rightarrow> nat option" where
  "common cmd [] = None"
| "common [] (b # bs) = Some 0"
| "common (c # cs) (b # bs) = (if b \<noteq> NUL \<and> c = b then map_option Suc (common cs bs) else Some 0)"

fun tab_matches :: "char list \<Rightarrow> string list \<Rightarrow> (string \<times> nat) list option" where
  "tab_matches b [] = Some []"
| "tab_matches b (cmd # cmds) =
     Option.bind (common cmd b) (\<lambda>j.
       map_option (\<lambda>ms. if b ! j = NUL \<or> j = length cmd then (cmd, j) # ms else ms) (tab_matches b cmds))"

text \<open>Insertion of one character at the cursor, as the completion and the printable keys do it.\<close>

definition insert_char :: "char \<Rightarrow> edit \<Rightarrow> edit option" where
  "insert_char c e =
     Option.bind (shift_right (pos e) (len e) (buf e)) (\<lambda>b.
     Option.bind (store (pos e) c b) (\<lambda>b.
       Some (e\<lparr>buf := b, pos := pos e + 1, len := len e + 1\<rparr>)))"

text \<open>What is printed after an insertion: the character and the text to its right, and back.\<close>

definition echo_insert :: "edit \<Rightarrow> string option" where
  "echo_insert e =
     (if len e \<le> length (buf e)
      then Some ([buf e ! (pos e - 1)] @ chars (pos e) (len e) (buf e) @ replicate (len e - pos e) BS) else None)"

fun complete :: "nat \<Rightarrow> string \<Rightarrow> edit \<Rightarrow> (edit \<times> string) option" where
  "complete mx [] e = Some (e, [])"
| "complete mx (s # ss) e =
     (if pos e + 1 < mx then
        Option.bind (insert_char s e) (\<lambda>e.
        Option.bind (echo_insert e) (\<lambda>out.
          map_option (\<lambda>(e, out'). (e, out @ out')) (complete mx ss e)))
      else Some (e, []))"

definition key_tab :: "nat \<Rightarrow> edit \<Rightarrow> (edit \<times> string) option" where
  "key_tab mx e =
     Option.bind (tab_matches (buf e) cmd_list) (\<lambda>ms.
       case ms of [] \<Rightarrow> Some (e, [])
       | [(cmd, mlen)] \<Rightarrow> complete mx (drop mlen cmd) e
       | _ \<Rightarrow> if len e \<le> length (buf e) then
           Some (e, ''\<newline>'' @ concat (map (\<lambda>(cmd, j). ''  '' @ cmd @ ''\<newline>'') ms) @ ''  Mini64> '' @
             chars 0 (len e) (buf e) @ replicate (len e - pos e) BS)
         else None)"

definition key_print :: "nat \<Rightarrow> char \<Rightarrow> edit \<Rightarrow> (edit \<times> string) option" where
  "key_print mx c e =
     Option.bind (insert_char c e) (\<lambda>e.
     Option.bind (store (len e) NUL (buf e)) (\<lambda>b.
     Option.bind (echo_insert (e\<lparr>buf := b\<rparr>)) (\<lambda>out. Some (e\<lparr>buf := b\<rparr>, out))))"

text \<open>The characters that blank the line, and the copy of a NUL-terminated array into the buffer
  with its terminator.\<close>

definition blank :: "nat \<Rightarrow> string" where
  "blank n = concat (replicate n [BS, CHR '' '', BS])"

definition load_line :: "char list \<Rightarrow> edit \<Rightarrow> (edit \<times> string) option" where
  "load_line ln e =
     (if NUL \<in> set ln \<and> length (cstr ln) < length (buf e) then
        let s = cstr ln in
        Some (e\<lparr>buf := (put (buf e) 0 s)[length s := NUL], pos := length s, len := length s\<rparr>, blank (len e) @ s)
      else None)"

definition save_line :: "edit \<Rightarrow> edit option" where
  "save_line e =
     (if len e \<le> length (buf e) \<and> len e < length (saved e)
      then Some (e\<lparr>saved := (put (saved e) 0 (take (len e) (buf e)))[len e := NUL]\<rparr>) else None)"

definition key_up :: "hist \<Rightarrow> edit \<Rightarrow> (edit \<times> string) option" where
  "key_up H e =
     Option.bind (if h e = -1 then save_line e else Some e) (\<lambda>e.
       if h e + 1 < int (hist_count H)
       then load_line (history H ! nat (h e + 1)) (e\<lparr>h := h e + 1\<rparr>)
       else Some (e, []))"

definition key_down :: "hist \<Rightarrow> edit \<Rightarrow> (edit \<times> string) option" where
  "key_down H e =
     (if h e > 0 then load_line (history H ! nat (h e - 1)) (e\<lparr>h := h e - 1\<rparr>)
      else if h e = 0 then load_line (saved e) (e\<lparr>h := -1\<rparr>)
      else Some (e, []))"

text \<open>The body of the loop of \<open>readline\<close> for a key other than NUL and newline.\<close>

definition line_key :: "nat \<Rightarrow> hist \<Rightarrow> char \<Rightarrow> edit \<Rightarrow> (edit \<times> string) option" where
  "line_key mx H c e =
     (if c = BS then key_backspace e
      else if c = CHR 0x7F then key_delete e
      else if c = CHR 0x01 then key_home e
      else if c = CHR 0x02 then key_end e
      else if c = CHR 0x03 then key_left e
      else if c = CHR 0x04 then key_right e
      else if c = CHR 0x09 then key_tab mx e
      else if between (CHR '' '') (CHR 0x7E) c \<and> len e + 1 < mx then key_print mx c e
      else if c = CHR 0x1B then key_up H e
      else if c = CHR 0x1A then key_down H e
      else Some (e, []))"

record 'w tty =
  tkbd :: kbd
  tworld :: 'w
  tcon :: console

partial_function (option) readline_loop ::
  "'w ports \<Rightarrow> nat \<Rightarrow> hist \<Rightarrow> edit \<Rightarrow> 'w tty \<Rightarrow> ((char list \<times> hist) outcome \<times> 'w tty) option" where
  "readline_loop io mx H e t =
     Option.bind (kbd_get io (tkbd t) (tworld t)) (\<lambda>(c, k, w).
       let t = t\<lparr>tkbd := k, tworld := w\<rparr> in
       if c = NUL then readline_loop io mx H e t
       else if c = CHR ''\<newline>'' then
         (case store (pos e) NUL (buf e) of None \<Rightarrow> Some (Overrun, t)
          | Some b \<Rightarrow> Some (Ret (b, hist_add (cstr b) H), t\<lparr>tcon := putc (CHR ''\<newline>'') (tcon t)\<rparr>))
       else case line_key mx H c e of None \<Rightarrow> Some (Overrun, t)
         | Some (e', out) \<Rightarrow> readline_loop io mx H e' (t\<lparr>tcon := puts out (tcon t)\<rparr>))"

text \<open>\<open>b\<close> is the array passed in, whose length is \<open>max\<close>; \<open>sv\<close> is the uninitialised array
  \<open>saved\<close> of 128 characters.\<close>

definition readline ::
  "'w ports \<Rightarrow> char list \<Rightarrow> char list \<Rightarrow> hist \<Rightarrow> 'w tty \<Rightarrow> ((char list \<times> hist) outcome \<times> 'w tty) option" where
  "readline io b sv H t =
     (case store 0 NUL b of None \<Rightarrow> Some (Overrun, t)
      | Some b' \<Rightarrow> readline_loop io (length b) H
          \<lparr>buf = b', pos = 0, len = 0, h = -1, saved = sv[0 := NUL]\<rparr> t)"

section \<open>The keyboard on its device\<close>

text \<open>The next character the pending scan codes give.\<close>

fun next_char :: "kbd \<Rightarrow> u8 list \<Rightarrow> (char \<times> kbd \<times> u8 list) option" where
  "next_char k [] = None"
| "next_char k (sc # scs) =
     (case kbd_scan sc k of (None, k') \<Rightarrow> next_char k' scs | (Some c, k') \<Rightarrow> Some (c, k', scs))"

text \<open>The scan codes type the characters \<open>cs\<close>; the result is the keyboard state after them and the
  codes left.\<close>

fun typed :: "kbd \<Rightarrow> u8 list \<Rightarrow> char list \<Rightarrow> (kbd \<times> u8 list) option" where
  "typed k scs [] = Some (k, scs)"
| "typed k scs (c # cs) =
     (case next_char k scs of Some (d, k', scs') \<Rightarrow> if d = c then typed k' scs' cs else None | None \<Rightarrow> None)"

context kbd_device
begin

lemma kbd_wait:
  "codes w \<noteq> [] \<Longrightarrow> \<exists>w'. codes w' = codes w \<and> delay w' = 0 \<and> kbd_get io k w = kbd_get io k w'"
proof (induction "delay w" arbitrary: w)
  case (Suc n)
  let ?w1 = "snd (inb io 0x64 w)"
  have s: "\<not> bit (fst (inb io 0x64 w)) 0" "codes ?w1 = codes w" "delay ?w1 = n"
    using status_wait [OF Suc.prems Suc.hyps(2) [symmetric]] by auto
  have "kbd_get io k w = kbd_get io k ?w1"
    using s(1) by (subst kbd_get.simps) (simp add: split_def)
  with Suc.hyps(1) [of ?w1] s Suc.prems show ?case by auto
qed auto

lemma kbd_get_ok:
  "next_char k (codes w) = Some (c, k', cs) \<Longrightarrow> \<exists>w'. kbd_get io k w = Some (c, k', w') \<and> codes w' = cs"
proof (induction "codes w" arbitrary: k w)
  case (Cons sc scs)
  obtain w0 where w0: "codes w0 = sc # scs" "delay w0 = 0" "kbd_get io k w = kbd_get io k w0"
    using kbd_wait [of w k] Cons.hyps(2) by (metis list.distinct(1))
  define w1 where "w1 = snd (inb io 0x64 w0)"
  define w2 where "w2 = snd (inb io 0x60 w1)"
  have b: "bit (fst (inb io 0x64 w0)) 0" "codes w1 = sc # scs" "delay w1 = 0"
    using status_full [of w0] w0 by (auto simp: w1_def)
  have d: "fst (inb io 0x60 w1) = sc" "codes w2 = scs"
    using data_take [OF b(2,3)] by (auto simp: w2_def)
  have g: "kbd_get io k w0 = (case kbd_scan sc k of (None, k') \<Rightarrow> kbd_get io k' w2 | (Some c, k') \<Rightarrow> Some (c, k', w2))"
    using b(1) d(1) by (subst kbd_get.simps)
      (auto simp: split_def w1_def [symmetric] w2_def [symmetric] split: option.split)
  obtain r k1 where r: "kbd_scan sc k = (r, k1)" by (cases "kbd_scan sc k")
  show ?case
  proof (cases r)
    case None
    with r g w0(3) have "kbd_get io k w = kbd_get io k1 w2" by simp
    with Cons.hyps(1) [of w2 k1] Cons.hyps(2) [symmetric] Cons.prems None r d(2) show ?thesis by simp
  next
    case (Some x)
    with r g w0(3) Cons.hyps(2) [symmetric] Cons.prems d(2) show ?thesis by simp
  qed
qed simp

end

section \<open>The editor as a text with a cursor\<close>

text \<open>The text \<open>l\<close> to the left of the cursor and \<open>r\<close> to its right.\<close>

definition line_of :: "edit \<Rightarrow> string \<Rightarrow> string \<Rightarrow> bool" where
  "line_of e l r \<longleftrightarrow> (\<exists>z zs. buf e = l @ r @ z # zs) \<and> pos e = length l \<and> len e = length l + length r \<and>
     NUL \<notin> set l \<and> NUL \<notin> set r"

lemma line_ofE:
  assumes "line_of e l r"
  obtains z zs where "buf e = l @ r @ z # zs" "pos e = length l" "len e = length l + length r"
    "NUL \<notin> set l" "NUL \<notin> set r"
  using assms by (auto simp: line_of_def)

lemma chars_append [simp]: "chars (length l) (length l + length r) (l @ r @ zs) = r"
  by (rule nth_equalityI) (auto simp: chars_def nth_append)

lemma chars_append_all [simp]: "chars 0 (length l + length r) (l @ r @ zs) = l @ r"
  by (rule nth_equalityI) (auto simp: chars_def nth_append)

lemma insert_char_line:
  assumes "buf e = l @ r @ z # zs" and "pos e = length l" and "len e = length l + length r"
  shows "insert_char c e = Some (e\<lparr>buf := (l @ [c]) @ r @ zs, pos := length l + 1, len := length l + length r + 1\<rparr>)"
  unfolding insert_char_def assms shift_right_append by (cases r) simp_all

lemma echo_insert_ok: "len e \<le> length (buf e) \<Longrightarrow> \<exists>out. echo_insert e = Some out"
  by (simp add: echo_insert_def)

text \<open>The keys that edit the line, as operations on the two strings.\<close>

fun zip_key :: "nat \<Rightarrow> char \<Rightarrow> string \<times> string \<Rightarrow> string \<times> string" where
  "zip_key mx c (l, r) =
     (if c = BS then (butlast l, r)
      else if c = CHR 0x7F then (l, tl r)
      else if c = CHR 0x01 then ([], l @ r)
      else if c = CHR 0x02 then (l @ r, [])
      else if c = CHR 0x03 then if l = [] then (l, r) else (butlast l, last l # r)
      else if c = CHR 0x04 then if r = [] then (l, r) else (l @ [hd r], tl r)
      else if between (CHR '' '') (CHR 0x7E) c \<and> length l + length r + 1 < mx then (l @ [c], r)
      else (l, r))"

definition edit_keys :: "char set" where
  "edit_keys = - {CHR 0x09, CHR 0x1A, CHR 0x1B}"

text \<open>The fields that the editing keys do not touch.\<close>

definition same_rest :: "edit \<Rightarrow> edit \<Rightarrow> bool" where
  "same_rest e e' \<longleftrightarrow> length (buf e') = length (buf e) \<and> h e' = h e \<and> saved e' = saved e"

lemma backspace_line:
  assumes "line_of e l r"
  shows "\<exists>e' out. key_backspace e = Some (e', out) \<and> line_of e' (butlast l) r \<and> same_rest e e'"
proof (cases l rule: rev_cases)
  case Nil
  with assms show ?thesis by (auto simp: key_backspace_def line_of_def same_rest_def)
next
  case (snoc k x)
  from assms obtain z zs where e: "buf e = l @ r @ z # zs" "pos e = length l" "len e = length l + length r"
      "NUL \<notin> set l" "NUL \<notin> set r" by (rule line_ofE)
  have "shift_left (length k) (length k + length (r @ [z])) (k @ x # (r @ [z]) @ zs) = Some (k @ (r @ [z]) @ last (x # r @ [z]) # zs)"
    by (rule shift_left_append)
  then have "shift_left (length k) (length k + length r + 1) (buf e) = Some ((k @ r) @ z # z # zs)"
    by (simp add: e snoc)
  moreover have "store (length k + length r) NUL ((k @ r) @ z # z # zs) = Some ((k @ r) @ NUL # z # zs)"
    using store_append [of "k @ r"] by simp
  ultimately show ?thesis
    using e snoc by (auto simp: key_backspace_def line_of_def same_rest_def Let_def)
qed

lemma delete_line:
  assumes "line_of e l r"
  shows "\<exists>e' out. key_delete e = Some (e', out) \<and> line_of e' l (tl r) \<and> same_rest e e'"
proof (cases r)
  case Nil
  with assms show ?thesis by (auto simp: key_delete_def line_of_def same_rest_def)
next
  case (Cons x r')
  from assms obtain z zs where e: "buf e = l @ r @ z # zs" "pos e = length l" "len e = length l + length r"
      "NUL \<notin> set l" "NUL \<notin> set r" by (rule line_ofE)
  have "shift_left (length l) (length l + length (r' @ [z])) (l @ x # (r' @ [z]) @ zs) = Some (l @ (r' @ [z]) @ last (x # r' @ [z]) # zs)"
    by (rule shift_left_append)
  then have "shift_left (length l) (length l + length r' + 1) (buf e) = Some ((l @ r') @ z # z # zs)"
    by (simp add: e Cons)
  moreover have "store (length l + length r') NUL ((l @ r') @ z # z # zs) = Some ((l @ r') @ NUL # z # zs)"
    using store_append [of "l @ r'"] by simp
  ultimately show ?thesis
    using e Cons by (auto simp: key_delete_def line_of_def same_rest_def Let_def)
qed

lemma print_line:
  assumes "line_of e l r" and "c \<noteq> NUL" and "length l + length r + 1 < length (buf e)"
  shows "\<exists>e' out. key_print mx c e = Some (e', out) \<and> line_of e' (l @ [c]) r \<and> same_rest e e'"
proof -
  from assms(1) obtain z zs where e: "buf e = l @ r @ z # zs" "pos e = length l" "len e = length l + length r"
      "NUL \<notin> set l" "NUL \<notin> set r" by (rule line_ofE)
  with assms(3) obtain y ys where zs: "zs = y # ys" by (cases zs) auto
  let ?e1 = "e\<lparr>buf := (l @ [c]) @ r @ zs, pos := length l + 1, len := length l + length r + 1\<rparr>"
  have i: "insert_char c e = Some ?e1" by (rule insert_char_line [OF e(1-3)])
  have s: "store (len ?e1) NUL (buf ?e1) = Some ((l @ [c]) @ r @ NUL # ys)"
    using store_append [of "(l @ [c]) @ r" NUL y ys] by (simp add: zs)
  let ?e2 = "?e1\<lparr>buf := (l @ [c]) @ r @ NUL # ys\<rparr>"
  obtain out where "echo_insert ?e2 = Some out" using echo_insert_ok [of ?e2] by auto
  with i s have "key_print mx c e = Some (?e2, out)" by (simp add: key_print_def)
  moreover have "line_of ?e2 (l @ [c]) r" "same_rest e ?e2"
    using e assms(2) zs by (auto simp: line_of_def same_rest_def)
  ultimately show ?thesis by blast
qed

lemma between_not_NUL: "between (CHR '' '') (CHR 0x7E) c \<Longrightarrow> c \<noteq> NUL"
  by (auto simp: between_def)

lemma move_line:
  assumes "line_of e l r"
  shows "\<exists>e' out. key_home e = Some (e', out) \<and> line_of e' [] (l @ r) \<and> same_rest e e'"
    and "\<exists>e' out. key_end e = Some (e', out) \<and> line_of e' (l @ r) [] \<and> same_rest e e'"
    and "\<exists>e' out. key_left e = Some (e', out) \<and> same_rest e e' \<and>
      line_of e' (fst (if l = [] then (l, r) else (butlast l, last l # r))) (snd (if l = [] then (l, r) else (butlast l, last l # r)))"
    and "\<exists>e' out. key_right e = Some (e', out) \<and> same_rest e e' \<and>
      line_of e' (fst (if r = [] then (l, r) else (l @ [hd r], tl r))) (snd (if r = [] then (l, r) else (l @ [hd r], tl r)))"
proof -
  show "\<exists>e' out. key_home e = Some (e', out) \<and> line_of e' [] (l @ r) \<and> same_rest e e'"
    using assms by (auto simp: key_home_def line_of_def same_rest_def)
  show "\<exists>e' out. key_end e = Some (e', out) \<and> line_of e' (l @ r) [] \<and> same_rest e e'"
    using assms by (auto simp: key_end_def line_of_def same_rest_def)
  show "\<exists>e' out. key_left e = Some (e', out) \<and> same_rest e e' \<and>
      line_of e' (fst (if l = [] then (l, r) else (butlast l, last l # r))) (snd (if l = [] then (l, r) else (butlast l, last l # r)))"
    using assms by (cases l rule: rev_cases) (auto simp: key_left_def line_of_def same_rest_def)
  show "\<exists>e' out. key_right e = Some (e', out) \<and> same_rest e e' \<and>
      line_of e' (fst (if r = [] then (l, r) else (l @ [hd r], tl r))) (snd (if r = [] then (l, r) else (l @ [hd r], tl r)))"
    using assms by (cases r) (auto simp: key_right_def line_of_def same_rest_def)
qed

lemma line_key_zip:
  assumes "line_of e l r" and "c \<in> edit_keys" and "mx \<le> length (buf e)"
  shows "\<exists>e' out. line_key mx H c e = Some (e', out) \<and> same_rest e e' \<and>
    line_of e' (fst (zip_key mx c (l, r))) (snd (zip_key mx c (l, r)))"
proof -
  have ln: "len e = length l + length r" using assms(1) by (simp add: line_of_def)
  have c: "c \<noteq> CHR 0x09" "c \<noteq> CHR 0x1A" "c \<noteq> CHR 0x1B" using assms(2) by (auto simp: edit_keys_def)
  consider "c = BS" | "c = CHR 0x7F" | "c = CHR 0x01" | "c = CHR 0x02" | "c = CHR 0x03" | "c = CHR 0x04"
    | "c \<notin> {BS, CHR 0x7F, CHR 0x01, CHR 0x02, CHR 0x03, CHR 0x04}" by blast
  then show ?thesis
  proof cases
    case 7
    show ?thesis
    proof (cases "between (CHR '' '') (CHR 0x7E) c \<and> length l + length r + 1 < mx")
      case True
      with print_line [OF assms(1) between_not_NUL, of c mx] assms(3) 7 c ln show ?thesis
        by (simp add: line_key_def) blast
    next
      case False
      with 7 c assms(1) ln show ?thesis by (auto simp: line_key_def same_rest_def)
    qed
  next
    case 1
    show ?thesis using backspace_line [OF assms(1)] unfolding 1 line_key_def by (simp add: conj_commute)
  next
    case 2
    show ?thesis using delete_line [OF assms(1)] unfolding 2 line_key_def by (simp add: conj_commute)
  next
    case 3
    show ?thesis using move_line(1) [OF assms(1)] unfolding 3 line_key_def by (simp add: conj_commute)
  next
    case 4
    show ?thesis using move_line(2) [OF assms(1)] unfolding 4 line_key_def by (simp add: conj_commute)
  next
    case 5
    show ?thesis using move_line(3) [OF assms(1)] unfolding 5 line_key_def by simp
  next
    case 6
    show ?thesis using move_line(4) [OF assms(1)] unfolding 6 line_key_def by simp
  qed
qed

section \<open>The history rows\<close>

definition hist_ok :: "hist \<Rightarrow> bool" where
  "hist_ok H \<longleftrightarrow> length (history H) = HIST_MAX \<and> hist_count H \<le> HIST_MAX \<and>
     (\<forall>i < HIST_MAX. length (history H ! i) = 128 \<and> history H ! i ! 127 = NUL)"

lemma length_shift_rows [simp]: "length (shift_rows n rows) = length rows"
  by (induction n rows rule: shift_rows.induct) simp_all

lemma nth_shift_rows:
  "n < length rows \<Longrightarrow> shift_rows n rows ! i = (if 1 \<le> i \<and> i \<le> n then rows ! (i - 1) else rows ! i)"
  by (induction n rows arbitrary: i rule: shift_rows.induct) (auto simp: nth_list_update le_Suc_eq)

lemma NUL_in_row: "length b = 128 \<Longrightarrow> b ! 127 = NUL \<Longrightarrow> NUL \<in> set b"
  using nth_mem [of 127 b] by simp

lemma cstr_put:
  assumes "length ln \<le> 127" and "NUL \<notin> set ln" and "length b = 128" and "b ! 127 = NUL"
  shows "cstr ((put b 0 (take 128 ln))[127 := NUL]) = ln @ cstr (drop (length ln) b)"
proof -
  have "(put b 0 (take 128 ln))[127 := NUL] = ln @ drop (length ln) b"
    using assms by (intro nth_equalityI) (auto simp: put_eq_append nth_append nth_list_update)
  moreover have "cstr (ln @ b') = ln @ cstr b'" for b' using assms(2) by (induction ln) auto
  ultimately show ?thesis by simp
qed

definition new_count :: "hist \<Rightarrow> nat" where
  "new_count H = (if hist_count H < HIST_MAX then hist_count H + 1 else hist_count H)"

definition repeats :: "string \<Rightarrow> hist \<Rightarrow> bool" where
  "repeats ln H \<longleftrightarrow> hist_count H \<noteq> 0 \<and> cstr (history H ! (hist_count H - 1)) = ln"

lemma hist_add_cases:
  "hist_add ln H = (if ln = [] \<or> repeats ln H then H else
     \<lparr>history = (shift_rows (new_count H - 1) (history H))
        [0 := (put (shift_rows (new_count H - 1) (history H) ! 0) 0 (take 128 ln))[127 := NUL]],
      hist_count = new_count H\<rparr>)"
  by (simp add: hist_add_def repeats_def new_count_def Let_def)

lemma hist_add_ok:
  assumes "hist_ok H" and "length ln \<le> 127"
  shows "hist_ok (hist_add ln H)"
proof (cases "ln = [] \<or> repeats ln H")
  case True
  with assms show ?thesis by (simp add: hist_add_cases)
next
  case False
  have H: "length (history H) = 8" "hist_count H \<le> 8"
      "\<And>i. i < 8 \<Longrightarrow> length (history H ! i) = 128 \<and> history H ! i ! 127 = NUL"
    using assms(1) by (auto simp: hist_ok_def HIST_MAX_def)
  have n: "new_count H - 1 < 8" "new_count H \<le> 8" using H(2) by (auto simp: new_count_def HIST_MAX_def)
  have r: "length (shift_rows (new_count H - 1) (history H) ! i) = 128 \<and>
      shift_rows (new_count H - 1) (history H) ! i ! 127 = NUL" if "i < 8" for i
    using that H n by (simp add: nth_shift_rows)
  from False H n r show ?thesis
    by (auto simp: hist_add_cases hist_ok_def HIST_MAX_def nth_list_update)
qed

section \<open>The prompt of 128 characters\<close>

definition prompt_ok :: "hist \<Rightarrow> edit \<Rightarrow> bool" where
  "prompt_ok H e \<longleftrightarrow> (\<exists>l r. line_of e l r) \<and> length (buf e) = 128 \<and> length (saved e) = 128 \<and>
     NUL \<in> set (saved e) \<and> -1 \<le> h e \<and> h e < int (hist_count H)"

lemma prompt_okI [intro]:
  "\<lbrakk>line_of e l r; length (buf e) = 128; length (saved e) = 128; NUL \<in> set (saved e); -1 \<le> h e;
    h e < int (hist_count H)\<rbrakk> \<Longrightarrow> prompt_ok H e"
  unfolding prompt_ok_def by blast

lemma load_line_ok:
  assumes "NUL \<in> set ln" and "length ln \<le> length (buf e)"
  shows "\<exists>e' out. load_line ln e = Some (e', out) \<and> line_of e' (cstr ln) [] \<and> same_rest e e'"
proof -
  have l: "length (cstr ln) < length (buf e)" using length_cstr [OF assms(1)] assms(2) by simp
  have "(put (buf e) 0 (cstr ln))[length (cstr ln) := NUL] = cstr ln @ [] @ NUL # drop (Suc (length (cstr ln))) (buf e)"
    using l Cons_nth_drop_Suc [OF l] by (simp add: put_eq_append list_update_append)
      (metis list_update_code(2))
  with assms(1) l show ?thesis
    unfolding load_line_def Let_def by (auto simp: line_of_def same_rest_def)
qed

lemma prompt_load:
  assumes "prompt_ok H e" and "length ln = 128" and "NUL \<in> set ln" and "-1 \<le> k" and "k < int (hist_count H)"
  shows "\<exists>e' out. load_line ln (e\<lparr>h := k\<rparr>) = Some (e', out) \<and> prompt_ok H e'"
proof -
  have "length ln \<le> length (buf (e\<lparr>h := k\<rparr>))" using assms(1,2) by (simp add: prompt_ok_def)
  from load_line_ok [OF assms(3) this] obtain e' out
    where "load_line ln (e\<lparr>h := k\<rparr>) = Some (e', out)" "line_of e' (cstr ln) []" "same_rest (e\<lparr>h := k\<rparr>) e'" by blast
  with assms show ?thesis by (auto simp: prompt_ok_def same_rest_def)
qed

lemma hist_row: "hist_ok H \<Longrightarrow> i < hist_count H \<Longrightarrow> length (history H ! i) = 128 \<and> NUL \<in> set (history H ! i)"
  using NUL_in_row by (auto simp: hist_ok_def)

lemma key_up_ok:
  assumes "prompt_ok H e" and "hist_ok H"
  shows "\<exists>e' out. key_up H e = Some (e', out) \<and> prompt_ok H e'"
proof -
  from assms(1) obtain l r where lr: "line_of e l r" and len: "length (buf e) = 128" "length (saved e) = 128"
    "NUL \<in> set (saved e)" "-1 \<le> h e" "h e < int (hist_count H)" by (auto simp: prompt_ok_def)
  have n: "len e < 128" using lr len(1) by (auto simp: line_of_def)
  define e1 where "e1 = (if h e = -1 then e\<lparr>saved := (put (saved e) 0 (take (len e) (buf e)))[len e := NUL]\<rparr> else e)"
  have e1: "(if h e = -1 then save_line e else Some e) = Some e1"
    using n len by (simp add: e1_def save_line_def)
  have "line_of e1 l r" using lr by (simp add: e1_def line_of_def)
  then have ok: "prompt_ok H e1" by (rule prompt_okI) (use len n in \<open>auto simp: e1_def set_update_memI\<close>)
  have h1: "h e1 = h e" by (simp add: e1_def)
  show ?thesis
  proof (cases "h e + 1 < int (hist_count H)")
    case True
    then have "nat (h e + 1) < hist_count H" using len(4) by linarith
    with prompt_load [OF ok, of "history H ! nat (h e + 1)" "h e + 1"] hist_row [OF assms(2)] True len(4)
    show ?thesis by (simp add: key_up_def e1 h1)
  next
    case False
    with ok show ?thesis by (simp add: key_up_def e1 h1)
  qed
qed

lemma key_down_ok:
  assumes "prompt_ok H e" and "hist_ok H"
  shows "\<exists>e' out. key_down H e = Some (e', out) \<and> prompt_ok H e'"
proof -
  from assms(1) have len: "length (saved e) = 128" "NUL \<in> set (saved e)" "h e < int (hist_count H)"
    by (auto simp: prompt_ok_def)
  have "nat (h e - 1) < hist_count H" if "h e > 0" using that len(3) by linarith
  then show ?thesis
    using prompt_load [OF assms(1), of "history H ! nat (h e - 1)" "h e - 1"] hist_row [OF assms(2), of "nat (h e - 1)"]
      prompt_load [OF assms(1) len(1,2), of "-1"] len(3) assms(1)
    by (simp add: key_down_def)
qed

lemma common_ok: "length cmd < length b \<Longrightarrow> \<exists>j. common cmd b = Some j"
  by (induction cmd b rule: common.induct) auto

lemma common_Some: "common cmd b = Some j \<Longrightarrow> j \<le> length cmd \<and> NUL \<notin> set (take j b)"
  by (induction cmd b arbitrary: j rule: common.induct) (auto split: if_splits)

lemma tab_matches_ok:
  assumes "\<forall>cmd \<in> set cmds. length cmd < length b"
  shows "\<exists>ms. tab_matches b cmds = Some ms \<and>
    (\<forall>(cmd, j) \<in> set ms. cmd \<in> set cmds \<and> common cmd b = Some j \<and> (b ! j = NUL \<or> j = length cmd))"
  using assms
proof (induction cmds)
  case (Cons cmd cmds)
  obtain j where "common cmd b = Some j" using common_ok [of cmd b] Cons.prems by auto
  with Cons show ?case by fastforce
qed simp

lemma complete_line:
  assumes "line_of e l r" and "length l + length r + length ss < length (buf e)" and "NUL \<notin> set ss"
  shows "\<exists>e' out. complete (length (buf e)) ss e = Some (e', out) \<and> line_of e' (l @ ss) r \<and> same_rest e e'"
  using assms
proof (induction ss arbitrary: e l)
  case (Cons s ss)
  from Cons.prems(1) obtain z zs where e: "buf e = l @ r @ z # zs" "pos e = length l" "len e = length l + length r"
      "NUL \<notin> set l" "NUL \<notin> set r" by (rule line_ofE)
  with Cons.prems(2) obtain y ys where zs: "zs = y # ys" by (cases zs) auto
  let ?e1 = "e\<lparr>buf := (l @ [s]) @ r @ zs, pos := length l + 1, len := length l + length r + 1\<rparr>"
  have i: "insert_char s e = Some ?e1" by (rule insert_char_line [OF e(1-3)])
  obtain out where o: "echo_insert ?e1 = Some out" using echo_insert_ok [of ?e1] by auto
  have b: "length (buf ?e1) = length (buf e)" by (simp add: e)
  have l: "line_of ?e1 (l @ [s]) r" using e Cons.prems(3) zs by (auto simp: line_of_def)
  obtain e' out' where "complete (length (buf e)) ss ?e1 = Some (e', out')" "line_of e' ((l @ [s]) @ ss) r" "same_rest ?e1 e'"
    using Cons.IH [OF l] Cons.prems(2,3) unfolding b by auto
  moreover have "pos e + 1 < length (buf e)" using Cons.prems(2) e(2) by simp
  ultimately show ?case using i o b by (auto simp: same_rest_def)
qed (auto simp: same_rest_def)

lemma cmd_list_facts: "\<forall>cmd \<in> set cmd_list. length cmd < 16 \<and> NUL \<notin> set cmd"
  by (simp add: cmd_list_def)

lemma key_tab_ok:
  assumes "prompt_ok H e"
  shows "\<exists>e' out. key_tab 128 e = Some (e', out) \<and> prompt_ok H e'"
proof -
  from assms obtain l r where lr: "line_of e l r" and len: "length (buf e) = 128" by (auto simp: prompt_ok_def)
  from lr obtain z zs where e: "buf e = l @ r @ z # zs" "len e = length l + length r" "NUL \<notin> set l" "NUL \<notin> set r"
    by (rule line_ofE)
  have "\<forall>cmd \<in> set cmd_list. length cmd < length (buf e)" using cmd_list_facts len by fastforce
  from tab_matches_ok [OF this] obtain ms where ms: "tab_matches (buf e) cmd_list = Some ms"
    and m: "\<forall>(cmd, j) \<in> set ms. cmd \<in> set cmd_list \<and> common cmd (buf e) = Some j \<and> (buf e ! j = NUL \<or> j = length cmd)"
    by blast
  show ?thesis
  proof (cases "\<exists>cmd j. ms = [(cmd, j)]")
    case True
    then obtain cmd j where mj: "ms = [(cmd, j)]" by blast
    with m have c: "cmd \<in> set cmd_list" "common cmd (buf e) = Some j" "buf e ! j = NUL \<or> j = length cmd" by auto
    have j: "j \<le> length cmd" "length cmd < 16" "NUL \<notin> set (drop j cmd)"
      using common_Some [OF c(2)] cmd_list_facts c(1) by (auto dest: in_set_dropD)
    have "length l + length r + length (drop j cmd) < length (buf e)"
    proof (cases "j = length cmd")
      case True
      then show ?thesis by (simp add: e)
    next
      case False
      then have "buf e ! j = NUL" using c(3) by simp
      have "length l + length r \<le> j"
      proof (rule ccontr)
        assume "\<not> ?thesis"
        then have "buf e ! j \<in> set (l @ r)" using nth_mem [of j "l @ r"] nth_append [of "l @ r" "z # zs" j] by (simp add: e(1))
        with \<open>buf e ! j = NUL\<close> e(3,4) show False by simp
      qed
      with j len show ?thesis by simp
    qed
    from complete_line [OF lr this j(3)] obtain e' out
      where "complete 128 (drop j cmd) e = Some (e', out)" "line_of e' (l @ drop j cmd) r" "same_rest e e'" unfolding len by blast
    with ms mj assms show ?thesis by (auto simp: key_tab_def prompt_ok_def same_rest_def)
  next
    case False
    have "len e \<le> length (buf e)" by (simp add: e)
    with False ms assms show ?thesis by (auto simp: key_tab_def split: list.split)
  qed
qed

lemma line_key_prompt:
  assumes "prompt_ok H e" and "hist_ok H"
  shows "\<exists>e' out. line_key 128 H c e = Some (e', out) \<and> prompt_ok H e'"
proof (cases "c \<in> edit_keys")
  case True
  from assms(1) obtain l r where "line_of e l r" by (auto simp: prompt_ok_def)
  moreover have "128 \<le> length (buf e)" using assms(1) by (simp add: prompt_ok_def)
  ultimately obtain e' out where "line_key 128 H c e = Some (e', out)" "same_rest e e'"
      "line_of e' (fst (zip_key 128 c (l, r))) (snd (zip_key 128 c (l, r)))"
    using line_key_zip [OF _ True] by metis
  with assms(1) show ?thesis by (auto simp: prompt_ok_def same_rest_def)
next
  case False
  have b: "\<not> between (CHR '' '') (CHR 0x7E) (CHR 0x1B)" "\<not> between (CHR '' '') (CHR 0x7E) (CHR 0x1A)"
    by (simp_all add: between_def)
  from False consider "c = CHR 0x09" | "c = CHR 0x1B" | "c = CHR 0x1A" by (auto simp: edit_keys_def)
  then show ?thesis
    by cases (use key_tab_ok [OF assms(1)] key_up_ok [OF assms] key_down_ok [OF assms] b in \<open>simp_all add: line_key_def\<close>)
qed

section \<open>Whole lines\<close>

text \<open>The editor after a sequence of keys without newline.\<close>

fun run_keys :: "nat \<Rightarrow> hist \<Rightarrow> char list \<Rightarrow> edit \<Rightarrow> edit option" where
  "run_keys mx H [] e = Some e"
| "run_keys mx H (c # cs) e =
     (if c = NUL then run_keys mx H cs e
      else case line_key mx H c e of None \<Rightarrow> None | Some (e', out) \<Rightarrow> run_keys mx H cs e')"

lemma run_keys_prompt:
  "prompt_ok H e \<Longrightarrow> hist_ok H \<Longrightarrow> \<exists>e'. run_keys 128 H cs e = Some e' \<and> prompt_ok H e'"
proof (induction cs arbitrary: e)
  case (Cons c cs)
  then obtain e' out where "line_key 128 H c e = Some (e', out)" "prompt_ok H e'"
    using line_key_prompt by metis
  with Cons show ?case by auto
qed simp

lemma run_keys_zip:
  assumes "line_of e l r" and "set cs \<subseteq> edit_keys" and "mx = length (buf e)"
  shows "\<exists>e'. run_keys mx H cs e = Some e' \<and> length (buf e') = mx \<and>
    line_of e' (fst (fold (zip_key mx) cs (l, r))) (snd (fold (zip_key mx) cs (l, r)))"
  using assms
proof (induction cs arbitrary: e l r)
  case (Cons c cs)
  obtain e' out where e': "line_key mx H c e = Some (e', out)" "same_rest e e'"
      "line_of e' (fst (zip_key mx c (l, r))) (snd (zip_key mx c (l, r)))"
    using line_key_zip [OF Cons.prems(1), of c mx H] Cons.prems by auto
  have z: "zip_key mx NUL (l, r) = (l, r)" by (simp add: between_def)
  show ?case
    using Cons.IH [OF Cons.prems(1) _ Cons.prems(3)] Cons.IH [OF e'(3)] Cons.prems e' z
    by (cases "c = NUL") (simp_all add: same_rest_def del: zip_key.simps)
qed simp

context kbd_device
begin

lemma typed_Cons:
  assumes "typed k (codes w) (c # cs) = Some x"
  shows "\<exists>k1 w1. kbd_get io k w = Some (c, k1, w1) \<and> typed k1 (codes w1) cs = Some x"
proof -
  from assms obtain k1 scs where n: "next_char k (codes w) = Some (c, k1, scs)" "typed k1 scs cs = Some x"
    by (auto split: option.splits if_splits)
  from kbd_get_ok [OF n(1)] n(2) show ?thesis by auto
qed

lemma readline_loop_run:
  assumes "typed (tkbd t) (codes (tworld t)) (cs @ [CHR ''\<newline>'']) = Some (k', rest)" and "CHR ''\<newline>'' \<notin> set cs"
  shows "(run_keys mx H cs e = None \<longrightarrow> (\<exists>t'. readline_loop io mx H e t = Some (Overrun, t'))) \<and>
    (\<forall>e'. run_keys mx H cs e = Some e' \<longrightarrow> pos e' < length (buf e') \<longrightarrow>
      (\<exists>t'. readline_loop io mx H e t = Some (Ret ((buf e')[pos e' := NUL], hist_add (cstr ((buf e')[pos e' := NUL])) H), t') \<and>
         tkbd t' = k' \<and> codes (tworld t') = rest))"
  using assms
proof (induction cs arbitrary: e t)
  case Nil
  obtain k1 w1 where "kbd_get io (tkbd t) (tworld t) = Some (CHR ''\<newline>'', k1, w1)" "typed k1 (codes w1) [] = Some (k', rest)"
    using typed_Cons [OF Nil.prems(1) [unfolded append_Nil]] by blast
  then show ?case by (subst (1 2) readline_loop.simps) (simp add: store_def)
next
  case (Cons c cs)
  obtain k1 w1 where k: "kbd_get io (tkbd t) (tworld t) = Some (c, k1, w1)"
      "typed k1 (codes w1) (cs @ [CHR ''\<newline>'']) = Some (k', rest)"
    using typed_Cons [OF Cons.prems(1) [unfolded append_Cons]] by blast
  have c: "c \<noteq> CHR ''\<newline>''" "CHR ''\<newline>'' \<notin> set cs" using Cons.prems(2) by auto
  let ?t1 = "t\<lparr>tkbd := k1, tworld := w1\<rparr>"
  show ?case
  proof (cases "c = NUL")
    case True
    then have "readline_loop io mx H e t = readline_loop io mx H e ?t1"
      using k(1) by (subst readline_loop.simps) simp
    with Cons.IH [of ?t1 e] k(2) c(2) True show ?thesis by simp
  next
    case False
    show ?thesis
    proof (cases "line_key mx H c e")
      case None
      then show ?thesis using k(1) c False by (subst (1 2) readline_loop.simps) simp
    next
      case (Some p)
      obtain e1 out where p: "p = (e1, out)" by (cases p)
      let ?t2 = "?t1\<lparr>tcon := puts out (tcon t)\<rparr>"
      have "readline_loop io mx H e t = readline_loop io mx H e1 ?t2"
        using k(1) c False Some p by (subst readline_loop.simps) simp
      with Cons.IH [of ?t2 e1] k(2) c(2) False Some p show ?thesis by simp
    qed
  qed
qed

end

lemma cstr_line: "NUL \<notin> set l \<Longrightarrow> cstr ((l @ z # zs)[length l := NUL]) = l"
  by (simp add: list_update_append)

section \<open>Properties\<close>

text \<open>C14: With the 128-character array of the command prompt and any sequence of keys, completion and
  history included, the editor makes no access outside the line, the saved line or the history, and
  \<open>readline\<close> returns when the newline key arrives, with a terminated line and a well-formed history.\<close>

theorem readline_safe:
  assumes "kbd_device io codes delay" and "hist_ok H" and "length b = 128" and "length sv = 128"
    and "typed (tkbd t) (codes (tworld t)) (cs @ [CHR ''\<newline>'']) = Some (k', rest)" and "CHR ''\<newline>'' \<notin> set cs"
  shows "\<exists>b' H' t'. readline io b sv H t = Some (Ret (b', H'), t') \<and> length b' = 128 \<and> NUL \<in> set b' \<and>
    hist_ok H' \<and> codes (tworld t') = rest"
proof -
  let ?e = "\<lparr>buf = b[0 := NUL], pos = 0, len = 0, h = -1, saved = sv[0 := NUL]\<rparr>"
  obtain z zs where b: "b[0 := NUL] = z # zs" using assms(3) by (cases "b[0 := NUL]") auto
  have "line_of ?e [] []" by (simp add: line_of_def b)
  then have ok: "prompt_ok H ?e" by (rule prompt_okI) (use assms(3,4) in \<open>auto simp: set_update_memI\<close>)
  from run_keys_prompt [OF this assms(2)] obtain e' where e': "run_keys 128 H cs ?e = Some e'" "prompt_ok H e'" by blast
  then obtain l r z zs where l: "buf e' = l @ r @ z # zs" "pos e' = length l" "length (buf e') = 128"
    by (auto simp: prompt_ok_def line_of_def)
  let ?b = "(buf e')[pos e' := NUL]"
  have n: "NUL \<in> set ?b" "length ?b = 128" using l by (auto intro: set_update_memI)
  have "length (cstr ?b) \<le> 127" using length_cstr [OF n(1)] n(2) by simp
  moreover have "pos e' < length (buf e')" by (simp add: l)
  ultimately show ?thesis
    using kbd_device.readline_loop_run [OF assms(1,5,6), of 128 H ?e] e'(1) n hist_add_ok [OF assms(2)] assms(3)
    by (auto simp: readline_def store_def)
qed

definition no_keys :: kbd where
  "no_keys = \<lparr>left_shift = False, right_shift = False, caps_lock = False\<rparr>"

definition demo_tty :: "u8 list \<Rightarrow> machine tty" where
  "demo_tty ks = \<lparr>tkbd = no_keys, tworld = demo_machine ks, tcon = demo_console\<rparr>"

definition empty_hist :: hist where
  "empty_hist = \<lparr>history = replicate 8 (replicate 128 NUL), hist_count = 0\<rparr>"

lemma empty_hist_ok: "hist_ok empty_hist"
  by (auto simp: hist_ok_def empty_hist_def HIST_MAX_def)

text \<open>The keys \<open>h\<close>, up, tab and Enter.\<close>

theorem readline_safe_witness:
  "\<exists>b' H' t'. readline kbd_ports (replicate 128 NUL) (replicate 128 NUL) empty_hist (demo_tty [0x23, 0x48, 0x0F, 0x1C]) =
     Some (Ret (b', H'), t') \<and> length b' = 128 \<and> hist_ok H'"
proof -
  have "typed (tkbd (demo_tty [0x23, 0x48, 0x0F, 0x1C])) (m_keys (tworld (demo_tty [0x23, 0x48, 0x0F, 0x1C])))
      ([CHR ''h'', CHR 0x1B, CHR 0x09] @ [CHR ''\<newline>'']) = Some (no_keys, [])" by code_simp
  from readline_safe [OF kbd_sim.kbd_device_axioms empty_hist_ok _ _ this] show ?thesis by force
qed

text \<open>C16: For an array of any length and every sequence of editing keys (printable characters, backspace,
  delete, and the cursor keys), the line is edited as a text with a cursor, and the newline key
  returns the text to the left of the cursor: what is to its right is lost.\<close>

theorem readline_edits:
  assumes "kbd_device io codes delay" and "b \<noteq> []"
    and "typed (tkbd t) (codes (tworld t)) (cs @ [CHR ''\<newline>'']) = Some (k', rest)" and "CHR ''\<newline>'' \<notin> set cs"
    and "set cs \<subseteq> edit_keys"
  shows "\<exists>b' H' t'. readline io b sv H t = Some (Ret (b', H'), t') \<and>
    cstr b' = fst (fold (zip_key (length b)) cs ([], [])) \<and> H' = hist_add (cstr b') H \<and>
    codes (tworld t') = rest"
proof -
  let ?e = "\<lparr>buf = b[0 := NUL], pos = 0, len = 0, h = -1, saved = sv[0 := NUL]\<rparr>"
  obtain z zs where "b[0 := NUL] = z # zs" using assms(2) by (cases "b[0 := NUL]") auto
  then have "line_of ?e [] []" by (simp add: line_of_def)
  from run_keys_zip [OF this assms(5), of "length b" H] obtain e' where e': "run_keys (length b) H cs ?e = Some e'"
      "line_of e' (fst (fold (zip_key (length b)) cs ([], []))) (snd (fold (zip_key (length b)) cs ([], [])))" by auto
  then obtain z zs where l: "buf e' = fst (fold (zip_key (length b)) cs ([], [])) @ z # zs"
      "pos e' = length (fst (fold (zip_key (length b)) cs ([], [])))" "NUL \<notin> set (fst (fold (zip_key (length b)) cs ([], [])))"
    by (auto simp: line_of_def) (metis append_Cons append_is_Nil_conv neq_Nil_conv)
  then have "pos e' < length (buf e')" "cstr ((buf e')[pos e' := NUL]) = fst (fold (zip_key (length b)) cs ([], []))"
    by (simp_all add: cstr_line)
  with kbd_device.readline_loop_run [OF assms(1,3,4), of "length b" H ?e] e'(1) assms(2) show ?thesis
    by (auto simp: readline_def store_def)
qed

text \<open>The keys \<open>h\<close>, \<open>i\<close>, left and Enter return \<open>h\<close>.\<close>

theorem readline_edits_witness:
  "\<exists>b' H' t'. readline kbd_ports (replicate 8 NUL) (replicate 128 NUL) empty_hist (demo_tty [0x23, 0x17, 0x4B, 0x1C]) =
     Some (Ret (b', H'), t') \<and> cstr b' = ''h''"
proof -
  have t: "typed (tkbd (demo_tty [0x23, 0x17, 0x4B, 0x1C])) (m_keys (tworld (demo_tty [0x23, 0x17, 0x4B, 0x1C])))
      ([CHR ''h'', CHR ''i'', CHR 0x03] @ [CHR ''\<newline>'']) = Some (no_keys, [])" by code_simp
  have z: "fst (fold (zip_key 8) [CHR ''h'', CHR ''i'', CHR 0x03] ([], [])) = ''h''" by code_simp
  show ?thesis
    using readline_edits [OF kbd_sim.kbd_device_axioms _ t, of "replicate 8 NUL" "replicate 128 NUL" empty_hist] z
    by (auto simp: edit_keys_def)
qed

text \<open>Recalling a history line ignores the length of the array: with any array that is not longer
  than the most recent line, the up key stores outside of it. The confirmation prompts use arrays of
  8 and 12 characters.\<close>

theorem readline_recall_overruns:
  assumes "kbd_device io codes delay" and "hist_ok H" and "0 < hist_count H"
    and "b \<noteq> []" and "length b \<le> length (cstr (history H ! 0))" and "length sv = 128"
    and "typed (tkbd t) (codes (tworld t)) [CHR 0x1B, CHR ''\<newline>''] = Some (k', rest)"
  shows "\<exists>t'. readline io b sv H t = Some (Overrun, t')"
proof -
  let ?e = "\<lparr>buf = b[0 := NUL], pos = 0, len = 0, h = -1, saved = sv[0 := NUL]\<rparr>"
  have "key_up H ?e = None"
    using assms(3-6) by (simp add: key_up_def save_line_def load_line_def)
  then have "run_keys (length b) H [CHR 0x1B] ?e = None"
    by (simp add: line_key_def between_def)
  with kbd_device.readline_loop_run [OF assms(1), of t "[CHR 0x1B]" k' rest "length b" H ?e] assms(4,7)
  show ?thesis by (simp add: readline_def store_def)
qed

theorem readline_recall_overruns_witness:
  "\<exists>t'. readline kbd_ports (replicate 8 NUL) (replicate 128 NUL) (hist_add ''diskinfo'' empty_hist)
     (demo_tty [0x48, 0x1C]) = Some (Overrun, t')"
proof -
  let ?H = "hist_add ''diskinfo'' empty_hist"
  have t: "typed (tkbd (demo_tty [0x48, 0x1C])) (m_keys (tworld (demo_tty [0x48, 0x1C])))
      [CHR 0x1B, CHR ''\<newline>''] = Some (no_keys, [])" by code_simp
  have H: "hist_ok ?H" by (rule hist_add_ok [OF empty_hist_ok]) simp
  have c: "0 < hist_count ?H" "length (replicate 8 NUL) \<le> length (cstr (history ?H ! 0))" by code_simp+
  from readline_recall_overruns [OF kbd_sim.kbd_device_axioms H c(1) _ c(2) _ t, of "replicate 128 NUL"]
  show ?thesis by simp
qed

text \<open>\<open>hist_add\<close> copies the new line over the previous one without a terminator: the recorded line
  is the new line followed by the rest of the previous line. After \<open>reboot\<close>, the command \<open>ls\<close>
  is recorded as \<open>lsboot\<close>.\<close>

theorem hist_add_residue:
  assumes "hist_ok H" and "ln \<noteq> []" and "length ln \<le> 127" and "NUL \<notin> set ln" and "\<not> repeats ln H"
  shows "cstr (history (hist_add ln H) ! 0) = ln @ cstr (drop (length ln) (history H ! 0))"
proof -
  have H: "length (history H) = 8" "length (history H ! 0) = 128" "history H ! 0 ! 127 = NUL" "hist_count H \<le> 8"
    using assms(1) by (auto simp: hist_ok_def HIST_MAX_def)
  moreover have "shift_rows (new_count H - 1) (history H) ! 0 = history H ! 0"
    using H by (subst nth_shift_rows) (auto simp: new_count_def HIST_MAX_def)
  ultimately show ?thesis
    using assms(2,5) cstr_put [OF assms(3,4)] by (simp add: hist_add_cases)
qed

theorem hist_add_residue_witness:
  "cstr (history (hist_add ''ls'' (hist_add ''reboot'' empty_hist)) ! 0) = ''lsboot''"
proof -
  let ?H = "hist_add ''reboot'' empty_hist"
  have "hist_ok ?H" by (rule hist_add_ok [OF empty_hist_ok]) simp
  moreover have "\<not> repeats ''ls'' ?H" "cstr (drop (length ''ls'') (history ?H ! 0)) = ''boot''" by code_simp+
  ultimately show ?thesis using hist_add_residue [of ?H "''ls''"] by simp
qed

end
