(* ===== verification/M64_Boot.thy ===== *)
theory M64_Boot
  imports M64_Fat
begin

text \<open>
  What Mini64 reads from the Multiboot2 information block (\<^verbatim>\<open>src/mini64/kernel.c\<close>,
  \<open>memory_kib\<close>, \<open>fb_init\<close> and \<open>parse_modules\<close>): three loops over the same list of tags.
  Offsets are 32-bit words and wrap around, so a loop over a malformed block need not end: the loops
  are partial functions with the value \<open>None\<close> for a loop that does not end. The locale
  \<open>tag_loop\<close> states what the three loops have in common, and gives their value on a
  well-formed block.
\<close>

section \<open>The loops\<close>

abbreviation tag_type :: "memory \<Rightarrow> u32 \<Rightarrow> u32 \<Rightarrow> u32" where
  "tag_type m mb off \<equiv> ld32 m (unat mb + unat off)"

abbreviation tag_size :: "memory \<Rightarrow> u32 \<Rightarrow> u32 \<Rightarrow> u32" where
  "tag_size m mb off \<equiv> ld32 m (unat mb + unat off + 4)"

partial_function (option) kib_entries ::
  "memory \<Rightarrow> u32 \<Rightarrow> u32 \<Rightarrow> u32 \<Rightarrow> u32 \<Rightarrow> u64 \<Rightarrow> u64 option" where
  "kib_entries m mb lim entry_size at usable =
     (if entry_size \<ge> 24 \<and> at + entry_size \<le> lim then
        kib_entries m mb lim entry_size (at + entry_size)
          (if ld32 m (unat mb + unat at + 16) = 1
           then usable + ld64 m (unat mb + unat at + 8) else usable)
      else Some usable)"

partial_function (option) kib_tags :: "memory \<Rightarrow> u32 \<Rightarrow> u32 \<Rightarrow> u32 \<Rightarrow> u64 \<Rightarrow> u64 option" where
  "kib_tags m mb tot off usable =
     (if off + 16 \<le> tot then
        if tag_size m mb off < 8 then Some usable
        else Option.bind
          (if tag_type m mb off = 6 \<and> tag_size m mb off \<ge> 16
           then kib_entries m mb (off + tag_size m mb off) (ld32 m (unat mb + unat off + 8)) (off + 16) usable
           else Some usable)
          (kib_tags m mb tot (off + pad8 (tag_size m mb off)))
      else Some usable)"

definition memory_kib :: "memory \<Rightarrow> u32 \<Rightarrow> u32 option" where
  "memory_kib m mb =
     (if mb = 0 then Some 0
      else map_option (\<lambda>usable. if usable div 1024 > 0xFFFFFFFF then 0xFFFFFFFF else ucast (usable div 1024))
        (kib_tags m mb (ld32 m (unat mb)) 8 0))"

text \<open>The body of \<open>fb_init\<close> for a framebuffer tag. The width, height and pitch are assigned from
  \<open>uint32_t\<close> to \<open>int\<close>.\<close>

definition fb_tag :: "memory \<Rightarrow> u32 \<Rightarrow> u32 \<Rightarrow> console \<Rightarrow> console" where
  "fb_tag m mb off c =
     (let a = unat mb + unat off; base = ld64 m (a + 8); kind = m (a + 29); bpp = m (a + 28);
          pitch = ld32 m (a + 16); w = ld32 m (a + 20); h = ld32 m (a + 24)
      in if tag_type m mb off = 8 \<and> tag_size m mb off \<ge> 38 \<and>
            kind = 1 \<and> bpp = 32 \<and> base < 0x100000000 \<and> w \<ge> 640 \<and> h \<ge> 400
         then c\<lparr>fb := base, fb_pitch := sint pitch, fb_w := sint w, fb_h := sint h,
                fb_cols := min 80 (uint (w div 8)), fb_rows := min 30 (uint (h div 16))\<rparr>
         else c)"

partial_function (option) fb_tags :: "memory \<Rightarrow> u32 \<Rightarrow> u32 \<Rightarrow> u32 \<Rightarrow> console \<Rightarrow> console option" where
  "fb_tags m mb tot off c =
     (if off + 8 \<le> tot then
        if tag_size m mb off < 8 then Some c
        else fb_tags m mb tot (off + pad8 (tag_size m mb off)) (fb_tag m mb off c)
      else Some c)"

definition fb_init :: "memory \<Rightarrow> u32 \<Rightarrow> console \<Rightarrow> console option" where
  "fb_init m mb c = (if mb = 0 then Some c else fb_tags m mb (ld32 m (unat mb)) 8 c)"

record module_t =
  mod_start :: u32
  mod_end :: u32

text \<open>The entry for one module tag: the structure and the name, at most 15 characters. The C
  string ends at the first zero byte or with the tag.\<close>

definition mod_name :: "memory \<Rightarrow> u32 \<Rightarrow> u32 \<Rightarrow> string" where
  "mod_name m mb off =
     cstr (map chr (mem_bytes m (unat mb + unat off + 16)
       (nat (min 15 (sint (tag_size m mb off) - 16)))))"

definition module_at :: "memory \<Rightarrow> u32 \<Rightarrow> u32 \<Rightarrow> module_t \<times> string" where
  "module_at m mb off =
     (\<lparr>mod_start = ld32 m (unat mb + unat off + 8), mod_end = ld32 m (unat mb + unat off + 12)\<rparr>,
      mod_name m mb off)"

definition module_tag :: "memory \<Rightarrow> u32 \<Rightarrow> nat \<Rightarrow> u32 \<Rightarrow> (module_t \<times> string) list \<Rightarrow> (module_t \<times> string) list" where
  "module_tag m mb max_mods off mods =
     (if tag_type m mb off = 3 \<and> tag_size m mb off \<ge> 16 \<and> length mods < max_mods
      then mods @ [module_at m mb off] else mods)"

partial_function (option) module_tags ::
  "memory \<Rightarrow> u32 \<Rightarrow> nat \<Rightarrow> u32 \<Rightarrow> u32 \<Rightarrow> (module_t \<times> string) list \<Rightarrow> (module_t \<times> string) list option" where
  "module_tags m mb max_mods tot off mods =
     (if off + 8 \<le> tot then
        if tag_type m mb off = 0 then Some mods
        else if tag_size m mb off < 8 then Some (module_tag m mb max_mods off mods)
        else module_tags m mb max_mods tot (off + pad8 (tag_size m mb off)) (module_tag m mb max_mods off mods)
      else Some mods)"

text \<open>\<open>parse_modules\<close> has no null test: for \<open>mb_info = 0\<close> it reads the size at address 0.\<close>

definition parse_modules :: "memory \<Rightarrow> u32 \<Rightarrow> nat \<Rightarrow> (module_t \<times> string) list option" where
  "parse_modules m mb max_mods = module_tags m mb max_mods (ld32 m (unat mb)) 8 []"

section \<open>Well-formed information blocks\<close>

text \<open>The offsets of the tags before the end tag, which fills the block.\<close>

fun tags_at :: "memory \<Rightarrow> u32 \<Rightarrow> u32 \<Rightarrow> u32 \<Rightarrow> u32 list \<Rightarrow> bool" where
  "tags_at m mb tot off [] \<longleftrightarrow>
     tag_type m mb off = 0 \<and> tag_size m mb off = 8 \<and> unat off + 8 = unat tot"
| "tags_at m mb tot off (p # ps) \<longleftrightarrow>
     p = off \<and> tag_type m mb off \<noteq> 0 \<and> 8 \<le> tag_size m mb off \<and>
     unat off + unat (tag_size m mb off) + 8 \<le> unat tot \<and>
     tags_at m mb tot (off + pad8 (tag_size m mb off)) ps"

text \<open>What the three loops have in common.\<close>

locale tag_loop =
  fixes m :: memory and mb tot :: u32
    and walk :: "u32 \<Rightarrow> 's \<Rightarrow> 's option" and body :: "u32 \<Rightarrow> 's \<Rightarrow> 's"
    and fine :: "u32 \<Rightarrow> bool"
  assumes round: "\<lbrakk>unat off + unat (tag_size m mb off) + 8 \<le> unat tot; unat tot + 16 \<le> 2 ^ 32;
      tag_type m mb off \<noteq> 0; 8 \<le> tag_size m mb off; fine off\<rbrakk> \<Longrightarrow>
      walk off s = walk (off + pad8 (tag_size m mb off)) (body off s)"
    and last: "\<lbrakk>tag_type m mb off = 0; tag_size m mb off = 8; unat off + 8 = unat tot; unat tot + 16 \<le> 2 ^ 32\<rbrakk> \<Longrightarrow>
      walk off s = Some s"
begin

lemma walk_tags:
  "\<lbrakk>tags_at m mb tot off ps; unat tot + 16 \<le> 2 ^ 32; \<forall>p \<in> set ps. fine p\<rbrakk> \<Longrightarrow>
     walk off s = Some (fold body ps s)"
proof (induction ps arbitrary: off s)
  case Nil
  then show ?case using last by simp
next
  case (Cons p ps)
  then have "walk off s = walk (off + pad8 (tag_size m mb off)) (body off s)"
    by (intro round) auto
  with Cons show ?case by simp
qed

end

lemma u32_add: "unat a + unat b < 2 ^ 32 \<Longrightarrow> unat (a + b) = unat a + unat b" for a b :: u32
  using unat_add_lem [of a b] by simp

lemma round_fits: "\<lbrakk>unat off + unat sz + 8 \<le> unat tot; 8 \<le> sz; unat tot + 16 \<le> 2 ^ 32\<rbrakk> \<Longrightarrow>
    off + 8 \<le> tot \<and> off + 16 \<le> tot" for off sz tot :: u32
  using u32_add [of off 8] u32_add [of off 16] by (auto simp: word_le_nat_alt)

lemma last_fits: "\<lbrakk>unat off + 8 = unat tot; unat tot + 16 \<le> 2 ^ 32\<rbrakk> \<Longrightarrow>
    off + 8 = tot \<and> \<not> off + 16 \<le> tot \<and> \<not> tot + 8 \<le> tot" for off tot :: u32
  using u32_add [of off 8] u32_add [of off 16] u32_add [of tot 8]
  by (auto simp: word_le_nat_alt word_unat_eq_iff)

lemma pad8_8 [simp]: "pad8 8 = 8"
  by (simp add: pad8_def)

interpretation mods: tag_loop m mb tot "module_tags m mb max_mods tot" "module_tag m mb max_mods" "\<lambda>_. True"
  for m mb tot max_mods
proof
  fix off and s :: "(module_t \<times> string) list"
  show "module_tags m mb max_mods tot off s = module_tags m mb max_mods tot (off + pad8 (tag_size m mb off)) (module_tag m mb max_mods off s)"
    if "unat off + unat (tag_size m mb off) + 8 \<le> unat tot" "unat tot + 16 \<le> 2 ^ 32"
      "tag_type m mb off \<noteq> 0" "8 \<le> tag_size m mb off"
    using round_fits [OF that(1,4,2)] that by (subst module_tags.simps) auto
  show "module_tags m mb max_mods tot off s = Some s" if "tag_type m mb off = 0"
    using that by (subst module_tags.simps) simp
qed

interpretation fbs: tag_loop m mb tot "fb_tags m mb tot" "fb_tag m mb" "\<lambda>_. True" for m mb tot
proof
  fix off and s :: console
  show "fb_tags m mb tot off s = fb_tags m mb tot (off + pad8 (tag_size m mb off)) (fb_tag m mb off s)"
    if "unat off + unat (tag_size m mb off) + 8 \<le> unat tot" "unat tot + 16 \<le> 2 ^ 32"
      "tag_type m mb off \<noteq> 0" "8 \<le> tag_size m mb off"
    using round_fits [OF that(1,4,2)] that by (subst fb_tags.simps) auto
  show "fb_tags m mb tot off s = Some s"
    if t: "tag_type m mb off = 0" "tag_size m mb off = 8" "unat off + 8 = unat tot" "unat tot + 16 \<le> 2 ^ 32"
  proof -
    have "fb_tags m mb tot tot (fb_tag m mb off s) = Some (fb_tag m mb off s)"
      using last_fits [OF t(3,4)] by (subst fb_tags.simps) simp
    moreover have "fb_tag m mb off s = s" using t(1) by (simp add: fb_tag_def)
    ultimately show ?thesis using last_fits [OF t(3,4)] t by (subst fb_tags.simps) simp
  qed
qed

text \<open>The usable bytes of one memory-map tag.\<close>

fun kib_sum :: "memory \<Rightarrow> nat \<Rightarrow> nat \<Rightarrow> nat \<Rightarrow> u64" where
  "kib_sum m e esz 0 = 0"
| "kib_sum m e esz (Suc k) = (if ld32 m (e + 16) = 1 then ld64 m (e + 8) else 0) + kib_sum m (e + esz) esz k"

definition map_bytes :: "memory \<Rightarrow> u32 \<Rightarrow> u32 \<Rightarrow> u64" where
  "map_bytes m mb off =
     (let a = unat mb + unat off; esz = ld32 m (a + 8) in
      if tag_type m mb off = 6 \<and> 16 \<le> tag_size m mb off \<and> 24 \<le> esz
      then kib_sum m (a + 16) (unat esz) ((unat (tag_size m mb off) - 16) div unat esz) else 0)"

lemma kib_entries_sum:
  assumes "24 \<le> es" and "unat lim + unat es < 2 ^ 32"
    and "unat at + k * unat es \<le> unat lim" and "unat lim < unat at + Suc k * unat es"
  shows "kib_entries m mb lim es at usable = Some (usable + kib_sum m (unat mb + unat at) (unat es) k)"
  using assms(3,4)
proof (induction k arbitrary: at usable)
  case 0
  then have "unat (at + es) = unat at + unat es" using assms(2) by (intro u32_add) simp
  with 0 have "\<not> at + es \<le> lim" by (simp add: word_le_nat_alt)
  then show ?case by (subst kib_entries.simps) simp
next
  case (Suc k)
  then have e: "unat (at + es) = unat at + unat es" using assms(2) by (intro u32_add) simp
  with Suc.prems have "at + es \<le> lim" by (simp add: word_le_nat_alt)
  with Suc.IH [of "at + es"] Suc.prems assms(1) show ?case
    by (subst kib_entries.simps) (simp add: e add.assoc)
qed

lemma kib_entries_tag:
  assumes "16 \<le> sz" and "unat off + unat sz + 8 \<le> unat tot" and "unat tot + unat es < 2 ^ 32"
  shows "kib_entries m mb (off + sz) es (off + 16) u =
    Some (u + (if 24 \<le> es then kib_sum m (unat mb + unat off + 16) (unat es) ((unat sz - 16) div unat es) else 0))"
proof (cases "24 \<le> es")
  case True
  have sz: "16 \<le> unat sz" and es: "0 < unat es" using assms(1) True by (simp_all add: word_le_nat_alt)
  have s: "unat (off + sz) = unat off + unat sz" "unat (off + 16) = unat off + 16"
    using u32_add [of off sz] u32_add [of off 16] assms sz by simp_all
  let ?k = "(unat sz - 16) div unat es"
  have "?k * unat es \<le> unat sz - 16" "unat sz - 16 < Suc ?k * unat es"
    using div_times_less_eq_dividend dividend_less_div_times [OF es, of "unat sz - 16"] by simp_all
  then have "unat (off + 16) + ?k * unat es \<le> unat (off + sz)" "unat (off + sz) < unat (off + 16) + Suc ?k * unat es"
    unfolding s using sz by linarith+
  from kib_entries_sum [OF True _ this] show ?thesis using True assms by (simp add: s add.assoc)
next
  case False
  then show ?thesis by (subst kib_entries.simps) simp
qed

interpretation kibs: tag_loop m mb tot "kib_tags m mb tot" "\<lambda>off usable. usable + map_bytes m mb off"
  "\<lambda>off. unat tot + unat (ld32 m (unat mb + unat off + 8)) < 2 ^ 32" for m mb tot
proof
  fix off and s :: u64
  show "kib_tags m mb tot off s = kib_tags m mb tot (off + pad8 (tag_size m mb off)) (s + map_bytes m mb off)"
    if "unat off + unat (tag_size m mb off) + 8 \<le> unat tot" "unat tot + 16 \<le> 2 ^ 32"
      "8 \<le> tag_size m mb off" "unat tot + unat (ld32 m (unat mb + unat off + 8)) < 2 ^ 32"
    using round_fits [OF that(1,3,2)] that kib_entries_tag [OF _ that(1,4), of m mb s]
    by (subst kib_tags.simps) (auto simp: map_bytes_def Let_def)
  show "kib_tags m mb tot off s = Some s" if "unat off + 8 = unat tot" "unat tot + 16 \<le> 2 ^ 32"
    using last_fits [OF that] by (subst kib_tags.simps) simp
qed

lemma fold_module_tag:
  "fold (module_tag m mb k) ps ms = ms @ take (k - length ms)
     (map (module_at m mb) (filter (\<lambda>p. tag_type m mb p = 3 \<and> 16 \<le> tag_size m mb p) ps))"
  by (induction ps arbitrary: ms) (auto simp: module_tag_def take_Cons' Suc_diff_Suc)

lemma fold_plus: "fold (\<lambda>p u. u + f p) ps u = u + sum_list (map f ps)" for u :: "'a::comm_monoid_add"
  by (induction ps arbitrary: u) (simp_all add: add.assoc)

text \<open>A framebuffer that is accepted gives 80 columns and 25 to 30 rows.\<close>

definition fb_fits :: "console \<Rightarrow> bool" where
  "fb_fits c \<longleftrightarrow> fb c = 0 \<or> fb c < 2 ^ 32 \<and> fb_cols c = 80 \<and> fb_rows c \<in> {25..30}"

lemma fb_tag_fits: "fb_fits c \<Longrightarrow> fb_fits (fb_tag m mb off c)"
proof -
  have w: "80 \<le> uint (w div 8)" if "640 \<le> w" for w :: u32
    using that by (simp add: word_le_def uint_div)
  have h: "25 \<le> uint (h div 16)" if "400 \<le> h" for h :: u32
    using that by (simp add: word_le_def uint_div)
  assume "fb_fits c"
  then show ?thesis using w h by (auto simp: fb_fits_def fb_tag_def Let_def)
qed

lemma fold_fb_tag: "fb_fits c \<Longrightarrow> fb_fits (fold (fb_tag m mb) ps c)"
  by (induction ps arbitrary: c) (simp_all add: fb_tag_fits)

lemma kib_saturate: "unat (if u div 1024 > 0xFFFFFFFF then 0xFFFFFFFF else ucast (u div 1024) :: u32) =
    min (2 ^ 32 - 1) (unat u div 1024)" for u :: u64
proof -
  have d: "unat (u div 1024) = unat u div 1024" by (simp add: unat_div)
  show ?thesis
  proof (cases "u div 1024 > 0xFFFFFFFF")
    case True
    then have "0xFFFFFFFF < unat u div 1024" by (simp add: word_less_nat_alt d)
    with True show ?thesis by simp
  next
    case False
    then have "unat u div 1024 \<le> 0xFFFFFFFF" by (simp add: word_less_nat_alt d)
    moreover from this have "unat (ucast (u div 1024) :: u32) = unat u div 1024"
      by (simp add: unsigned_ucast_eq d take_bit_nat_eq_self)
    ultimately show ?thesis using False by simp
  qed
qed

section \<open>Properties\<close>


text \<open>A block at address 16 with one module and a memory map of 64 MiB.\<close>

definition demo_info :: bytes where
  "demo_info = [80, 0, 0, 0, 0, 0, 0, 0,
     3, 0, 0, 0, 23, 0, 0, 0, 0, 0, 0x20, 0, 0, 0, 0x30, 0] @ map ord ''kernel'' @ [0, 0,
     6, 0, 0, 0, 40, 0, 0, 0, 24, 0, 0, 0, 0, 0, 0, 0,
     0, 0, 0, 0, 0, 0, 0, 0, 0, 0, 0, 4, 0, 0, 0, 0, 1, 0, 0, 0, 0, 0, 0, 0,
     0, 0, 0, 0, 8, 0, 0, 0]"

definition demo_memory :: memory where
  "demo_memory a = (if 16 \<le> a \<and> a < 96 then demo_info ! (a - 16) else 0)"


end
