(* ===== verification/M64_Volume.thy ===== *)
theory M64_Volume
  imports M64_Fat
begin

text \<open>
  The FAT32 code of Mini64 verified against the \<open>sector_disk\<close> interface: the geometry of a volume
  (where the copies of the table and the clusters lie, and that they do not overlap), the table and
  cluster contents as functions of the sectors (\<open>F\<close> and \<open>D\<close>), and one lemma per operation that
  states its effect on them: \<open>fat_get\<close>, \<open>fat_set\<close>, \<open>allocate_cluster\<close>, freeing a chain,
  the copy loop, and \<open>disk_store_large\<close> as a whole.
\<close>

section \<open>Geometry of a volume\<close>

definition maxc :: "'d mini \<Rightarrow> nat" where
  "maxc st = (129024 - unat (data_start st)) div unat (sectors_per_cluster st) + 2"

definition geom :: "'d mini \<Rightarrow> bool" where
  "geom st \<longleftrightarrow> unat (vol_start st) + 129024 \<le> 2 ^ 28 \<and>
     unat (data_start st) = unat (reserved st) + unat (fat_count st) * unat (fat_sectors st) \<and>
     unat (data_start st) \<le> 129024 \<and> 0 < unat (fat_count st) \<and> 0 < unat (sectors_per_cluster st) \<and>
     4 * maxc st \<le> 512 * unat (fat_sectors st) \<and>
     2 \<le> unat (root_cluster st) \<and> unat (root_cluster st) < maxc st"

text \<open>Sector numbers as natural numbers: of an entry in copy \<open>f\<close> of the table, and of a cluster.\<close>

definition fat_sec :: "nat \<Rightarrow> nat \<Rightarrow> 'd mini \<Rightarrow> nat" where
  "fat_sec f c st = unat (vol_start st) + unat (reserved st) + f * unat (fat_sectors st) + 4 * c div 512"

definition clus_sec :: "nat \<Rightarrow> 'd mini \<Rightarrow> nat" where
  "clus_sec c st = unat (vol_start st) + unat (data_start st) + (c - 2) * unat (sectors_per_cluster st)"

definition same_vol :: "'d mini \<Rightarrow> 'd mini \<Rightarrow> bool" where
  "same_vol st st' \<longleftrightarrow> vol_start st' = vol_start st \<and> reserved st' = reserved st \<and>
     fat_sectors st' = fat_sectors st \<and> data_start st' = data_start st \<and>
     root_cluster st' = root_cluster st \<and> sectors_per_cluster st' = sectors_per_cluster st \<and>
     fat_count st' = fat_count st \<and> fat_mounted st' = fat_mounted st"

lemma same_vol_refl [simp]: "same_vol st st"
  by (simp add: same_vol_def)

lemma same_vol_trans: "same_vol st st' \<Longrightarrow> same_vol st' st'' \<Longrightarrow> same_vol st st''"
  by (simp add: same_vol_def)

lemma same_vol_update [simp]:
  "same_vol st (st'\<lparr>disk := d\<rparr>) = same_vol st st'" "same_vol st (st'\<lparr>con := cn\<rparr>) = same_vol st st'"
  "same_vol st (st'\<lparr>next_free_cluster := n\<rparr>) = same_vol st st'"
  "same_vol st (say s st') = same_vol st st'" "same_vol st (say_num k st') = same_vol st st'"
  "same_vol st (bar p w st') = same_vol st st'"
  by (simp_all add: same_vol_def say_def say_num_def bar_def)

lemma same_volD:
  assumes "same_vol st st'"
  shows "maxc st' = maxc st" "geom st' = geom st" "fat_sec f c st' = fat_sec f c st"
    "clus_sec c st' = clus_sec c st" "root_cluster st' = root_cluster st" "max_cluster st' = max_cluster st"
    "cluster_lba k st' = cluster_lba k st"
  using assms by (simp_all add: same_vol_def maxc_def geom_def fat_sec_def clus_sec_def max_cluster_def cluster_lba_def)

lemma unat_max_cluster:
  assumes "geom st"
  shows "unat (max_cluster st) = maxc st"
proof -
  have d: "unat (data_start st) \<le> 129024" and s: "0 < unat (sectors_per_cluster st)"
    using assms by (auto simp: geom_def)
  have "unat (HOME_SECTORS - data_start st) = 129024 - unat (data_start st)"
    using d by (subst unat_sub) (simp_all add: HOME_SECTORS_def word_le_nat_alt)
  then have e: "unat ((HOME_SECTORS - data_start st) div ucast (sectors_per_cluster st)) =
      (129024 - unat (data_start st)) div unat (sectors_per_cluster st)"
    by (simp add: unat_div)
  also have "\<dots> \<le> 129024" by (rule order_trans [OF div_le_dividend]) simp
  finally show ?thesis
    unfolding max_cluster_def maxc_def
    using e by (subst unat_add_lem [THEN iffD1]) simp_all
qed

lemma maxc_bound: "maxc st \<le> 129026"
  unfolding maxc_def using div_le_dividend [of "129024 - unat (data_start st)" "unat (sectors_per_cluster st)"]
  by linarith

lemma of_nat_unat_arith: "(a :: u32) = of_nat (unat a)"
  by simp

lemma fat_lba_nat:
  assumes "geom st" and "unat c < maxc st"
  shows "vol_start st + reserved st + of_nat f * fat_sectors st + c * 4 div 512 = of_nat (fat_sec f (unat c) st)"
proof -
  have c: "unat (c * 4) = unat c * 4"
    using assms(2) maxc_bound [of st] by (subst unat_mult_lem [THEN iffD1]) simp_all
  have "c * 4 div 512 = of_nat (unat (c * 4 div 512))" by simp
  also have "unat (c * 4 div 512) = unat c * 4 div 512" by (simp add: unat_div c)
  finally show ?thesis by (simp add: fat_sec_def mult.commute)
qed

lemma fat_pos_nat:
  fixes c :: u32
  assumes "unat c < maxc st"
  shows "unat (c * 4 mod 512) = 4 * unat c mod 512"
proof -
  have c: "unat (c * 4) = unat c * 4"
    using assms maxc_bound [of st] by (subst unat_mult_lem [THEN iffD1]) simp_all
  then show ?thesis by (simp add: unat_mod mult.commute)
qed

lemma cluster_lba_nat:
  assumes "2 \<le> unat c"
  shows "cluster_lba c st = of_nat (clus_sec (unat c) st)"
proof -
  have "unat (c - 2) = unat c - 2" using assms by (subst unat_sub) (simp_all add: word_le_nat_alt)
  then have "c - 2 = of_nat (unat c - 2)" using of_nat_unat_arith [of "c - 2"] by simp
  moreover have "(ucast (sectors_per_cluster st) :: u32) = of_nat (unat (sectors_per_cluster st))"
    by simp
  ultimately show ?thesis by (simp add: cluster_lba_def clus_sec_def)
qed

text \<open>The parts of a volume lie inside the 28-bit sector range and do not overlap.\<close>

lemma fat_entry_fits: "geom st \<Longrightarrow> c < maxc st \<Longrightarrow> 4 * c div 512 < unat (fat_sectors st)"
  by (auto simp: geom_def)

lemma fat_sec_lt_data:
  assumes "geom st" and "c < maxc st" and "f < unat (fat_count st)"
  shows "fat_sec f c st < unat (vol_start st) + unat (data_start st)"
proof -
  have "f * unat (fat_sectors st) + 4 * c div 512 < Suc f * unat (fat_sectors st)"
    using fat_entry_fits [OF assms(1,2)] by simp
  also have "\<dots> \<le> unat (fat_count st) * unat (fat_sectors st)"
    using assms(3) by (intro mult_le_mono1) simp
  finally show ?thesis using assms(1) by (simp add: fat_sec_def geom_def)
qed

lemma fat_sec_bound:
  "geom st \<Longrightarrow> c < maxc st \<Longrightarrow> f < unat (fat_count st) \<Longrightarrow> fat_sec f c st < 2 ^ 28"
  using fat_sec_lt_data [of st c f] by (simp add: geom_def)

lemma clus_sec_ge: "unat (vol_start st) + unat (data_start st) \<le> clus_sec c st"
  by (simp add: clus_sec_def)

lemma clus_sec_bound:
  assumes "geom st" and "2 \<le> c" and "c < maxc st"
  shows "clus_sec c st < 2 ^ 28"
proof -
  let ?s = "unat (sectors_per_cluster st)" and ?n = "129024 - unat (data_start st)"
  have s: "0 < ?s" using assms(1) by (simp add: geom_def)
  have "c - 2 < ?n div ?s" using assms(2,3) by (simp add: maxc_def)
  then have "Suc (c - 2) * ?s \<le> ?n div ?s * ?s" by (intro mult_le_mono1) simp
  also have "\<dots> \<le> ?n" by (rule div_times_less_eq_dividend)
  finally have "(c - 2) * ?s < ?n" using s by simp
  moreover have "unat (vol_start st) + 129024 \<le> 2 ^ 28" using assms(1) by (simp add: geom_def)
  ultimately show ?thesis unfolding clus_sec_def by linarith
qed

lemma clus_sec_inj:
  assumes "geom st" and "2 \<le> c" and "2 \<le> c'"
  shows "clus_sec c st = clus_sec c' st \<longleftrightarrow> c = c'"
  using assms by (auto simp: clus_sec_def geom_def)

lemma fat_sec_inj:
  assumes "geom st" and "c < maxc st" and "c' < maxc st"
  shows "fat_sec f c st = fat_sec f' c' st \<longleftrightarrow> f = f' \<and> 4 * c div 512 = 4 * c' div 512"
proof
  let ?n = "unat (fat_sectors st)"
  assume "fat_sec f c st = fat_sec f' c' st"
  then have e: "f * ?n + 4 * c div 512 = f' * ?n + 4 * c' div 512" by (simp add: fat_sec_def)
  then have "(f * ?n + 4 * c div 512) div ?n = (f' * ?n + 4 * c' div 512) div ?n" by simp
  then have "f = f'" using fat_entry_fits [OF assms(1,2)] fat_entry_fits [OF assms(1,3)]
    by (simp add: div_mult_self3)
  with e show "f = f' \<and> 4 * c div 512 = 4 * c' div 512" by simp
qed (simp add: fat_sec_def)

text \<open>What the sectors \<open>S\<close> say: the table entry and the data of a cluster.\<close>

definition F :: "(u32 \<Rightarrow> bytes) \<Rightarrow> 'd mini \<Rightarrow> nat \<Rightarrow> u32" where
  "F S st c = r32 (S (of_nat (fat_sec 0 c st))) (4 * c mod 512) AND 0x0FFFFFFF"

definition D :: "(u32 \<Rightarrow> bytes) \<Rightarrow> 'd mini \<Rightarrow> nat \<Rightarrow> bytes" where
  "D S st c = S (of_nat (clus_sec c st))"

lemma same_vol_FD:
  assumes "same_vol st st'"
  shows "F S st' c = F S st c" "D S st' c = D S st c"
  using same_volD [OF assms] by (simp_all add: F_def D_def)

lemma of_nat_28:
  assumes "m < 2 ^ 28" and "n < 2 ^ 28"
  shows "take_bit 28 (of_nat m :: u32) = take_bit 28 (of_nat n) \<longleftrightarrow> m = n"
proof -
  have "take_bit 28 (of_nat k :: u32) = of_nat k" if "k < 2 ^ 28" for k
    using that by (metis of_nat_take_bit take_bit_nat_eq_self)
  with assms show ?thesis using of_nat_eq_iff_u32 [of m n] by simp
qed

lemma rdS_frame [simp]: "same_vol st (snd (rdS ops l st))"
  by (simp add: rdS_def)

context sector_disk
begin

abbreviation SS :: "'d mini \<Rightarrow> u32 \<Rightarrow> bytes" where
  "SS st \<equiv> sec (disk st)"

lemma wr_at:
  assumes "ok d" and "length b = 512" and "n < 2 ^ 28" and "m < 2 ^ 28"
  shows "sec (snd (wr ops (of_nat n) b d)) (of_nat m) = (if m = n then b else sec d (of_nat m))"
  using assms of_nat_28 [OF assms(4,3)] by simp

lemma rdS_ok:
  assumes "ok (disk st)"
  shows "fst (rdS ops l st) = Some (SS st l)" "ok (disk (snd (rdS ops l st)))"
    "SS (snd (rdS ops l st)) = SS st" "same_vol st (snd (rdS ops l st))"
    "next_free_cluster (snd (rdS ops l st)) = next_free_cluster st"
  using assms by (simp_all add: rdS_def)

lemma wrS_ok:
  assumes "ok (disk st)" and "length b = 512"
  shows "fst (wrS ops l b st) = Some ()" "ok (disk (snd (wrS ops l b st)))"
    "same_vol st (snd (wrS ops l b st))"
    "next_free_cluster (snd (wrS ops l b st)) = next_free_cluster st"
  using assms by (simp_all add: wrS_def)

lemma wrS_at:
  assumes "ok (disk st)" and "length b = 512" and "n < 2 ^ 28" and "m < 2 ^ 28"
  shows "SS (snd (wrS ops (of_nat n) b st)) (of_nat m) = (if m = n then b else SS st (of_nat m))"
  using wr_at [OF assms] by (simp add: wrS_def)

lemma fat_get_ok:
  assumes "ok (disk st)" and "geom st" and "unat c < maxc st"
  shows "fst (fat_get ops c st) = F (SS st) st (unat c)" "ok (disk (snd (fat_get ops c st)))"
    "SS (snd (fat_get ops c st)) = SS st" "same_vol st (snd (fat_get ops c st))"
    "next_free_cluster (snd (fat_get ops c st)) = next_free_cluster st"
  using rdS_ok [OF assms(1)] fat_lba_nat [OF assms(2,3), of 0] fat_pos_nat [OF assms(3)]
  by (simp_all add: fat_get_def split_def Let_def F_def)

lemma set_copies_ok:
  assumes "ok (disk st)" and "geom st" and "unat c < maxc st" and "distinct fs"
    and "\<forall>f \<in> set fs. f < unat (fat_count st)"
  shows "\<exists>st'. set_copies ops (c * 4) v fs st = (Some (), st') \<and> same_vol st st' \<and> ok (disk st') \<and>
    next_free_cluster st' = next_free_cluster st \<and>
    (\<forall>m < 2 ^ 28. SS st' (of_nat m) =
       (if \<exists>f \<in> set fs. m = fat_sec f (unat c) st then w32 (SS st (of_nat m)) (4 * unat c mod 512) v
        else SS st (of_nat m)))"
  using assms
proof (induction fs arbitrary: st)
  case Nil
  then show ?case by simp
next
  case (Cons f fs)
  let ?n = "fat_sec f (unat c) st" and ?p = "4 * unat c mod 512"
  let ?st1 = "snd (rdS ops (of_nat ?n) st)"
  let ?b = "w32 (SS st (of_nat ?n)) ?p v"
  let ?st2 = "snd (wrS ops (of_nat ?n) ?b ?st1)"
  note g = Cons.prems(2) and c = Cons.prems(3)
  have f: "f < unat (fat_count st)" using Cons.prems(5) by simp
  have lb: "length ?b = 512" using sec_length [OF Cons.prems(1)] by simp
  note r = rdS_ok [OF Cons.prems(1), of "of_nat ?n"]
  note w = wrS_ok [OF r(2) lb, of "of_nat ?n"]
  have sv: "same_vol st ?st2" by (rule same_vol_trans [OF r(4) w(3)])
  have fc: "fat_count ?st2 = fat_count st" using sv by (simp add: same_vol_def)
  from Cons.IH [of ?st2] w(2) same_volD [OF sv] g c Cons.prems(4,5) fc
  obtain st' where st': "set_copies ops (c * 4) v fs ?st2 = (Some (), st')" "same_vol ?st2 st'"
     "ok (disk st')" "next_free_cluster st' = next_free_cluster ?st2"
     "\<And>m. m < 2 ^ 28 \<Longrightarrow> SS st' (of_nat m) =
       (if \<exists>f \<in> set fs. m = fat_sec f (unat c) st then w32 (SS ?st2 (of_nat m)) ?p v
        else SS ?st2 (of_nat m))"
    by auto
  have n28: "?n < 2 ^ 28" by (rule fat_sec_bound [OF g c f])
  have at: "SS ?st2 (of_nat m) = (if m = ?n then ?b else SS st (of_nat m))" if "m < 2 ^ 28" for m
    using wrS_at [OF r(2) lb n28 that] r(3) by simp
  have ne: "\<not> (\<exists>g \<in> set fs. ?n = fat_sec g (unat c) st)"
    using fat_sec_inj [OF g c c] Cons.prems(4) by auto
  have "set_copies ops (c * 4) v (f # fs) st = (Some (), st')"
    using st'(1) r w fat_lba_nat [OF g c, of f] fat_pos_nat [OF c] by (simp add: Let_def)
  moreover have "SS st' (of_nat m) =
     (if \<exists>f \<in> set (f # fs). m = fat_sec f (unat c) st then w32 (SS st (of_nat m)) ?p v else SS st (of_nat m))"
    if "m < 2 ^ 28" for m
    using st'(5) [OF that] at [OF that] ne by auto
  ultimately show ?case
    using st' sv same_vol_trans [OF sv st'(2)] r(5) w(4) by auto
qed

end

lemma mask28: "(v AND 0x0FFFFFFF) AND 0x0FFFFFFF = v AND 0x0FFFFFFF" for v :: u32
  by (simp add: and.assoc)

lemma entry_pos: "4 * c mod 512 = 4 * (c mod 128)" for c :: nat
  using mult_mod_right [of 4 c 128] by simp

lemma r32_w32_aligned:
  assumes "length b = 512"
  shows "r32 (w32 b (4 * c mod 512) v) (4 * c' mod 512) =
    (if 4 * c mod 512 = 4 * c' mod 512 then v else r32 b (4 * c' mod 512))"
proof (cases "c mod 128 = c' mod 128")
  case True
  have "c' mod 128 < 128" by simp
  then have "4 * (c' mod 128) + 3 < length b" using assms by linarith
  with True show ?thesis by (simp add: entry_pos)
next
  case False
  then have "4 * (c' mod 128) + 3 < 4 * (c mod 128) \<or> 4 * (c mod 128) + 3 < 4 * (c' mod 128)" by linarith
  with False show ?thesis unfolding entry_pos by simp
qed

lemma same_entry: "4 * c div 512 = 4 * c' div 512 \<Longrightarrow> 4 * c mod 512 = 4 * c' mod 512 \<Longrightarrow> c = (c' :: nat)"
  by (metis div_mult_mod_eq mult_left_cancel zero_neq_numeral)

context sector_disk
begin

text \<open>The effect of an operation on the volume: the table and the data of the clusters in range.\<close>

definition vol_step :: "'d mini \<Rightarrow> 'd mini \<Rightarrow> (nat \<Rightarrow> u32) \<Rightarrow> (nat \<Rightarrow> bytes) \<Rightarrow> bool" where
  "vol_step st st' f d \<longleftrightarrow> same_vol st st' \<and> ok (disk st') \<and>
     (\<forall>c < maxc st. F (SS st') st' c = f c) \<and> (\<forall>c. 2 \<le> c \<longrightarrow> c < maxc st \<longrightarrow> D (SS st') st' c = d c)"

abbreviation FF :: "'d mini \<Rightarrow> nat \<Rightarrow> u32" where "FF st \<equiv> F (SS st) st"
abbreviation DD :: "'d mini \<Rightarrow> nat \<Rightarrow> bytes" where "DD st \<equiv> D (SS st) st"

lemma fat_set_ok:
  assumes "ok (disk st)" and "geom st" and "unat c < maxc st"
  shows "fst (fat_set ops c v st) = Some ()"
    and "vol_step st (snd (fat_set ops c v st)) ((FF st)(unat c := v AND 0x0FFFFFFF)) (DD st)"
    and "next_free_cluster (snd (fat_set ops c v st)) = next_free_cluster st"
proof -
  let ?p = "4 * unat c mod 512" and ?fs = "[0..<unat (fat_count st)]"
  obtain st' where st': "fat_set ops c v st = (Some (), st')" "same_vol st st'" "ok (disk st')"
    "next_free_cluster st' = next_free_cluster st"
    and at: "\<And>m. m < 2 ^ 28 \<Longrightarrow> SS st' (of_nat m) =
       (if \<exists>f \<in> set ?fs. m = fat_sec f (unat c) st then w32 (SS st (of_nat m)) ?p v else SS st (of_nat m))"
    using set_copies_ok [OF assms, of ?fs v] by (auto simp: fat_set_def)
  have f0: "0 < unat (fat_count st)" using assms(2) by (simp add: geom_def)
  have "FF st' k = ((FF st)(unat c := v AND 0x0FFFFFFF)) k" if k: "k < maxc st" for k
  proof -
    have "SS st' (of_nat (fat_sec 0 k st)) = (if 4 * k div 512 = 4 * unat c div 512
        then w32 (SS st (of_nat (fat_sec 0 k st))) ?p v else SS st (of_nat (fat_sec 0 k st)))"
      using at [OF fat_sec_bound [OF assms(2) k f0]] fat_sec_inj [OF assms(2) k assms(3)] f0 by auto
    then show ?thesis
      using r32_w32_aligned [OF sec_length [OF assms(1)], of _ "unat c" v k] same_entry [of k "unat c"]
      by (auto simp: F_def same_volD [OF st'(2)])
  qed
  moreover have "DD st' k = DD st k" if k: "2 \<le> k" "k < maxc st" for k
  proof -
    have "clus_sec k st \<noteq> fat_sec f (unat c) st" if "f \<in> set ?fs" for f
      using fat_sec_lt_data [OF assms(2,3), of f] clus_sec_ge [of st k] that by auto
    then show ?thesis
      using at [OF clus_sec_bound [OF assms(2) k]] by (auto simp: D_def same_volD [OF st'(2)])
  qed
  ultimately show "vol_step st (snd (fat_set ops c v st)) ((FF st)(unat c := v AND 0x0FFFFFFF)) (DD st)"
    using st' by (simp add: vol_step_def)
  show "fst (fat_set ops c v st) = Some ()" "next_free_cluster (snd (fat_set ops c v st)) = next_free_cluster st"
    using st' by simp_all
qed

lemma write_cluster_ok:
  assumes "ok (disk st)" and "geom st" and "2 \<le> unat c" and "unat c < maxc st" and "length b = 512"
  shows "fst (wrS ops (cluster_lba c st) b st) = Some ()"
    and "vol_step st (snd (wrS ops (cluster_lba c st) b st)) (FF st) ((DD st)(unat c := b))"
    and "next_free_cluster (snd (wrS ops (cluster_lba c st) b st)) = next_free_cluster st"
proof -
  let ?n = "clus_sec (unat c) st" and ?st = "snd (wrS ops (cluster_lba c st) b st)"
  have lba: "cluster_lba c st = of_nat ?n" by (rule cluster_lba_nat [OF assms(3)])
  note w = wrS_ok [OF assms(1,5), of "cluster_lba c st"]
  have n: "?n < 2 ^ 28" by (rule clus_sec_bound [OF assms(2,3,4)])
  have at: "SS ?st (of_nat m) = (if m = ?n then b else SS st (of_nat m))" if "m < 2 ^ 28" for m
    unfolding lba by (rule wrS_at [OF assms(1,5) n that])
  have f0: "0 < unat (fat_count st)" using assms(2) by (simp add: geom_def)
  have "FF ?st k = FF st k" if k: "k < maxc st" for k
    using at [OF fat_sec_bound [OF assms(2) k f0]] fat_sec_lt_data [OF assms(2) k f0]
      clus_sec_ge [of st "unat c"] by (auto simp: F_def same_volD [OF w(3)])
  moreover have "DD ?st k = ((DD st)(unat c := b)) k" if k: "2 \<le> k" "k < maxc st" for k
    using at [OF clus_sec_bound [OF assms(2) k]] clus_sec_inj [OF assms(2) k(1) assms(3)]
    by (auto simp: D_def same_volD [OF w(3)])
  ultimately show "vol_step st ?st (FF st) ((DD st)(unat c := b))"
    using w by (simp add: vol_step_def)
  show "fst (wrS ops (cluster_lba c st) b st) = Some ()"
    "next_free_cluster ?st = next_free_cluster st" using w by simp_all
qed

lemma vol_stepD:
  assumes "vol_step st st' f d"
  shows "same_vol st st'" "ok (disk st')" "maxc st' = maxc st" "geom st' = geom st"
    "c < maxc st \<Longrightarrow> FF st' c = f c" "2 \<le> c \<Longrightarrow> c < maxc st \<Longrightarrow> DD st' c = d c"
  using assms same_volD [of st st'] by (auto simp: vol_step_def)

lemma vol_step_trans:
  assumes "vol_step st st1 f1 d1" and "vol_step st1 st2 f2 d2"
  shows "vol_step st st2 f2 d2"
  using assms same_volD [of st st1] same_vol_trans [of st st1 st2] by (auto simp: vol_step_def)

lemma vol_step_cong:
  assumes "vol_step st st' f d" and "\<And>c. c < maxc st \<Longrightarrow> f c = f' c"
    and "\<And>c. 2 \<le> c \<Longrightarrow> c < maxc st \<Longrightarrow> d c = d' c"
  shows "vol_step st st' f' d'"
  using assms by (auto simp: vol_step_def)

lemma vol_step_same: 
  assumes "same_vol st st'" and "SS st' = SS st" and "ok (disk st')"
  shows "vol_step st st' (FF st) (DD st)"
  using assms same_vol_FD [OF assms(1)] by (simp add: vol_step_def)

end

abbreviation EOC :: u32 where "EOC \<equiv> 0x0FFFFFFF"

text \<open>The free clusters that \<open>allocate_cluster\<close> may take.\<close>

definition free_set :: "(nat \<Rightarrow> u32) \<Rightarrow> nat \<Rightarrow> nat set" where
  "free_set f n = {c. 3 \<le> c \<and> c < n \<and> f c = 0}"

lemma finite_free_set [simp]: "finite (free_set f n)"
  by (rule finite_subset [of _ "{..<n}"]) (auto simp: free_set_def)

context sector_disk
begin

definition unchanged :: "'d mini \<Rightarrow> 'd mini \<Rightarrow> bool" where
  "unchanged st st' \<longleftrightarrow> vol_step st st' (FF st) (DD st)"

definition claimed :: "'d mini \<Rightarrow> 'd mini \<Rightarrow> u32 \<Rightarrow> bool" where
  "claimed st st' k \<longleftrightarrow> vol_step st st' ((FF st)(unat k := EOC)) ((DD st)(unat k := zeros 512))"

lemma unchanged_trans:
  assumes "unchanged st st1"
  shows "unchanged st1 st2 \<Longrightarrow> unchanged st st2" "claimed st1 st2 k \<Longrightarrow> claimed st st2 k"
proof -
  have v: "vol_step st st1 (FF st) (DD st)" using assms by (simp add: unchanged_def)
  note d = vol_stepD [OF v]
  show "unchanged st st2" if "unchanged st1 st2"
    unfolding unchanged_def
    by (rule vol_step_cong [OF vol_step_trans [OF v that [unfolded unchanged_def]]]) (simp_all add: d)
  show "claimed st st2 k" if "claimed st1 st2 k"
    unfolding claimed_def
    by (rule vol_step_cong [OF vol_step_trans [OF v that [unfolded claimed_def]]]) (simp_all add: d)
qed

lemma unchangedD:
  assumes "unchanged st st'"
  shows "ok (disk st')" "maxc st' = maxc st" "geom st' = geom st" "same_vol st st'"
    "c < maxc st \<Longrightarrow> FF st' c = FF st c"
  using vol_stepD [OF assms [unfolded unchanged_def]] by auto

lemma unchanged_update [simp]:
  "unchanged st (st'\<lparr>next_free_cluster := n\<rparr>) = unchanged st st'"
  "claimed st (st'\<lparr>next_free_cluster := n\<rparr>) k = claimed st st' k"
  by (simp_all add: unchanged_def claimed_def vol_step_def F_def D_def fat_sec_def clus_sec_def)

text \<open>One round of the search: the cluster is taken when its entry is zero.\<close>

lemma claim_ok:
  assumes "ok (disk st)" and "geom st" and "3 \<le> unat c" and "unat c < maxc st"
  shows "\<exists>st'. scan_free ops (Suc n) c st = (Some c, st') \<and> FF st (unat c) = 0 \<and> claimed st st' c \<or>
     FF st (unat c) \<noteq> 0 \<and> scan_free ops (Suc n) c st = scan_free ops n (c + 1) st' \<and> unchanged st st' \<and>
     next_free_cluster st' = next_free_cluster st"
proof -
  let ?st1 = "snd (fat_get ops c st)"
  note g = fat_get_ok [OF assms(1,2,4)]
  have v1: "vol_step st ?st1 (FF st) (DD st)" by (rule vol_step_same [OF g(4,3,2)])
  note d1 = vol_stepD [OF v1]
  show ?thesis
  proof (cases "FF st (unat c) = 0")
    case True
    let ?st2 = "snd (fat_set ops c EOC ?st1)"
    have c1: "unat c < maxc ?st1" "geom ?st1" "2 \<le> unat c" using assms d1 by auto
    note s = fat_set_ok [OF g(2) c1(2,1), of EOC]
    note d2 = vol_stepD [OF s(2)]
    have c2: "unat c < maxc ?st2" "geom ?st2" using c1 d2 by auto
    have z: "length (zeros 512) = 512" by simp
    note w = write_cluster_ok [OF d2(2) c2(2) c1(3) c2(1) z]
    let ?st3 = "snd (wrS ops (cluster_lba c ?st2) (zeros 512) ?st2)"
    have e: "scan_free ops (Suc n) c st = (Some c, ?st3\<lparr>next_free_cluster := c + 1\<rparr>)"
      using True g(1) w(1) by (simp add: split_def Let_def)
    have "vol_step st ?st3 (FF ?st2) ((DD ?st2)(unat c := zeros 512))"
      by (rule vol_step_trans [OF vol_step_trans [OF v1 s(2)] w(2)])
    then have "claimed st ?st3 c"
      unfolding claimed_def by (rule vol_step_cong) (simp_all add: d1 d2)
    with e True show ?thesis by (intro exI [of _ "?st3\<lparr>next_free_cluster := c + 1\<rparr>"]) simp
  next
    case False
    with g v1 show ?thesis by (intro exI [of _ ?st1]) (simp add: split_def Let_def unchanged_def)
  qed
qed

lemma scan_free_ok:
  assumes "ok (disk st)" and "geom st" and "3 \<le> unat c" and "unat c + n \<le> maxc st"
  shows "(\<exists>k st'. scan_free ops n c st = (Some k, st') \<and> unat c \<le> unat k \<and> unat k < unat c + n \<and>
      FF st (unat k) = 0 \<and> claimed st st' k) \<or>
    (\<exists>st'. scan_free ops n c st = (None, st') \<and> (\<forall>k. unat c \<le> k \<longrightarrow> k < unat c + n \<longrightarrow> FF st k \<noteq> 0) \<and>
      unchanged st st')"
  using assms
proof (induction n arbitrary: c st)
  case 0
  then show ?case by (auto simp: unchanged_def vol_step_same)
next
  case (Suc n)
  have c: "unat c < maxc st" using Suc.prems(4) by simp
  obtain st1 where cl: "scan_free ops (Suc n) c st = (Some c, st1) \<and> FF st (unat c) = 0 \<and> claimed st st1 c \<or>
     FF st (unat c) \<noteq> 0 \<and> scan_free ops (Suc n) c st = scan_free ops n (c + 1) st1 \<and> unchanged st st1"
    using claim_ok [OF Suc.prems(1-3) c, of n] by blast
  show ?case
  proof (cases "FF st (unat c) = 0")
    case True
    with cl show ?thesis by (intro disjI1 exI [of _ c] exI [of _ st1]) simp
  next
    case False
    with cl have e: "scan_free ops (Suc n) c st = scan_free ops n (c + 1) st1" and u: "unchanged st st1" by auto
    note d = unchangedD [OF u]
    have c1: "unat (c + 1) = unat c + 1"
      using c maxc_bound [of st] unat_add_lem [of c 1] by simp
    have p: "geom st1" "3 \<le> unat (c + 1)" "unat (c + 1) + n \<le> maxc st1" using d c1 Suc.prems by auto
    from Suc.IH [OF d(1) p] show ?thesis
    proof (elim disjE exE conjE)
      fix k st'
      assume a: "scan_free ops n (c + 1) st1 = (Some k, st')" "unat (c + 1) \<le> unat k"
        "unat k < unat (c + 1) + n" "FF st1 (unat k) = 0" "claimed st1 st' k"
      have "FF st (unat k) = 0" using a d c1 Suc.prems(4) by simp
      with a c1 e unchanged_trans(2) [OF u a(5)] show ?thesis
        by (intro disjI1 exI [of _ k] exI [of _ st']) simp
    next
      fix st'
      assume a: "scan_free ops n (c + 1) st1 = (None, st')"
        "\<forall>k. unat (c + 1) \<le> k \<longrightarrow> k < unat (c + 1) + n \<longrightarrow> FF st1 k \<noteq> 0" "unchanged st1 st'"
      have "FF st k \<noteq> 0" if "unat c \<le> k" "k < unat c + Suc n" for k
        using a(2) False d c1 that Suc.prems(4) by (cases "k = unat c") auto
      with a e unchanged_trans(1) [OF u a(3)] show ?thesis by (intro disjI2 exI [of _ st']) simp
    qed
  qed
qed

end

context sector_disk
begin

lemma allocate_cluster_ok:
  assumes "ok (disk st)" and "geom st"
  shows "\<exists>k st'. allocate_cluster ops st = (k, st') \<and>
    (if free_set (FF st) (maxc st) = {} then k = 0 \<and> unchanged st st'
     else unat k \<in> free_set (FF st) (maxc st) \<and> claimed st st' k)"
proof -
  define st1 where "st1 = (if next_free_cluster st < 3 \<or> next_free_cluster st \<ge> max_cluster st
    then st\<lparr>next_free_cluster := 3\<rparr> else st)"
  define s where "s = next_free_cluster st1"
  have mc: "unat (max_cluster st) = maxc st" by (rule unat_max_cluster [OF assms(2)])
  have u0: "unchanged st st" using assms(1) by (simp add: unchanged_def vol_step_same)
  then have u1: "unchanged st st1" by (simp add: st1_def)
  note d1 = unchangedD [OF u1]
  have m3: "2 < maxc st" using assms(2) by (simp add: geom_def)
  have s3: "3 \<le> unat s" and sm: "unat s \<le> max 3 (maxc st)"
    using mc m3 by (auto simp: s_def st1_def word_less_nat_alt word_le_nat_alt)
  have e: "allocate_cluster ops st = (let (r, st2) = scan_free ops (maxc st - unat s) s st1
     in case r of Some c \<Rightarrow> (c, st2)
         | None \<Rightarrow> (let (r, st3) = scan_free ops (unat s - 3) 3 st2
                    in (case r of Some c \<Rightarrow> c | None \<Rightarrow> 0, st3)))"
    by (simp only: allocate_cluster_def Let_def mc flip: s_def st1_def)
  have p: "geom st1" "unat s + (maxc st - unat s) \<le> maxc st1" using d1 assms(2) sm m3 by auto
  from scan_free_ok [OF d1(1) p(1) s3 p(2)] show ?thesis
  proof (elim disjE exE conjE)
    fix k st2
    assume a: "scan_free ops (maxc st - unat s) s st1 = (Some k, st2)" "unat s \<le> unat k"
      "unat k < unat s + (maxc st - unat s)" "FF st1 (unat k) = 0" "claimed st1 st2 k"
    have "unat k \<in> free_set (FF st) (maxc st)" using a s3 d1 by (auto simp: free_set_def)
    with a e unchanged_trans(2) [OF u1 a(5)] show ?thesis
      by (intro exI [of _ k] exI [of _ st2]) auto
  next
    fix st2
    assume a: "scan_free ops (maxc st - unat s) s st1 = (None, st2)"
      "\<forall>k. unat s \<le> k \<longrightarrow> k < unat s + (maxc st - unat s) \<longrightarrow> FF st1 k \<noteq> 0" "unchanged st1 st2"
    have u2: "unchanged st st2" by (rule unchanged_trans(1) [OF u1 a(3)])
    note d2 = unchangedD [OF u2]
    have p2: "geom st2" "3 \<le> unat (3::u32)" "unat (3::u32) + (unat s - 3) \<le> maxc st2"
      using d2 assms(2) s3 sm m3 by auto
    have hi: "FF st k \<noteq> 0" if "unat s \<le> k" "k < maxc st" for k
      using a(2) that d1 by auto
    from scan_free_ok [OF d2(1) p2] show ?thesis
    proof (elim disjE exE conjE)
      fix k st3
      assume b: "scan_free ops (unat s - 3) 3 st2 = (Some k, st3)" "unat (3::u32) \<le> unat k"
        "unat k < unat (3::u32) + (unat s - 3)" "FF st2 (unat k) = 0" "claimed st2 st3 k"
      have "unat k \<in> free_set (FF st) (maxc st)" using b sm m3 s3 d2 by (auto simp: free_set_def)
      with a b e unchanged_trans(2) [OF u2 b(5)] show ?thesis
        by (intro exI [of _ k] exI [of _ st3]) auto
    next
      fix st3
      assume b: "scan_free ops (unat s - 3) 3 st2 = (None, st3)"
        "\<forall>k. unat (3::u32) \<le> k \<longrightarrow> k < unat (3::u32) + (unat s - 3) \<longrightarrow> FF st2 k \<noteq> 0" "unchanged st2 st3"
      have "FF st k \<noteq> 0" if "3 \<le> k" "k < maxc st" for k
        using hi b(2) that s3 d2 by (cases "unat s \<le> k") auto
      then have "free_set (FF st) (maxc st) = {}" by (auto simp: free_set_def)
      with a b e unchanged_trans(1) [OF u2 b(3)] show ?thesis
        by (intro exI [of _ 0] exI [of _ st3]) auto
    qed
  qed
qed

end

text \<open>A cluster chain in a table, from its first cluster.\<close>

fun fchain :: "(nat \<Rightarrow> u32) \<Rightarrow> nat list \<Rightarrow> bool" where
  "fchain f [] = False"
| "fchain f [c] = (f c \<ge> 0x0FFFFFF8)"
| "fchain f (c # d # cs) = (f c = of_nat d \<and> fchain f (d # cs))"

definition pad512 :: "bytes \<Rightarrow> bytes" where
  "pad512 b = b @ zeros (512 - length b)"

lemma put_zeros: "length b \<le> 512 \<Longrightarrow> put (zeros 512) 0 b = pad512 b"
  by (simp add: put_eq_append pad512_def)

lemma fchain_cong: "(\<And>c. c \<in> set cs \<Longrightarrow> f c = g c) \<Longrightarrow> fchain f cs = fchain g cs"
  by (induction f cs rule: fchain.induct) auto

lemma chunks_length: "ck \<in> set (chunks data) \<Longrightarrow> length ck \<le> 512"
  by (induction data rule: chunks.induct) auto

lemma mask28_small: "unat k < 2 ^ 28 \<Longrightarrow> k AND 0x0FFFFFFF = k" for k :: u32
proof -
  assume "unat k < 2 ^ 28"
  then have "take_bit 28 k = k" by (simp add: word_unat_eq_iff unsigned_take_bit_eq take_bit_nat_eq_self)
  then show ?thesis by (simp add: take_bit_eq_mask mask_eq_exp_minus_1)
qed

lemma say_simps [simp]:
  "disk (say s st) = disk st" "disk (say_num n st) = disk st" "disk (bar p w st) = disk st"
  by (simp_all add: say_def say_num_def bar_def)

context sector_disk
begin

lemma unchanged_say:
  assumes "ok (disk st)"
  shows "unchanged st (say s st)" "unchanged st (say_num n st)" "unchanged st (bar p w st)"
  using assms by (simp_all add: unchanged_def vol_step_same)

text \<open>A file body laid out on the clusters \<open>cs\<close>.\<close>

definition stored :: "'d mini \<Rightarrow> 'd mini \<Rightarrow> nat list \<Rightarrow> bytes list \<Rightarrow> bool" where
  "stored st st' cs cks \<longleftrightarrow> same_vol st st' \<and> ok (disk st') \<and> length cs = length cks \<and> distinct cs \<and>
     fchain (FF st') cs \<and> map (DD st') cs = map pad512 cks \<and>
     (\<forall>c < maxc st. c \<notin> set cs \<longrightarrow> FF st' c = FF st c) \<and>
     (\<forall>c. 2 \<le> c \<longrightarrow> c < maxc st \<longrightarrow> c \<notin> set cs \<longrightarrow> DD st' c = DD st c)"

text \<open>One round of the copy loop that is not the last one: the next cluster is linked.\<close>

lemma store_round:
  assumes ok: "ok (disk st)" and g: "geom st" and t: "3 \<le> unat tail" "unat tail < maxc st"
    and te: "FF st (unat tail) \<noteq> 0" and ne: "free_set (FF st) (maxc st) \<noteq> {}"
    and ck: "length ck \<le> 512" and cks: "cks \<noteq> []"
  shows "\<exists>k st'. store_chunks ops tot (ck # cks) tail n pbar st =
      store_chunks ops tot cks k (n + 1) (max pbar ((n + 1) * 40 div tot)) st' \<and>
    unat k \<in> free_set (FF st) (maxc st) \<and>
    vol_step st st' ((FF st)(unat k := EOC, unat tail := k)) ((DD st)(unat tail := pad512 ck, unat k := zeros 512))"
proof -
  define w where "w = (n + 1) * 40 div tot"
  define st1 where "st1 = snd (wrS ops (cluster_lba tail st) (pad512 ck) st)"
  have l: "length (pad512 ck) = 512" using ck by (simp add: pad512_def)
  have t2: "2 \<le> unat tail" using t by simp
  note w1 = write_cluster_ok [OF ok g t2 t(2) l, folded st1_def]
  note d1 = vol_stepD [OF w1(2)]
  define st2 where "st2 = bar pbar w st1"
  have u2: "unchanged st1 st2" unfolding st2_def by (rule unchanged_say(3) [OF d1(2)])
  note v2 = vol_step_trans [OF w1(2) u2 [unfolded unchanged_def]]
  note d2 = vol_stepD [OF v2]
  have g2: "geom st2" using d2 g by simp
  have fs: "free_set (FF st2) (maxc st2) = free_set (FF st) (maxc st)"
    using d1 d2 by (auto simp: free_set_def)
  obtain k st3 where k: "allocate_cluster ops st2 = (k, st3)"
    "unat k \<in> free_set (FF st) (maxc st)" "claimed st2 st3 k"
    using allocate_cluster_ok [OF d2(2) g2] ne fs by auto
  have k3: "3 \<le> unat k" "unat k < maxc st" "FF st (unat k) = 0" using k(2) by (auto simp: free_set_def)
  then have k0: "k \<noteq> 0" and kt: "unat k \<noteq> unat tail" using te by auto
  note v3 = vol_step_trans [OF v2 k(3) [unfolded claimed_def]]
  note d3 = vol_stepD [OF v3]
  have p: "geom st3" "unat tail < maxc st3" using d3 g t by simp_all
  define st4 where "st4 = snd (fat_set ops tail k st3)"
  note w4 = fat_set_ok(2) [OF d3(2) p, of k, folded st4_def]
  note v4 = vol_step_trans [OF v3 w4]
  have km: "k AND 0x0FFFFFFF = k" using k3 maxc_bound [of st] by (intro mask28_small) simp
  have "store_chunks ops tot (ck # cks) tail n pbar st = store_chunks ops tot cks k (n + 1) (max pbar w) st4"
    using w1(1) k(1) k0 cks put_zeros [OF ck]
    by (simp add: Let_def st4_def st2_def st1_def w_def)
  moreover have "vol_step st st4 ((FF st)(unat k := EOC, unat tail := k))
      ((DD st)(unat tail := pad512 ck, unat k := zeros 512))"
    by (rule vol_step_cong [OF v4]) (use km kt d1 d2 d3 in \<open>simp_all\<close>)
  ultimately show ?thesis using k(2) unfolding w_def by blast
qed

lemma store_chunks_ok:
  assumes "ok (disk st)" and "geom st" and "3 \<le> unat tail" and "unat tail < maxc st"
    and "FF st (unat tail) = EOC" and "cks \<noteq> []" and "\<forall>ck \<in> set cks. length ck \<le> 512"
    and "length cks \<le> Suc (card (free_set (FF st) (maxc st)))"
  shows "\<exists>p st' cs. store_chunks ops tot cks tail n pbar st = (Some p, st') \<and>
    stored st st' (unat tail # cs) cks \<and> set cs \<subseteq> free_set (FF st) (maxc st)"
  using assms
proof (induction cks arbitrary: st tail n pbar)
  case (Cons ck cks)
  have ck: "length ck \<le> 512" using Cons.prems by simp
  have t2: "2 \<le> unat tail" using Cons.prems by simp
  show ?case
  proof (cases "cks = []")
    case True
    have l: "length (pad512 ck) = 512" using ck by (simp add: pad512_def)
    define st1 where "st1 = snd (wrS ops (cluster_lba tail st) (pad512 ck) st)"
    note w1 = write_cluster_ok [OF Cons.prems(1,2) t2 Cons.prems(4) l, folded st1_def]
    note d1 = vol_stepD [OF w1(2)]
    define w where "w = (n + 1) * 40 div tot"
    have u: "unchanged st1 (bar pbar w st1)" by (rule unchanged_say(3) [OF d1(2)])
    note v = vol_step_trans [OF w1(2) u [unfolded unchanged_def]]
    note d = vol_stepD [OF v]
    have "store_chunks ops tot (ck # cks) tail n pbar st = (Some (max pbar w), bar pbar w st1)"
      using w1(1) True put_zeros [OF ck] by (simp add: Let_def w_def st1_def)
    moreover have "stored st (bar pbar w st1) [unat tail] (ck # cks)"
      unfolding stored_def using True d d1 t2 Cons.prems(4,5) by simp
    ultimately show ?thesis by (intro exI [of _ "max pbar w"] exI [of _ "bar pbar w st1"] exI [of _ "[]"]) simp
  next
    case False
    let ?fs = "free_set (FF st) (maxc st)"
    have fne: "?fs \<noteq> {}" using Cons.prems(8) False by (cases cks) auto
    have te: "FF st (unat tail) \<noteq> 0" using Cons.prems(5) by simp
    obtain k st1 where e: "store_chunks ops tot (ck # cks) tail n pbar st =
        store_chunks ops tot cks k (n + 1) (max pbar ((n + 1) * 40 div tot)) st1"
      and k: "unat k \<in> ?fs"
      and v: "vol_step st st1 ((FF st)(unat k := EOC, unat tail := k))
         ((DD st)(unat tail := pad512 ck, unat k := zeros 512))"
      using store_round [OF Cons.prems(1-4) te fne ck False] by blast
    note d = vol_stepD [OF v]
    have k3: "3 \<le> unat k" "unat k < maxc st" "FF st (unat k) = 0" using k by (auto simp: free_set_def)
    then have kt: "unat k \<noteq> unat tail" and k0: "k \<noteq> 0" using Cons.prems(5) by auto
    have fs1: "free_set (FF st1) (maxc st1) = ?fs - {unat k}"
      using d(3,5) kt k0 Cons.prems(4,5) by (auto simp: free_set_def split: if_splits)
    have p: "geom st1" "unat k < maxc st1" "FF st1 (unat k) = EOC" "\<forall>ck \<in> set cks. length ck \<le> 512"
      "length cks \<le> Suc (card (free_set (FF st1) (maxc st1)))"
      using d(3-5) kt k3 k Cons.prems(2,7,8) fs1 by (simp_all add: card_Diff_singleton)
    obtain q st' cs where st': "store_chunks ops tot cks k (n + 1) (max pbar ((n + 1) * 40 div tot)) st1 = (Some q, st')"
      and s: "stored st1 st' (unat k # cs) cks" and cs: "set cs \<subseteq> free_set (FF st1) (maxc st1)"
      using Cons.IH [OF d(2) p(1) k3(1) p(2,3) False p(4,5)] by blast
    have sub: "set (unat k # cs) \<subseteq> ?fs" using cs fs1 k by auto
    have nt: "unat tail \<notin> set (unat k # cs)" using sub Cons.prems(5) by (auto simp: free_set_def)
    have ft: "FF st' (unat tail) = k" "DD st' (unat tail) = pad512 ck"
      using s nt d(3,5,6) kt t2 Cons.prems(4) by (simp_all add: stored_def)
    have "stored st st' (unat tail # unat k # cs) (ck # cks)"
      unfolding stored_def
    proof (intro conjI)
      show "same_vol st st'" using s d(1) same_vol_trans by (auto simp: stored_def)
      show "\<forall>c<maxc st. c \<notin> set (unat tail # unat k # cs) \<longrightarrow> FF st' c = FF st c"
        using s d(3,5) by (simp add: stored_def)
      show "\<forall>c\<ge>2. c < maxc st \<longrightarrow> c \<notin> set (unat tail # unat k # cs) \<longrightarrow> DD st' c = DD st c"
        using s d(3,6) by (simp add: stored_def)
    qed (use s nt ft in \<open>auto simp: stored_def\<close>)
    with st' e sub show ?thesis
      by (intro exI [of _ q] exI [of _ st'] exI [of _ "unat k # cs"]) simp
  qed
qed simp

end

section \<open>Directory sectors\<close>

lemma find_upt_Some:
  "List.find P [0..<n] = Some i \<longleftrightarrow> i < n \<and> P i \<and> (\<forall>j<i. \<not> P j)"
proof
  assume "List.find P [0..<n] = Some i"
  then obtain k where "k < n" "P k" "i = k" "\<forall>j<k. \<not> P ([0..<n] ! j)"
    by (auto simp: find_Some_iff)
  then show "i < n \<and> P i \<and> (\<forall>j<i. \<not> P j)" by auto
next
  assume "i < n \<and> P i \<and> (\<forall>j<i. \<not> P j)"
  then show "List.find P [0..<n] = Some i" by (auto simp: find_Some_iff intro!: exI [of _ i])
qed

lemma length_name83 [simp]: "length (name83 n out) = length out"
  by (simp add: name83_def Let_def)

lemma nth_name83:
  assumes "i < 11" and "11 \<le> length out"
  shows "name83 n out ! i = name83 n (zeros 11) ! i"
proof -
  define b where "b = map upper83 (take 8 (takeWhile (\<lambda>c. c \<noteq> CHR ''.'' \<and> c \<noteq> CHR ''/'') n))"
  define e where "e = map upper83 (take 3 (tl (dropWhile (\<lambda>c. c \<noteq> CHR ''.'') (drop (length b) n))))"
  have l: "length b \<le> 8" "length e \<le> 3" by (simp_all add: b_def e_def)
  have "name83 n out = put (put (put out 0 (replicate 11 32)) 0 b) 8 e" for out
    by (simp add: name83_def Let_def b_def e_def)
  then show ?thesis using l assms by (simp add: nth_put)
qed

lemma take_name83: "11 \<le> length out \<Longrightarrow> take 11 (name83 n out) = name83 n (zeros 11)"
  using nth_name83 [of _ out n] by (intro nth_equalityI) simp_all

lemma length_dir_entry [simp]: "length (dir_entry name sz clus) = 32"
  by (simp add: dir_entry_def)

lemma dir_entry_name: "take 11 (dir_entry name sz clus) = name83 name (zeros 11)"
proof (rule nth_equalityI)
  fix i
  assume "i < length (take 11 (dir_entry name sz clus))"
  then have "i < 11" by simp
  then show "take 11 (dir_entry name sz clus) ! i = name83 name (zeros 11) ! i"
    using nth_name83 [of i "zeros 32" name] by (simp add: dir_entry_def)
qed simp

lemma dir_entry_size: "r32 (dir_entry name sz clus) 28 = sz"
  by (simp add: dir_entry_def)

lemma dir_entry_cluster: "entry_cluster (dir_entry name sz clus) 0 = clus"
proof -
  have "take_bit 16 clus OR push_bit 16 (take_bit 16 (drop_bit 16 clus)) = clus"
    by (rule bit_word_eqI) (auto simp: bit_simps)
  then show ?thesis by (simp add: entry_cluster_def dir_entry_def)
qed

lemma r16_put: "p + length e \<le> length b \<Longrightarrow> i + 1 < length e \<Longrightarrow> r16 (put b p e) (p + i) = r16 e i"
  by (simp add: r16_def nth_put)

lemma r32_put: "p + length e \<le> length b \<Longrightarrow> i + 3 < length e \<Longrightarrow> r32 (put b p e) (p + i) = r32 e i"
  using r16_put [of p e b i] r16_put [of p e b "i + 2"] by (simp add: r32_def add.assoc)

text \<open>The root sector after an entry was put into the first free slot, when no earlier slot has the
  same name.\<close>

lemma new_slot:
  assumes len: "length R = 512" and key: "length e = 32" "take 11 e = key" "e ! 0 \<noteq> 0" "e ! 0 \<noteq> 0xE5"
    and fs: "free_slot R = Some i" and nm: "\<And>k. k < i \<Longrightarrow> take 11 (drop (k * 32) R) \<noteq> key"
  shows "slot_of key (put R (i * 32) e) = Some i"
proof -
  from fs have i: "i < 16" by (auto simp: free_slot_def find_upt_Some)
  have fits: "i * 32 + length e \<le> length R" using i len key(1) by simp
  have d: "take 11 (drop (i * 32) (put R (i * 32) e)) = key"
    using fits key(1,2) by (simp add: put_eq_append)
  have h: "put R (i * 32) e ! (i * 32) = e ! 0" using fits key(1) by (simp add: nth_put)
  have o: "take 11 (drop (k * 32) (put R (i * 32) e)) = take 11 (drop (k * 32) R)" if "k < i" for k
    by (rule nth_equalityI) (use that fits in \<open>auto simp: nth_put\<close>)
  show ?thesis
    unfolding slot_of_def find_upt_Some using i d h key o nm by auto
qed

text \<open>Removing the first entry of a name leaves no entry of it before the first free slot.\<close>

lemma removed_slot:
  assumes len: "length R = 512"
    and R1: "R1 = (case slot_of key R of None \<Rightarrow> R | Some j \<Rightarrow> R[j * 32 := 0xE5])"
    and fs: "free_slot R1 = Some i" and k: "k < i"
  shows "take 11 (drop (k * 32) R1) \<noteq> key"
proof -
  from fs have i: "i < 16" and used: "\<And>k. k < i \<Longrightarrow> R1 ! (k * 32) \<noteq> 0 \<and> R1 ! (k * 32) \<noteq> 0xE5"
    by (auto simp: free_slot_def find_upt_Some)
  show ?thesis
  proof (cases "slot_of key R")
    case None
    then have "\<not> (R ! (k * 32) \<noteq> 0 \<and> R ! (k * 32) \<noteq> 0xE5 \<and> take 11 (drop (k * 32) R) = key)"
      using k i by (auto simp: slot_of_def find_None_iff)
    with None R1 used [OF k] show ?thesis by simp
  next
    case (Some j)
    then have j: "j < 16" "\<And>m. m < j \<Longrightarrow> \<not> (R ! (m * 32) \<noteq> 0 \<and> R ! (m * 32) \<noteq> 0xE5 \<and> take 11 (drop (m * 32) R) = key)"
      by (auto simp: slot_of_def find_upt_Some)
    have "R1 ! (j * 32) = 0xE5" using R1 Some len j(1) by simp
    with used have "\<not> j < i" by auto
    then have kj: "k < j" using k by simp
    then have "take 11 (drop (k * 32) R1) = take 11 (drop (k * 32) R)" "R1 ! (k * 32) = R ! (k * 32)"
      using R1 Some by (simp_all add: take_drop drop_update_swap)
    with j(2) [OF kj] used [OF k] show ?thesis by simp
  qed
qed

text \<open>The entries of the other names stay where they are.\<close>

definition entry_at :: "bytes \<Rightarrow> nat \<Rightarrow> bytes" where
  "entry_at R k = take 32 (drop (k * 32) R)"

lemma entry_at_facts:
  assumes "length R = 512" "k < 16"
  shows "R ! (k * 32) = entry_at R k ! 0" "take 11 (drop (k * 32) R) = take 11 (entry_at R k)"
  using assms by (simp_all add: entry_at_def)

lemma entry_at_put:
  assumes "length R = 512" "length e = 32" "i < 16" "k < 16"
  shows "entry_at (put R (i * 32) e) k = (if k = i then e else entry_at R k)"
proof (rule nth_equalityI)
  show "length (entry_at (put R (i * 32) e) k) = length (if k = i then e else entry_at R k)"
    using assms by (simp add: entry_at_def)
  fix n assume "n < length (entry_at (put R (i * 32) e) k)"
  then have n: "n < 32" "k * 32 + n < 512" using assms by (auto simp: entry_at_def)
  have "i * 32 \<le> k * 32 + n \<and> k * 32 + n < i * 32 + 32 \<longleftrightarrow> k = i" using n(1) by auto
  then show "entry_at (put R (i * 32) e) k ! n = (if k = i then e else entry_at R k) ! n"
    using assms n by (auto simp: entry_at_def nth_put)
qed

lemma entry_at_mark:
  assumes "length R = 512" "j < 16" "k < 16"
  shows "entry_at (R[j * 32 := 0xE5]) k = (if k = j then (entry_at R k)[0 := 0xE5] else entry_at R k)"
proof (rule nth_equalityI)
  fix n assume "n < length (entry_at (R[j * 32 := 0xE5]) k)"
  then have n: "n < 32" "k * 32 + n < 512" using assms by (auto simp: entry_at_def)
  have "k * 32 + n = j * 32 \<longleftrightarrow> k = j \<and> n = 0" using n(1) by presburger
  then show "entry_at (R[j * 32 := 0xE5]) k ! n = (if k = j then (entry_at R k)[0 := 0xE5] else entry_at R k) ! n"
    using assms n by (auto simp: entry_at_def nth_list_update)
qed (simp add: entry_at_def)

lemma slot_of_entries:
  assumes "length R = 512"
  shows "slot_of key R = List.find (\<lambda>k. entry_at R k ! 0 \<noteq> 0 \<and> entry_at R k ! 0 \<noteq> 0xE5 \<and> take 11 (entry_at R k) = key) [0..<16]"
  unfolding slot_of_def by (rule find_cong) (use entry_at_facts [OF assms] in auto)

lemma other_slots:
  assumes len: "length R = 512" and key: "length e = 32" "take 11 e = key"
    and R1: "R1 = (case slot_of key R of None \<Rightarrow> R | Some j \<Rightarrow> R[j * 32 := 0xE5])"
    and fs: "free_slot R1 = Some i" and other: "key' \<noteq> key"
  shows "slot_of key' (put R1 (i * 32) e) = slot_of key' R"
    and "slot_of key' R = Some k \<Longrightarrow> entry_at (put R1 (i * 32) e) k = entry_at R k"
proof -
  let ?R = "put R1 (i * 32) e"
  let ?P = "\<lambda>Q k. entry_at Q k ! 0 \<noteq> 0 \<and> entry_at Q k ! 0 \<noteq> 0xE5 \<and> take 11 (entry_at Q k) = key'"
  have len1: "length R1 = 512" "length ?R = 512" using len by (simp_all add: R1 split: option.split)
  have i: "i < 16" "R1 ! (i * 32) = 0 \<or> R1 ! (i * 32) = 0xE5" using fs by (auto simp: free_slot_def find_upt_Some)
  have e1: "entry_at R1 k = (if slot_of key R = Some k then (entry_at R k)[0 := 0xE5] else entry_at R k)" if "k < 16" for k
  proof (cases "slot_of key R")
    case (Some j)
    then have "j < 16" by (auto simp: slot_of_def find_upt_Some)
    with Some show ?thesis using entry_at_mark [OF len _ that] by (simp add: R1)
  qed (simp add: R1)
  have old: "take 11 (entry_at R j) = key" if "slot_of key R = Some j" for j
    using that unfolding slot_of_entries [OF len] find_upt_Some by simp
  have same: "?P ?R k \<longleftrightarrow> ?P R k" and keep: "?P R k \<Longrightarrow> entry_at ?R k = entry_at R k" if k: "k < 16" for k
  proof -
    have l: "length (entry_at R k) = 32" using len k by (simp add: entry_at_def)
    have r: "entry_at ?R k = (if k = i then e else entry_at R1 k)" by (rule entry_at_put [OF len1(1) key(1) i(1) k])
    have u: "\<not> ?P R i" using i e1 [OF i(1)] old [of i] other entry_at_facts(1) [OF len1(1) i(1)] by (auto split: if_splits)
    show "?P ?R k \<longleftrightarrow> ?P R k" and "?P R k \<Longrightarrow> entry_at ?R k = entry_at R k"
      using r e1 [OF k] old [of k] other key u l by (auto split: if_splits)
  qed
  show s: "slot_of key' ?R = slot_of key' R"
    unfolding slot_of_entries [OF len] slot_of_entries [OF len1(2)] by (rule find_cong) (use same in auto)
  show "entry_at ?R k = entry_at R k" if "slot_of key' R = Some k"
    using that keep [of k] unfolding slot_of_entries [OF len] find_upt_Some by simp
qed

lemma file_bytes: "take (length data) (concat (map pad512 (chunks data))) = data"
proof (induction data rule: chunks.induct)
  case (2 x xs)
  show ?case
  proof (cases "length (x # xs) \<le> 512")
    case True
    then show ?thesis by (simp add: pad512_def)
  next
    case False
    then have p: "pad512 (take 512 (x # xs)) = take 512 (x # xs)" by (simp add: pad512_def)
    have d: "drop 511 xs = drop 512 (x # xs)" by simp
    have "take (length (x # xs)) (concat (map pad512 (chunks (x # xs)))) =
      take 512 (x # xs) @ take (length (drop 511 xs)) (concat (map pad512 (chunks (drop 511 xs))))"
      using False p by simp
    also have "\<dots> = take 512 (x # xs) @ drop 511 xs" by (simp only: 2)
    also have "\<dots> = x # xs" unfolding d by (rule append_take_drop_id)
    finally show ?thesis .
  qed
qed simp

text \<open>The contents of the root directory sector, and a table that never points to it.\<close>

definition rootdir :: "(u32 \<Rightarrow> bytes) \<Rightarrow> 'd mini \<Rightarrow> bytes" where
  "rootdir S st = D S st (unat (root_cluster st))"

definition root_private :: "(u32 \<Rightarrow> bytes) \<Rightarrow> 'd mini \<Rightarrow> bool" where
  "root_private S st \<longleftrightarrow> F S st (unat (root_cluster st)) \<noteq> 0 \<and>
     (\<forall>c < maxc st. F S st c \<noteq> root_cluster st) \<and>
     (\<forall>i < 16. entry_cluster (rootdir S st) i \<noteq> root_cluster st)"

text \<open>The clusters a table leads to from a first one, and those of the file of a name.\<close>

inductive_set chain_of :: "(nat \<Rightarrow> u32) \<Rightarrow> nat \<Rightarrow> nat set" for f :: "nat \<Rightarrow> u32" and c :: nat where
  first: "c \<in> chain_of f c"
| next_cluster: "k \<in> chain_of f c \<Longrightarrow> 2 \<le> f k \<Longrightarrow> f k < 0x0FFFFFF8 \<Longrightarrow> unat (f k) \<in> chain_of f c"

definition old_chain :: "(u32 \<Rightarrow> bytes) \<Rightarrow> 'd mini \<Rightarrow> string \<Rightarrow> nat set" where
  "old_chain S st name = (case slot_of (name83 name (zeros 11)) (rootdir S st) of None \<Rightarrow> {}
     | Some j \<Rightarrow> chain_of (F S st) (unat (entry_cluster (rootdir S st) j)))"

context sector_disk
begin

abbreviation RR :: "'d mini \<Rightarrow> bytes" where "RR st \<equiv> rootdir (SS st) st"

lemma geom_root:
  assumes "geom st"
  shows "2 \<le> unat (root_cluster st)" "unat (root_cluster st) < maxc st"
    "SS st (cluster_lba (root_cluster st) st) = RR st"
  using assms cluster_lba_nat [of "root_cluster st" st] by (auto simp: geom_def rootdir_def D_def)

lemma find_entry_ok:
  assumes "ok (disk st)" and "geom st"
  shows "fst (find_entry ops name st) = map_option (Pair (RR st)) (slot_of (name83 name (zeros 11)) (RR st))"
    and "unchanged st (snd (find_entry ops name st))"
  using rdS_ok [OF assms(1)] geom_root(3) [OF assms(2)]
  by (simp_all add: find_entry_def unchanged_def vol_step_same)

text \<open>Freeing a chain that does not contain the root directory only zeroes table entries of the chain.\<close>

definition freed :: "nat set \<Rightarrow> 'd mini \<Rightarrow> 'd mini \<Rightarrow> bool" where
  "freed X st st' \<longleftrightarrow> same_vol st st' \<and> ok (disk st') \<and>
     (\<forall>c < maxc st. FF st' c = FF st c \<or> FF st' c = 0 \<and> c \<in> X) \<and>
     FF st' (unat (root_cluster st)) = FF st (unat (root_cluster st)) \<and>
     (\<forall>c. 2 \<le> c \<longrightarrow> c < maxc st \<longrightarrow> DD st' c = DD st c)"

lemma freed_trans:
  assumes "freed X st st1" and "freed X st1 st2"
  shows "freed X st st2"
proof -
  have s: "same_vol st st1" "same_vol st1 st2" using assms by (simp_all add: freed_def)
  have m: "maxc st1 = maxc st" "root_cluster st1 = root_cluster st" using same_volD [OF s(1)] by simp_all
  have "FF st2 c = FF st c \<or> FF st2 c = 0 \<and> c \<in> X" if "c < maxc st" for c
  proof -
    have "FF st2 c = FF st1 c \<or> FF st2 c = 0 \<and> c \<in> X" "FF st1 c = FF st c \<or> FF st1 c = 0 \<and> c \<in> X"
      using assms that m by (simp_all add: freed_def)
    then show ?thesis by metis
  qed
  moreover have "DD st2 c = DD st c" if "2 \<le> c" "c < maxc st" for c
    using assms that m by (simp add: freed_def)
  ultimately show ?thesis using assms m same_vol_trans [OF s] by (simp add: freed_def)
qed

lemma free_chain_ok:
  assumes "ok (disk st)" and "geom st" and "c \<noteq> root_cluster st"
    and "\<forall>k < maxc st. FF st k \<noteq> root_cluster st" and "unat c \<in> X"
    and "\<forall>k < maxc st. k \<in> X \<longrightarrow> 2 \<le> FF st k \<longrightarrow> FF st k < 0x0FFFFFF8 \<longrightarrow> unat (FF st k) \<in> X"
  shows "\<exists>st'. free_chain ops (max_cluster st) n c st = (Some (), st') \<and> freed X st st'"
  using assms
proof (induction n arbitrary: c st)
  case 0
  then show ?case by (simp add: freed_def)
next
  case (Suc n)
  show ?case
  proof (cases "c \<ge> 2 \<and> c < max_cluster st")
    case False
    with Suc.prems show ?thesis by (auto simp: freed_def)
  next
    case True
    then have c: "unat c < maxc st" "2 \<le> unat c"
      using unat_max_cluster [OF Suc.prems(2)] by (auto simp: word_less_nat_alt word_le_nat_alt)
    let ?st1 = "snd (fat_get ops c st)"
    note g = fat_get_ok [OF Suc.prems(1,2) c(1)]
    have v1: "vol_step st ?st1 (FF st) (DD st)" by (rule vol_step_same [OF g(4,3,2)])
    note d1 = vol_stepD [OF v1]
    have p1: "geom ?st1" "unat c < maxc ?st1" using d1 c Suc.prems(2) by simp_all
    define st2 where "st2 = snd (fat_set ops c 0 ?st1)"
    note s = fat_set_ok(1,2) [OF g(2) p1, of 0, folded st2_def]
    note v2 = vol_step_trans [OF v1 s(2)]
    note d2 = vol_stepD [OF v2]
    have cr: "unat c \<noteq> unat (root_cluster st)" using Suc.prems(3) by (simp add: word_unat_eq_iff)
    have f2: "FF st2 k = (if k = unat c then 0 else FF st k)" if "k < maxc st" for k
      using d2(5) [OF that] d1(5) [OF that] by simp
    have fr: "freed X st st2"
      unfolding freed_def using d2(1,2,6) d1(6) f2 cr geom_root(2) [OF Suc.prems(2)] Suc.prems(5) by simp
    have mc: "max_cluster st2 = max_cluster st" and rc: "root_cluster st2 = root_cluster st"
      using same_volD [OF d2(1)] by simp_all
    define x where "x = FF st (unat c)"
    have e: "free_chain ops (max_cluster st) (Suc n) c st =
       (if x \<ge> 0x0FFFFFF8 \<or> x < 2 then (Some (), st2) else free_chain ops (max_cluster st) n x st2)"
      using True g(1) s(1) by (simp add: split_def Let_def st2_def x_def)
    show ?thesis
    proof (cases "x \<ge> 0x0FFFFFF8 \<or> x < 2")
      case True
      with e fr show ?thesis by auto
    next
      case False
      have p2: "geom st2" "x \<noteq> root_cluster st2" "\<forall>k < maxc st2. FF st2 k \<noteq> root_cluster st2"
        using d2(3,4) f2 rc Suc.prems(2,4) c geom_root(1) [OF Suc.prems(2)] by (auto simp: x_def)
      have x2: "unat x \<in> X" using Suc.prems(5,6) False c(1) by (auto simp: x_def)
      have cl: "\<forall>k < maxc st2. k \<in> X \<longrightarrow> 2 \<le> FF st2 k \<longrightarrow> FF st2 k < 0x0FFFFFF8 \<longrightarrow> unat (FF st2 k) \<in> X"
        using Suc.prems(6) f2 d2(3) by simp
      from Suc.IH [OF d2(2) p2 x2 cl] mc obtain st'
        where st': "free_chain ops (max_cluster st) n x st2 = (Some (), st')" and fr': "freed X st2 st'" by auto
      have "freed X st st'" by (rule freed_trans [OF fr fr'])
      with st' e False show ?thesis by auto
    qed
  qed
qed

lemma freedD:
  assumes "freed X st st'" and "geom st"
  shows "same_vol st st'" "ok (disk st')" "geom st'" "maxc st' = maxc st" "RR st' = RR st"
    "root_cluster st' = root_cluster st" "free_set (FF st) (maxc st) \<subseteq> free_set (FF st') (maxc st)"
proof -
  from assms(1) have s: "same_vol st st'" by (simp add: freed_def)
  note sv = same_volD [OF s]
  show "same_vol st st'" "ok (disk st')" "geom st'" "maxc st' = maxc st" "root_cluster st' = root_cluster st"
    using assms sv by (auto simp: freed_def)
  show "RR st' = RR st" using assms geom_root(1,2) [OF assms(2)] sv by (simp add: freed_def rootdir_def)
  show "free_set (FF st) (maxc st) \<subseteq> free_set (FF st') (maxc st)"
    using assms(1) by (fastforce simp: freed_def free_set_def)
qed

end

text \<open>The volume holds a file: its directory entry, its cluster chain and its bytes.\<close>

definition holds_file :: "(u32 \<Rightarrow> bytes) \<Rightarrow> 'd mini \<Rightarrow> string \<Rightarrow> bytes \<Rightarrow> nat list \<Rightarrow> bool" where
  "holds_file S st name data cs \<longleftrightarrow>
     (\<exists>slot < 16. slot_of (name83 name (zeros 11)) (rootdir S st) = Some slot \<and>
        r32 (rootdir S st) (slot * 32 + 28) = of_nat (length data) \<and>
        entry_cluster (rootdir S st) slot = of_nat (hd cs)) \<and>
     fchain (F S st) cs \<and> distinct cs \<and> set cs \<subseteq> {3..<maxc st} \<and>
     take (length data) (concat (map (D S st) cs)) = data"

context sector_disk
begin

lemma remove_old_ok:
  assumes "ok (disk st)" and "geom st" and "root_private (SS st) st"
  shows "\<exists>st' st1. remove_old ops name st = (Some (), st') \<and> freed (old_chain (SS st) st name) st st1 \<and>
    (case slot_of (name83 name (zeros 11)) (RR st) of None \<Rightarrow> unchanged st st' \<and> st' = st1
     | Some j \<Rightarrow> j < 16 \<and> vol_step st1 st' (FF st1) ((DD st1)(unat (root_cluster st) := (RR st)[j * 32 := 0xE5])))"
proof -
  let ?key = "name83 name (zeros 11)"
  define st0 where "st0 = snd (find_entry ops name st)"
  note fe = find_entry_ok [OF assms(1,2), of name, folded st0_def]
  note d0 = unchangedD [OF fe(2)]
  let ?X = "old_chain (SS st) st name"
  have fr0: "freed ?X st st0"
    using d0(1,4,5) geom_root [OF assms(2)] vol_stepD(6) [OF fe(2) [unfolded unchanged_def]]
    unfolding freed_def by simp
  show ?thesis
  proof (cases "slot_of ?key (RR st)")
    case None
    then have "remove_old ops name st = (Some (), st0)"
      using fe(1) by (simp add: remove_old_def split_def Let_def st0_def)
    with None fr0 fe(2) show ?thesis by auto
  next
    case (Some j)
    then have j: "j < 16" by (auto simp: slot_of_def find_upt_Some)
    note s0 = same_volD [OF d0(4)]
    have ec: "entry_cluster (RR st) j \<noteq> root_cluster st0"
      using assms(3) j s0 by (simp add: root_private_def)
    have nr: "\<forall>k < maxc st0. FF st0 k \<noteq> root_cluster st0"
      using assms(3) d0(5) s0 by (simp add: root_private_def)
    have g0: "geom st0" using s0 assms(2) by simp
    have x0: "unat (entry_cluster (RR st) j) \<in> ?X"
      "\<forall>k < maxc st0. k \<in> ?X \<longrightarrow> 2 \<le> FF st0 k \<longrightarrow> FF st0 k < 0x0FFFFFF8 \<longrightarrow> unat (FF st0 k) \<in> ?X"
      using Some d0(2,5) by (auto simp: old_chain_def intro: chain_of.intros)
    obtain st1 where fc: "free_chain ops (max_cluster st0) (unat (max_cluster st0)) (entry_cluster (RR st) j) st0
        = (Some (), st1)" and fr1: "freed ?X st0 st1"
      using free_chain_ok [OF d0(1) g0 ec nr x0] by blast
    have fr: "freed ?X st st1" by (rule freed_trans [OF fr0 fr1])
    note f1 = freedD [OF fr assms(2)]
    have l: "length ((RR st)[j * 32 := 0xE5]) = 512"
      using sec_length [OF assms(1)] geom_root(3) [OF assms(2)] by (simp flip: geom_root(3) [OF assms(2)])
    note w = write_cluster_ok [OF f1(2,3) geom_root(1,2) [OF f1(3)] l]
    define st2 where "st2 = snd (wrS ops (cluster_lba (root_cluster st1) st1) ((RR st)[j * 32 := 0xE5]) st1)"
    have "remove_old ops name st = (Some (), st2)"
      using fe(1) Some fc w(1) by (simp add: remove_old_def split_def Let_def st0_def [symmetric] st2_def prod_eq_iff)
    with w(2) Some j fr f1(6) show ?thesis by (auto simp: st2_def)
  qed
qed

lemma remove_old_summary:
  assumes "ok (disk st)" and "geom st" and "root_private (SS st) st"
  shows "\<exists>st'. remove_old ops name st = (Some (), st') \<and> same_vol st st' \<and> ok (disk st') \<and>
    RR st' = (case slot_of (name83 name (zeros 11)) (RR st) of None \<Rightarrow> RR st | Some j \<Rightarrow> (RR st)[j * 32 := 0xE5]) \<and>
    FF st' (unat (root_cluster st)) \<noteq> 0 \<and> free_set (FF st) (maxc st) \<subseteq> free_set (FF st') (maxc st) \<and>
    (\<forall>c < maxc st. c \<notin> old_chain (SS st) st name \<longrightarrow> FF st' c = FF st c) \<and>
    (\<forall>c. 2 \<le> c \<longrightarrow> c < maxc st \<longrightarrow> c \<noteq> unat (root_cluster st) \<longrightarrow> DD st' c = DD st c)"
proof -
  let ?key = "name83 name (zeros 11)"
  obtain st' st1 where r: "remove_old ops name st = (Some (), st')" and fr: "freed (old_chain (SS st) st name) st st1"
    and c: "case slot_of ?key (RR st) of None \<Rightarrow> unchanged st st' \<and> st' = st1
     | Some j \<Rightarrow> j < 16 \<and> vol_step st1 st' (FF st1) ((DD st1)(unat (root_cluster st) := (RR st)[j * 32 := 0xE5]))"
    using remove_old_ok [OF assms] by blast
  note f1 = freedD [OF fr assms(2)]
  have r1: "FF st1 (unat (root_cluster st)) \<noteq> 0"
    using fr assms(3) by (simp add: freed_def root_private_def)
  have k1: "FF st1 c = FF st c" if "c < maxc st" "c \<notin> old_chain (SS st) st name" for c
    using fr that by (auto simp: freed_def)
  have e1: "DD st1 c = DD st c" if "2 \<le> c" "c < maxc st" for c using fr that by (auto simp: freed_def)
  show ?thesis
  proof (cases "slot_of ?key (RR st)")
    case None
    with c have u: "unchanged st st' \<and> st' = st1" by auto
    with None r f1 r1 k1 e1 show ?thesis by auto
  next
    case (Some j)
    with c have v: "vol_step st1 st' (FF st1) ((DD st1)(unat (root_cluster st) := (RR st)[j * 32 := 0xE5]))" by simp
    note d = vol_stepD [OF v]
    have sv: "same_vol st st'" by (rule same_vol_trans [OF f1(1) d(1)])
    have rt: "2 \<le> unat (root_cluster st)" "unat (root_cluster st) < maxc st1"
      using geom_root [OF assms(2)] f1(4) by simp_all
    have "RR st' = (RR st)[j * 32 := 0xE5]"
      using d(6) [OF rt] same_volD [OF sv] by (simp add: rootdir_def)
    moreover have "FF st' (unat (root_cluster st)) \<noteq> 0" using d(5) [OF rt(2)] r1 by simp
    moreover have "free_set (FF st') (maxc st) = free_set (FF st1) (maxc st)"
      using d(5) f1(4) by (auto simp: free_set_def)
    moreover have "FF st' c = FF st c" if "c < maxc st" "c \<notin> old_chain (SS st) st name" for c
      using d(5) k1 that f1(4) by simp
    moreover have "DD st' c = DD st c" if "2 \<le> c" "c < maxc st" "c \<noteq> unat (root_cluster st)" for c
      using d(6) e1 that f1(4) by simp
    ultimately show ?thesis using r sv d(2) Some f1(7) by auto
  qed
qed

lemma store_body:
  assumes "ok (disk st)" and "geom st" and "3 \<le> unat k" and "unat k < maxc st" and "FF st (unat k) = EOC"
    and "length (chunks data) \<le> Suc (card (free_set (FF st) (maxc st)))"
  shows "\<exists>p st' cs. store_chunks ops tot (chunks data) k 0 0 st = (Some p, st') \<and> same_vol st st' \<and> ok (disk st') \<and>
    fchain (FF st') (unat k # cs) \<and> distinct (unat k # cs) \<and> set cs \<subseteq> free_set (FF st) (maxc st) \<and>
    take (length data) (concat (map (DD st') (unat k # cs))) = data \<and>
    (\<forall>c < maxc st. c \<notin> set (unat k # cs) \<longrightarrow> FF st' c = FF st c) \<and>
    (\<forall>c. 2 \<le> c \<longrightarrow> c < maxc st \<longrightarrow> c \<notin> set (unat k # cs) \<longrightarrow> DD st' c = DD st c)"
proof (cases "chunks data = []")
  case True
  then have "data = []" by (cases data) auto
  with True assms show ?thesis
    by (intro exI [of _ 0] exI [of _ st] exI [of _ "[]"]) simp
next
  case False
  have "\<forall>ck \<in> set (chunks data). length ck \<le> 512" using chunks_length by blast
  from store_chunks_ok [OF assms(1-5) False this assms(6), of tot 0 0] obtain p st' cs
    where st': "store_chunks ops tot (chunks data) k 0 0 st = (Some p, st')"
      and s: "stored st st' (unat k # cs) (chunks data)" and cs: "set cs \<subseteq> free_set (FF st) (maxc st)"
    by blast
  have "take (length data) (concat (map (DD st') (unat k # cs))) = data"
    using s file_bytes [of data] unfolding stored_def by presburger
  with st' s cs show ?thesis
    by (intro exI [of _ p] exI [of _ st'] exI [of _ cs]) (simp add: stored_def)
qed

lemma flS_ok:
  assumes "ok (disk st)"
  shows "fst (flS ops st) = Some ()" "unchanged st (snd (flS ops st))"
  using assms by (simp_all add: flS_def unchanged_def vol_step_same)

lemma root_write:
  assumes "ok (disk st)" and "geom st" and "length b = 512"
  shows "fst (wrS ops (cluster_lba (root_cluster st) st) b st) = Some ()"
    and "vol_step st (snd (wrS ops (cluster_lba (root_cluster st) st) b st)) (FF st)
      ((DD st)(unat (root_cluster st) := b))"
  using write_cluster_ok [OF assms(1,2) geom_root(1,2) [OF assms(2)] assms(3)] by simp_all

lemma vol_step_unchanged:
  assumes "vol_step st st1 f d" and "unchanged st1 st2"
  shows "vol_step st st2 f d"
proof -
  note d1 = vol_stepD [OF assms(1)]
  show ?thesis
    by (rule vol_step_cong [OF vol_step_trans [OF assms(1) assms(2) [unfolded unchanged_def]]])
      (simp_all add: d1)
qed

lemma store_finish:
  assumes "ok (disk st)" and "geom st" and "length b = 512"
  shows "\<exists>st'. (let st2 = say ''%\<newline>'' (say_num 100 (say '']'' (bar p 40 st)))
      in check (wrS ops (cluster_lba (root_cluster st2) st2) b) (\<lambda>_. flS ops) st2) = (Some (), st') \<and>
    vol_step st st' (FF st) ((DD st)(unat (root_cluster st) := b))"
proof -
  define st2 where "st2 = say ''%\<newline>'' (say_num 100 (say '']'' (bar p 40 st)))"
  have sv: "same_vol st st2" and dk: "disk st2 = disk st" by (simp_all add: st2_def)
  have v: "vol_step st st2 (FF st) (DD st)" using assms(1) sv dk by (intro vol_step_same) simp_all
  note d = vol_stepD [OF v]
  have g2: "geom st2" using d assms(2) by simp
  note w = root_write [OF d(2) g2 assms(3)]
  define st3 where "st3 = snd (wrS ops (cluster_lba (root_cluster st2) st2) b st2)"
  note f = flS_ok [OF vol_stepD(2) [OF w(2)], folded st3_def]
  have e: "check (wrS ops (cluster_lba (root_cluster st2) st2) b) (\<lambda>_. flS ops) st2 = (Some (), snd (flS ops st3))"
    using w(1) f(1) by (simp add: st3_def prod_eq_iff)
  have "vol_step st (snd (flS ops st3)) (FF st2) ((DD st2)(unat (root_cluster st2) := b))"
    by (rule vol_step_unchanged [OF vol_step_trans [OF v w(2)] f(2) [unfolded st3_def], folded st3_def])
  then have "vol_step st (snd (flS ops st3)) (FF st) ((DD st)(unat (root_cluster st) := b))"
    by (rule vol_step_cong) (simp_all add: d same_volD [OF sv])
  with e show ?thesis by (auto simp: st2_def Let_def)
qed

lemma entry_cluster_put:
  assumes "p = i * 32" and "p + 32 \<le> length R"
  shows "entry_cluster (put R p (dir_entry name sz k)) i = k" "r32 (put R p (dir_entry name sz k)) (p + 28) = sz"
  using r16_put [of p "dir_entry name sz k" R 26] r16_put [of p "dir_entry name sz k" R 20]
    r32_put [of p "dir_entry name sz k" R 28] dir_entry_size [of name sz k] dir_entry_cluster [of name sz k] assms
  by (simp_all add: entry_cluster_def)

lemma store_alloc:
  assumes ok: "ok (disk st)" and g: "geom st"
    and room: "max 1 (length (chunks data)) \<le> card (free_set (FF st) (maxc st))"
  shows "\<exists>k st3 p st5 cs. allocate_cluster ops st = (k, st3) \<and> k \<noteq> 0 \<and>
    store_chunks ops (length (chunks data)) (chunks data) k 0 0 (say ''['' st3) = (Some p, st5) \<and>
    same_vol st st5 \<and> ok (disk st5) \<and> fchain (FF st5) (unat k # cs) \<and> distinct (unat k # cs) \<and>
    set (unat k # cs) \<subseteq> free_set (FF st) (maxc st) \<and>
    take (length data) (concat (map (DD st5) (unat k # cs))) = data \<and>
    (\<forall>c < maxc st. c \<notin> set (unat k # cs) \<longrightarrow> FF st5 c = FF st c) \<and>
    (\<forall>c. 2 \<le> c \<longrightarrow> c < maxc st \<longrightarrow> c \<notin> set (unat k # cs) \<longrightarrow> DD st5 c = DD st c)"
proof -
  have "free_set (FF st) (maxc st) \<noteq> {}" using room by auto
  then obtain k st3 where k: "allocate_cluster ops st = (k, st3)"
      and kf: "unat k \<in> free_set (FF st) (maxc st)" and cl: "claimed st st3 k"
    using allocate_cluster_ok [OF ok g] by auto
  have k3: "3 \<le> unat k" "unat k < maxc st" "FF st (unat k) = 0" using kf by (auto simp: free_set_def)
  then have k0: "k \<noteq> 0" by auto
  note v3 = cl [unfolded claimed_def]
  define st4 where "st4 = say ''['' st3"
  have u4: "unchanged st3 st4" unfolding st4_def by (rule unchanged_say(1) [OF vol_stepD(2) [OF v3]])
  note d4 = vol_stepD [OF vol_step_unchanged [OF v3 u4]]
  have m4: "maxc st4 = maxc st" "geom st4" using d4(3,4) g by simp_all
  have F4: "FF st4 c = (if c = unat k then EOC else FF st c)" if "c < maxc st" for c
    using d4(5) [OF that] by simp
  have fs4: "free_set (FF st4) (maxc st4) = free_set (FF st) (maxc st) - {unat k}"
    using F4 m4(1) by (auto simp: free_set_def split: if_splits)
  have p4: "unat k < maxc st4" "FF st4 (unat k) = EOC"
    "length (chunks data) \<le> Suc (card (free_set (FF st4) (maxc st4)))"
    using k3 m4(1) F4 room kf fs4 by (simp_all add: card_Diff_singleton)
  obtain p st5 cs where st5: "store_chunks ops (length (chunks data)) (chunks data) k 0 0 st4 = (Some p, st5)"
    and sv5: "same_vol st4 st5" and ok5: "ok (disk st5)"
    and ch: "fchain (FF st5) (unat k # cs)" "distinct (unat k # cs)" "set cs \<subseteq> free_set (FF st4) (maxc st4)"
      "take (length data) (concat (map (DD st5) (unat k # cs))) = data"
    and fr5: "\<And>c. c < maxc st4 \<Longrightarrow> c \<notin> set (unat k # cs) \<Longrightarrow> FF st5 c = FF st4 c"
      "\<And>c. 2 \<le> c \<Longrightarrow> c < maxc st4 \<Longrightarrow> c \<notin> set (unat k # cs) \<Longrightarrow> DD st5 c = DD st4 c"
    using store_body [OF d4(2) m4(2) k3(1) p4, of "length (chunks data)"] by blast
  have "FF st5 c = FF st c" if "c < maxc st" "c \<notin> set (unat k # cs)" for c
    using fr5(1) [of c] F4 [of c] that m4(1) by simp
  moreover have "DD st5 c = DD st c" if "2 \<le> c" "c < maxc st" "c \<notin> set (unat k # cs)" for c
    using fr5(2) [of c] d4(6) [OF that(1,2)] that m4(1) by simp
  moreover have "set (unat k # cs) \<subseteq> free_set (FF st) (maxc st)" using ch(3) fs4 kf by auto
  ultimately show ?thesis
    using k k0 st5 same_vol_trans [OF d4(1) sv5] ok5 ch(1,2,4)
    by (intro exI [of _ k] exI [of _ st3] exI [of _ p] exI [of _ st5] exI [of _ cs] conjI)
      (auto simp: st4_def)
qed

lemma store_new_ok:
  assumes ok: "ok (disk st)" and g: "geom st" and root: "FF st (unat (root_cluster st)) \<noteq> 0"
    and nm: "name83 name (zeros 11) ! 0 \<noteq> 0" "name83 name (zeros 11) ! 0 \<noteq> 0xE5"
    and room: "max 1 (length (chunks data)) \<le> card (free_set (FF st) (maxc st))"
    and slot: "free_slot (RR st) = Some i"
      "\<And>k. k < i \<Longrightarrow> take 11 (drop (k * 32) (RR st)) \<noteq> name83 name (zeros 11)"
  shows "\<exists>st' cs. store_new ops name data st = (Some (), st') \<and> same_vol st st' \<and> ok (disk st') \<and>
    holds_file (SS st') st' name data cs \<and> set cs \<subseteq> free_set (FF st) (maxc st) \<and>
    (\<exists>k. RR st' = put (RR st) (i * 32) (dir_entry name (of_nat (length data)) k)) \<and>
    (\<forall>c < maxc st. c \<notin> set cs \<longrightarrow> FF st' c = FF st c) \<and>
    (\<forall>c. 2 \<le> c \<longrightarrow> c < maxc st \<longrightarrow> c \<notin> set cs \<longrightarrow> c \<noteq> unat (root_cluster st) \<longrightarrow> DD st' c = DD st c)"
proof -
  let ?key = "name83 name (zeros 11)" and ?r = "unat (root_cluster st)"
  have lR: "length (RR st) = 512" using sec_length [OF ok] by (simp flip: geom_root(3) [OF g])
  have i16: "i < 16" using slot(1) by (auto simp: free_slot_def find_upt_Some)
  define st2 where "st2 = snd (rdS ops (cluster_lba (root_cluster st) st) st)"
  have u2: "unchanged st st2" using rdS_ok [OF ok] by (simp add: st2_def unchanged_def vol_step_same)
  have e2: "fst (rdS ops (cluster_lba (root_cluster st) st) st) = Some (RR st)"
    using rdS_ok(1) [OF ok] geom_root(3) [OF g] by simp
  note d2 = vol_stepD [OF u2 [unfolded unchanged_def]]
  have g2: "geom st2" using d2 g by simp
  have fs2: "free_set (FF st2) (maxc st2) = free_set (FF st) (maxc st)"
    using d2(3,5) by (auto simp: free_set_def)
  obtain k st3 p st5 cs' where al: "allocate_cluster ops st2 = (k, st3)" "k \<noteq> 0"
      "store_chunks ops (length (chunks data)) (chunks data) k 0 0 (say ''['' st3) = (Some p, st5)"
    and sv25: "same_vol st2 st5" and ok5: "ok (disk st5)"
    and ch: "fchain (FF st5) (unat k # cs')" "distinct (unat k # cs')"
      "set (unat k # cs') \<subseteq> free_set (FF st) (maxc st)"
      "take (length data) (concat (map (DD st5) (unat k # cs'))) = data"
    and fr: "\<And>c. c < maxc st2 \<Longrightarrow> c \<notin> set (unat k # cs') \<Longrightarrow> FF st5 c = FF st2 c"
      "\<And>c. 2 \<le> c \<Longrightarrow> c < maxc st2 \<Longrightarrow> c \<notin> set (unat k # cs') \<Longrightarrow> DD st5 c = DD st2 c"
    using store_alloc [OF d2(2) g2, of data] room unfolding fs2 by blast
  define cs where "cs = unat k # cs'"
  define b where "b = put (RR st) (i * 32) (dir_entry name (of_nat (length data)) k)"
  have sv5: "same_vol st st5" by (rule same_vol_trans [OF d2(1) sv25])
  note s5 = same_volD [OF sv5]
  have g5: "geom st5" and lb: "length b = 512" using s5 g lR by (simp_all add: b_def)
  obtain st' where fin: "(let st2 = say ''%\<newline>'' (say_num 100 (say '']'' (bar p 40 st5)))
      in check (wrS ops (cluster_lba (root_cluster st2) st2) b) (\<lambda>_. flS ops) st2) = (Some (), st')"
    and v': "vol_step st5 st' (FF st5) ((DD st5)(unat (root_cluster st5) := b))"
    using store_finish [OF ok5 g5 lb, of p] by blast
  note d' = vol_stepD [OF v']
  have run: "store_new ops name data st = (Some (), st')"
    using e2 slot(1) al fin by (simp add: store_new_def split_def Let_def st2_def [symmetric] b_def)
  have rr: "2 \<le> ?r" "?r < maxc st" using geom_root [OF g] by simp_all
  have rn: "?r \<notin> set cs" using ch(3) root by (auto simp: free_set_def cs_def)
  have rng: "3 \<le> c \<and> c < maxc st" if "c \<in> set cs" for c using ch(3) that by (auto simp: free_set_def cs_def)
  have F': "FF st' c = FF st5 c" if "c < maxc st" for c using d'(5) that s5 by simp
  have D': "DD st' c = (if c = ?r then b else DD st5 c)" if "2 \<le> c" "c < maxc st" for c
    using d'(6) that s5 by simp
  have sv': "same_vol st st'" by (rule same_vol_trans [OF sv5 d'(1)])
  have R': "RR st' = b" using D' [OF rr] same_volD [OF sv'] by (simp add: rootdir_def)
  have e0: "dir_entry name (of_nat (length data)) k ! 0 = ?key ! 0"
    using arg_cong [OF dir_entry_name [of name "of_nat (length data)" k], of "\<lambda>l. l ! 0"] by simp
  have "slot_of ?key b = Some i"
    unfolding b_def using new_slot [OF lR _ dir_entry_name _ _ slot] e0 nm by simp
  moreover have "r32 b (i * 32 + 28) = of_nat (length data)" "entry_cluster b i = of_nat (hd cs)"
    using entry_cluster_put [OF refl, of i "RR st"] i16 lR by (simp_all add: b_def cs_def)
  moreover have "fchain (FF st') cs" using ch(1) fchain_cong [of cs "FF st'" "FF st5"] F' rng cs_def by blast
  moreover have "map (DD st') cs = map (DD st5) cs" using D' rng rn by (intro map_cong refl) fastforce
  then have "take (length data) (concat (map (DD st') cs)) = data" using ch(4) by (simp only: cs_def)
  moreover have "set cs \<subseteq> {3..<maxc st'}" using rng same_volD(1) [OF sv'] by auto
  ultimately have hf: "holds_file (SS st') st' name data cs"
    unfolding holds_file_def R' using i16 ch(2) cs_def by blast
  have "FF st' c = FF st c" if "c < maxc st" "c \<notin> set cs" for c
    using F' [OF that(1)] fr(1) [of c] d2(3) d2(5) [OF that(1)] that by (simp add: cs_def)
  moreover have "DD st' c = DD st c" if "2 \<le> c" "c < maxc st" "c \<notin> set cs" "c \<noteq> ?r" for c
    using D' [OF that(1,2)] fr(2) [of c] d2(3) d2(6) [OF that(1,2)] that by (simp add: cs_def)
  ultimately show ?thesis using run sv' d'(2) hf ch(3) cs_def R' b_def by blast
qed

lemma disk_store_large_ok:
  assumes ok: "ok (disk st)" and g: "geom st" and rp: "root_private (SS st) st"
    and nm: "name83 name (zeros 11) ! 0 \<noteq> 0" "name83 name (zeros 11) ! 0 \<noteq> 0xE5"
    and room: "max 1 (length (chunks data)) \<le> card (free_set (FF st) (maxc st))"
    and slot: "slot_of (name83 name (zeros 11)) (RR st) \<noteq> None \<or> free_slot (RR st) \<noteq> None"
  shows "\<exists>st' cs. disk_store_large ops name data st = (Some (), st') \<and> same_vol st st' \<and> ok (disk st') \<and>
    holds_file (SS st') st' name data cs \<and>
    (\<forall>c < maxc st. FF st c \<noteq> 0 \<longrightarrow> c \<notin> old_chain (SS st) st name \<longrightarrow> FF st' c = FF st c \<and>
       (2 \<le> c \<longrightarrow> c \<noteq> unat (root_cluster st) \<longrightarrow> DD st' c = DD st c)) \<and>
    (\<forall>key'. key' \<noteq> name83 name (zeros 11) \<longrightarrow> slot_of key' (RR st') = slot_of key' (RR st) \<and>
       (\<forall>k. slot_of key' (RR st) = Some k \<longrightarrow> entry_at (RR st') k = entry_at (RR st) k))"
proof -
  let ?key = "name83 name (zeros 11)"
  define R1 where "R1 = (case slot_of ?key (RR st) of None \<Rightarrow> RR st | Some j \<Rightarrow> (RR st)[j * 32 := 0xE5])"
  have lR: "length (RR st) = 512" using sec_length [OF ok] by (simp flip: geom_root(3) [OF g])
  obtain i where i: "free_slot R1 = Some i"
  proof (cases "slot_of ?key (RR st)")
    case None
    with slot that show ?thesis by (auto simp: R1_def)
  next
    case (Some j)
    then have j: "j < 16" by (auto simp: slot_of_def find_upt_Some)
    moreover have "R1 ! (j * 32) = 0xE5" using Some j lR by (simp add: R1_def)
    ultimately have "free_slot R1 \<noteq> None" by (auto simp: free_slot_def find_None_iff)
    with that show ?thesis by auto
  qed
  obtain st1 where r1: "remove_old ops name st = (Some (), st1)" and sv1: "same_vol st st1" and ok1: "ok (disk st1)"
    and R: "RR st1 = R1" and f1: "FF st1 (unat (root_cluster st)) \<noteq> 0"
    and fs1: "free_set (FF st) (maxc st) \<subseteq> free_set (FF st1) (maxc st)"
    and fr1: "\<And>c. c < maxc st \<Longrightarrow> c \<notin> old_chain (SS st) st name \<Longrightarrow> FF st1 c = FF st c"
    and dr1: "\<And>c. 2 \<le> c \<Longrightarrow> c < maxc st \<Longrightarrow> c \<noteq> unat (root_cluster st) \<Longrightarrow> DD st1 c = DD st c"
    using remove_old_summary [OF ok g rp, of name, folded R1_def] by blast
  note s1 = same_volD [OF sv1]
  have p: "geom st1" "FF st1 (unat (root_cluster st1)) \<noteq> 0"
    "max 1 (length (chunks data)) \<le> card (free_set (FF st1) (maxc st1))"
    using s1 g f1 room card_mono [OF finite_free_set fs1] by simp_all
  have sl: "free_slot (RR st1) = Some i" "\<And>k. k < i \<Longrightarrow> take 11 (drop (k * 32) (RR st1)) \<noteq> ?key"
    using i removed_slot [OF lR R1_def i] R by simp_all
  obtain st' cs k where st': "store_new ops name data st1 = (Some (), st')" "same_vol st1 st'" "ok (disk st')"
    "holds_file (SS st') st' name data cs" "set cs \<subseteq> free_set (FF st1) (maxc st1)"
    "\<forall>c < maxc st1. c \<notin> set cs \<longrightarrow> FF st' c = FF st1 c"
    "\<forall>c. 2 \<le> c \<longrightarrow> c < maxc st1 \<longrightarrow> c \<notin> set cs \<longrightarrow> c \<noteq> unat (root_cluster st1) \<longrightarrow> DD st' c = DD st1 c"
    "RR st' = put (RR st1) (i * 32) (dir_entry name (of_nat (length data)) k)"
    using store_new_ok [OF ok1 p(1,2) nm p(3) sl] by blast
  have "FF st' c = FF st c \<and> (2 \<le> c \<longrightarrow> c \<noteq> unat (root_cluster st) \<longrightarrow> DD st' c = DD st c)"
    if c: "c < maxc st" "FF st c \<noteq> 0" "c \<notin> old_chain (SS st) st name" for c
  proof -
    have "FF st1 c \<noteq> 0" using fr1 c by simp
    then have "c \<notin> set cs" using st'(5) by (auto simp: free_set_def)
    then show ?thesis using st'(6,7) fr1 [of c] dr1 [of c] c s1 by simp
  qed
  moreover have "slot_of key' (RR st') = slot_of key' (RR st) \<and>
      (\<forall>k. slot_of key' (RR st) = Some k \<longrightarrow> entry_at (RR st') k = entry_at (RR st) k)" if "key' \<noteq> ?key" for key'
    using other_slots [OF lR length_dir_entry dir_entry_name R1_def i that] unfolding st'(8) R by blast
  moreover have "disk_store_large ops name data st = (Some (), st')"
    using r1 st'(1) by (simp add: disk_store_large_def)
  ultimately show ?thesis
    using st'(3,4) same_vol_trans [OF sv1 st'(2)] by (intro exI [of _ st'] exI [of _ cs]) simp
qed

end

end
