(* ===== verification/M64_Format.thy ===== *)
theory M64_Format
  imports M64_Volume
begin

text \<open>
  Formatting (\<open>fat_format\<close> of \<^verbatim>\<open>src/mini64/kernel.c\<close>): what every sector of the disk holds
  afterwards, that a formatted volume is well formed and mounts, and the properties of the FAT32
  code.
\<close>

lemma length_format_sectors [simp]:
  "length mbr_sector = 512" "length bpb_sector = 512" "length fsinfo_sector = 512"
  "length fat_first_sector = 512" "length label_sector = 512"
  by (simp_all add: mbr_sector_def bpb_sector_def fsinfo_sector_def fat_first_sector_def label_sector_def
      sig55_def)

lemma mbr_facts: "has_signature mbr_sector" "mbr_sector ! 450 = 0x0C" "r32 mbr_sector 454 = 2048"
  by code_simp+

lemma bpb_facts: "has_signature bpb_sector" "r16 bpb_sector 11 = 512" "r32 bpb_sector 82 = 0x33544146"
  "bpb_sector ! 13 = 1" "r16 bpb_sector 14 = 32" "bpb_sector ! 16 = 2" "r32 bpb_sector 36 = 993"
  "r32 bpb_sector 44 = 2"
  by code_simp+

lemma fsinfo_facts: "r32 fsinfo_sector 0 = 0x41615252" "r32 fsinfo_sector 484 = 0x61417272"
  "r32 fsinfo_sector 508 = 0xAA550000" "r32 fsinfo_sector 492 = 3"
  by code_simp+

lemma label_facts: "\<not> has_signature label_sector" "\<forall>i < 16. entry_cluster label_sector i = 0"
  "free_slot label_sector = Some 1"
  by code_simp+

text \<open>The contents of sector \<open>m\<close> of the allocation tables of a new volume.\<close>

definition table_sector :: "nat \<Rightarrow> bytes" where
  "table_sector m = (if (m - 2080) mod 993 = 0 then fat_first_sector else zeros 512)"

definition in_tables :: "(nat \<times> nat) list \<Rightarrow> nat \<Rightarrow> bool" where
  "in_tables fss m \<longleftrightarrow> (\<exists>(f, s) \<in> set fss. m = 2080 + f * 993 + s)"

text \<open>The variables of a mounted volume with the geometry \<open>fat_format\<close> creates.\<close>

definition os64_volume :: "'d mini \<Rightarrow> bool" where
  "os64_volume st \<longleftrightarrow> vol_start st = 2048 \<and> reserved st = 32 \<and> fat_count st = 2 \<and> fat_sectors st = 993 \<and>
     sectors_per_cluster st = 1 \<and> root_cluster st = 2 \<and> data_start st = 2018 \<and> fat_mounted st"

lemma os64_volume_geom:
  assumes "os64_volume st"
  shows "geom st" "maxc st = 127008" "fat_sec 0 c st = 2080 + c div 128" "clus_sec 2 st = 4066"
    "cluster_lba 2 st = 4066"
proof -
  show m: "maxc st = 127008" using assms by (simp add: os64_volume_def maxc_def)
  show "geom st" using assms m by (simp add: os64_volume_def geom_def)
  have "4 * c div 512 = c div 128" by simp
  then show "fat_sec 0 c st = 2080 + c div 128" using assms by (simp add: os64_volume_def fat_sec_def)
  show "clus_sec 2 st = 4066" "cluster_lba 2 st = 4066"
    using assms by (simp_all add: os64_volume_def clus_sec_def cluster_lba_def)
qed

lemma first_entries:
  "c < 128 \<Longrightarrow> r32 fat_first_sector (4 * c) =
     (if c = 0 then 0x0FFFFFF8 else if c = 1 then 0xFFFFFFFF else if c = 2 then 0x0FFFFFFF else 0)"
proof -
  have "list_all (\<lambda>c. r32 fat_first_sector (4 * c) = (if c = 0 then 0x0FFFFFF8 else if c = 1 then 0xFFFFFFFF
      else if c = 2 then 0x0FFFFFFF else 0)) [0..<128]"
    by code_simp
  then show "c < 128 \<Longrightarrow> r32 fat_first_sector (4 * c) =
     (if c = 0 then 0x0FFFFFF8 else if c = 1 then 0xFFFFFFFF else if c = 2 then 0x0FFFFFFF else 0)"
    unfolding list_all_iff set_upt by auto
qed

lemma r32_zeros: "p + 3 < n \<Longrightarrow> r32 (zeros n) p = 0"
  by (simp add: r32_def r16_def)

text \<open>The allocation table of a new volume: everything is free but the root directory.\<close>

lemma new_table:
  assumes "os64_volume st" and "\<And>m. 2080 \<le> m \<Longrightarrow> m < 3073 \<Longrightarrow> S (of_nat m) = table_sector m" and "c < 127008"
  shows "F S st c = (if c = 0 then 0x0FFFFFF8 else if c < 3 then EOC else 0)"
proof -
  have q: "c div 128 < 993" using assms(3) by (simp add: div_less_iff_less_mult)
  then have s: "S (of_nat (fat_sec 0 c st)) = table_sector (2080 + c div 128)"
    using assms(2) [of "2080 + c div 128"] os64_volume_geom(3) [OF assms(1), of c] by simp
  show ?thesis
  proof (cases "c < 128")
    case True
    then have "F S st c = r32 fat_first_sector (4 * c) AND 0x0FFFFFFF"
      unfolding F_def s by (simp add: table_sector_def entry_pos)
    with first_entries [OF True] show ?thesis by auto
  next
    case False
    then have "0 < c div 128" by (simp add: div_greater_zero_iff)
    then have "table_sector (2080 + c div 128) = zeros 512" using q by (simp add: table_sector_def)
    moreover have "4 * c mod 512 + 3 < 512" unfolding entry_pos by (simp add: less_Suc_eq_le)
    ultimately show ?thesis unfolding F_def s using False by (simp add: r32_zeros)
  qed
qed

text \<open>What every sector holds after formatting, when the label is written to sector \<open>n\<close>.\<close>

definition formatted :: "nat \<Rightarrow> (u32 \<Rightarrow> bytes) \<Rightarrow> nat \<Rightarrow> bytes" where
  "formatted n S m =
     (if m = n then label_sector
      else if 2080 \<le> m \<and> m < 4066 then table_sector m
      else if m = 2049 \<or> m = 2055 then fsinfo_sector
      else if m = 2048 \<or> m = 2054 then bpb_sector
      else if m = 0 then mbr_sector else S (of_nat m))"

context sector_disk
begin

lemma format_tables_ok:
  assumes "ok (disk st)" and "\<forall>(f, s) \<in> set fss. f < 2 \<and> s < 993"
  shows "\<exists>st'. format_tables ops pbar fss st = (Some (), st') \<and> same_vol st st' \<and> ok (disk st') \<and>
    (\<forall>m < 2 ^ 28. SS st' (of_nat m) = (if in_tables fss m then table_sector m else SS st (of_nat m)))"
  using assms
proof (induction fss arbitrary: st pbar)
  case Nil
  then show ?case by (simp add: in_tables_def)
next
  case (Cons x fss)
  obtain f s where x: "x = (f, s)" by (cases x)
  have fs: "f < 2" "s < 993" using Cons.prems(2) x by auto
  define n where "n = 2080 + f * 993 + s"
  define b where "b = (if s = 0 then fat_first_sector else zeros 512)"
  have lba: "HOME_START + 32 + of_nat f * 993 + of_nat s = of_nat n" by (simp add: HOME_START_def n_def)
  have lb: "length b = 512" by (simp add: b_def)
  have n28: "n < 2 ^ 28" using fs by (simp add: n_def)
  define st1 where "st1 = snd (wrS ops (of_nat n) b st)"
  note w = wrS_ok [OF Cons.prems(1) lb, of "of_nat n", folded st1_def]
  define st2 where "st2 = bar pbar ((f * 993 + s + 1) * 40 div (2 * 993)) st1"
  have p: "ok (disk st2)" "\<forall>(f, s) \<in> set fss. f < 2 \<and> s < 993"
    using w(2) Cons.prems(2) by (auto simp: st2_def)
  have sv: "same_vol st st2" using w(3) by (simp add: st2_def)
  from Cons.IH [OF p] obtain st'
    where st': "format_tables ops (max pbar ((f * 993 + s + 1) * 40 div (2 * 993))) fss st2 = (Some (), st')"
      "same_vol st2 st'" "ok (disk st')"
    and at: "\<And>m. m < 2 ^ 28 \<Longrightarrow> SS st' (of_nat m) = (if in_tables fss m then table_sector m else SS st2 (of_nat m))"
    by blast
  have t: "table_sector n = b" using fs(2) by (simp add: table_sector_def n_def b_def)
  have it: "in_tables (x # fss) m \<longleftrightarrow> m = n \<or> in_tables fss m" for m by (auto simp: in_tables_def x n_def)
  have "SS st2 (of_nat m) = (if m = n then b else SS st (of_nat m))" if "m < 2 ^ 28" for m
    using wrS_at [OF Cons.prems(1) lb n28 that] by (simp add: st2_def st1_def)
  then have "SS st' (of_nat m) = (if in_tables (x # fss) m then table_sector m else SS st (of_nat m))" if "m < 2 ^ 28" for m
    using at [OF that] t it [of m] that by (cases "m = n") simp_all
  moreover have "format_tables ops pbar (x # fss) st = (Some (), st')"
    using w(1) st'(1) unfolding x by (simp add: lba Let_def st2_def st1_def b_def)
  ultimately show ?case using st'(2,3) same_vol_trans [OF sv st'(2)] by blast
qed

text \<open>The sectors of the disk after formatting, with the label at sector \<open>n\<close>.\<close>

lemma in_tables_all: "in_tables (List.product [0, 1] [0..<993]) m \<longleftrightarrow> 2080 \<le> m \<and> m < 4066"
proof
  assume m: "2080 \<le> m \<and> m < 4066"
  then have "m - 2080 < 2 * 993" by auto
  then have "(m - 2080) div 993 < 2" by (simp only: div_less_iff_less_mult)
  moreover have "(m - 2080) mod 993 < 993" by simp
  moreover have "m = 2080 + (m - 2080) div 993 * 993 + (m - 2080) mod 993" using m by simp
  ultimately show "in_tables (List.product [0, 1] [0..<993]) m"
    unfolding in_tables_def
    by (intro bexI [of _ "((m - 2080) div 993, (m - 2080) mod 993)"]) (auto simp: less_2_cases_iff)
qed (auto simp: in_tables_def)

text \<open>The five sectors written before the tables.\<close>

definition head_writes :: "'d mini \<Rightarrow> 'd mini" where
  "head_writes st = snd (wrS ops (HOME_START + 7) fsinfo_sector (snd (wrS ops (HOME_START + 1) fsinfo_sector
     (snd (wrS ops (HOME_START + 6) bpb_sector (snd (wrS ops HOME_START bpb_sector
       (snd (wrS ops 0 mbr_sector st)))))))))"

lemma fat_format_head:
  assumes ok: "ok (disk st)"
  shows "fat_format ops st =
      check (format_tables ops 0 (List.product [0, 1] [0..<993])) (\<lambda>_ st.
        check (\<lambda>st. wrS ops (cluster_lba 2 st) label_sector st) (\<lambda>_ st.
       flS ops (st\<lparr>vol_start := HOME_START, reserved := 32, fat_count := 2, fat_sectors := 993,
         sectors_per_cluster := 1, root_cluster := 2, data_start := 2018, next_free_cluster := 3,
         fat_mounted := True\<rparr>))
      (say ''100%\<newline>'' (say '']'' st))) (say ''['' (head_writes st))"
    and "same_vol st (head_writes st)" "ok (disk (head_writes st))"
    and "m < 2 ^ 28 \<Longrightarrow> SS (head_writes st) (of_nat m) = (if m = 2049 \<or> m = 2055 then fsinfo_sector
      else if m = 2048 \<or> m = 2054 then bpb_sector else if m = 0 then mbr_sector else SS st (of_nat m))"
proof -
  define st1 where "st1 = snd (wrS ops 0 mbr_sector st)"
  define st2 where "st2 = snd (wrS ops HOME_START bpb_sector st1)"
  define st3 where "st3 = snd (wrS ops (HOME_START + 6) bpb_sector st2)"
  define st4 where "st4 = snd (wrS ops (HOME_START + 1) fsinfo_sector st3)"
  have h: "head_writes st = snd (wrS ops (HOME_START + 7) fsinfo_sector st4)"
    by (simp add: head_writes_def st1_def st2_def st3_def st4_def)
  note w1 = wrS_ok [OF ok length_format_sectors(1), of 0, folded st1_def]
  note w2 = wrS_ok [OF w1(2) length_format_sectors(2), of HOME_START, folded st2_def]
  note w3 = wrS_ok [OF w2(2) length_format_sectors(2), of "HOME_START + 6", folded st3_def]
  note w4 = wrS_ok [OF w3(2) length_format_sectors(3), of "HOME_START + 1", folded st4_def]
  note w5 = wrS_ok [OF w4(2) length_format_sectors(3), of "HOME_START + 7", folded h]
  show "fat_format ops st = check (format_tables ops 0 (List.product [0, 1] [0..<993])) (\<lambda>_ st.
        check (\<lambda>st. wrS ops (cluster_lba 2 st) label_sector st) (\<lambda>_ st.
       flS ops (st\<lparr>vol_start := HOME_START, reserved := 32, fat_count := 2, fat_sectors := 993,
         sectors_per_cluster := 1, root_cluster := 2, data_start := 2018, next_free_cluster := 3,
         fat_mounted := True\<rparr>))
      (say ''100%\<newline>'' (say '']'' st))) (say ''['' (head_writes st))"
    using w1(1) w2(1) w3(1) w4(1) w5(1)
    by (simp only: fat_format_def check_Some st1_def [symmetric] st2_def [symmetric] st3_def [symmetric]
        st4_def [symmetric] h [symmetric])
  show "same_vol st (head_writes st)"
    by (rule same_vol_trans [OF same_vol_trans [OF same_vol_trans [OF same_vol_trans [OF w1(3) w2(3)] w3(3)] w4(3)] w5(3)])
  show "ok (disk (head_writes st))" by (rule w5(2))
  assume m: "m < 2 ^ 28"
  have lbas: "HOME_START = of_nat 2048" "HOME_START + 6 = of_nat 2054" "HOME_START + 1 = of_nat 2049"
    "HOME_START + 7 = of_nat 2055" by (simp_all add: HOME_START_def)
  have "SS (head_writes st) (of_nat m) = (if m = 2055 then fsinfo_sector else SS st4 (of_nat m))"
    using wrS_at [OF w4(2) length_format_sectors(3) _ m, of 2055] unfolding h lbas by simp
  moreover have "SS st4 (of_nat m) = (if m = 2049 then fsinfo_sector else SS st3 (of_nat m))"
    using wrS_at [OF w3(2) length_format_sectors(3) _ m, of 2049] unfolding st4_def lbas by simp
  moreover have "SS st3 (of_nat m) = (if m = 2054 then bpb_sector else SS st2 (of_nat m))"
    using wrS_at [OF w2(2) length_format_sectors(2) _ m, of 2054] unfolding st3_def lbas by simp
  moreover have "SS st2 (of_nat m) = (if m = 2048 then bpb_sector else SS st1 (of_nat m))"
    using wrS_at [OF w1(2) length_format_sectors(2) _ m, of 2048] unfolding st2_def lbas by simp
  moreover have "SS st1 (of_nat m) = (if m = 0 then mbr_sector else SS st (of_nat m))"
    using wrS_at [OF ok length_format_sectors(1) _ m, of 0] unfolding st1_def by simp
  ultimately show "SS (head_writes st) (of_nat m) = (if m = 2049 \<or> m = 2055 then fsinfo_sector
      else if m = 2048 \<or> m = 2054 then bpb_sector else if m = 0 then mbr_sector else SS st (of_nat m))"
    by presburger
qed

lemma write_label:
  assumes "ok (disk st)" and "m < 2 ^ 28"
  shows "SS (snd (wrS ops l label_sector st)) (of_nat m) =
      (if m = unat (take_bit 28 l) then label_sector else SS st (of_nat m))"
proof -
  have n28: "unat (take_bit 28 l) < 2 ^ 28" unfolding unsigned_take_bit_eq by (rule take_bit_nat_less_exp)
  have "take_bit 28 (of_nat m :: u32) = of_nat m" using assms(2)
    by (metis of_nat_take_bit take_bit_nat_eq_self)
  moreover have "take_bit 28 l = of_nat (unat (take_bit 28 l))" by simp
  moreover have "(of_nat m :: u32) = of_nat (unat (take_bit 28 l)) \<longleftrightarrow> m = unat (take_bit 28 l)"
    using assms(2) n28 by (intro of_nat_eq_iff_u32) simp_all
  ultimately show ?thesis using assms(1) by (simp add: wrS_def)
qed

lemma fat_format_ok:
  assumes ok: "ok (disk st)"
  shows "\<exists>st'. fat_format ops st = (Some (), st') \<and> ok (disk st') \<and>
    vol_start st' = HOME_START \<and> reserved st' = 32 \<and> fat_count st' = 2 \<and> fat_sectors st' = 993 \<and>
    sectors_per_cluster st' = 1 \<and> root_cluster st' = 2 \<and> data_start st' = 2018 \<and>
    next_free_cluster st' = 3 \<and> fat_mounted st' \<and>
    (\<forall>m < 2 ^ 28. SS st' (of_nat m) = formatted (unat (take_bit 28 (cluster_lba 2 st))) (SS st) m)"
proof -
  note h = fat_format_head [OF ok]
  have ok5: "ok (disk (say ''['' (head_writes st)))" using h(3) by simp
  have pr: "\<forall>(f, s) \<in> set (List.product [0::nat, 1] [0..<993]). f < 2 \<and> s < 993" by auto
  obtain st6 where st6: "format_tables ops 0 (List.product [0, 1] [0..<993]) (say ''['' (head_writes st)) = (Some (), st6)"
      "same_vol (say ''['' (head_writes st)) st6" "ok (disk st6)"
    and at6: "\<And>m. m < 2 ^ 28 \<Longrightarrow> SS st6 (of_nat m) =
      (if 2080 \<le> m \<and> m < 4066 then table_sector m else SS (head_writes st) (of_nat m))"
    using format_tables_ok [OF ok5 pr, of 0] unfolding in_tables_all say_simps by blast
  define st7 where "st7 = say ''100%\<newline>'' (say '']'' st6)"
  have sv7: "same_vol st st7"
    using same_vol_trans [OF h(2)] st6(2) by (simp add: st7_def same_vol_def say_def)
  have ok7: "ok (disk st7)" using st6(3) by (simp add: st7_def)
  define st8 where "st8 = snd (wrS ops (cluster_lba 2 st7) label_sector st7)"
  note w8 = wrS_ok [OF ok7 length_format_sectors(5), of "cluster_lba 2 st7", folded st8_def]
  define st9 where "st9 = st8\<lparr>vol_start := HOME_START, reserved := 32, fat_count := 2, fat_sectors := 993,
         sectors_per_cluster := 1, root_cluster := 2, data_start := 2018, next_free_cluster := 3,
         fat_mounted := True\<rparr>"
  have dk: "disk st9 = disk st8" by (simp add: st9_def)
  have "fat_format ops st = flS ops st9"
    unfolding h(1) using st6(1) w8(1)
    by (simp add: st7_def [symmetric] st8_def [symmetric] st9_def del: product_concat_map)
  moreover have "flS ops st9 = (Some (), st9\<lparr>disk := snd (fl ops (disk st9))\<rparr>)"
    using w8(2) by (simp add: flS_def dk)
  moreover have "SS (st9\<lparr>disk := snd (fl ops (disk st9))\<rparr>) (of_nat m) =
      formatted (unat (take_bit 28 (cluster_lba 2 st))) (SS st) m" if "m < 2 ^ 28" for m
  proof -
    have "SS (st9\<lparr>disk := snd (fl ops (disk st9))\<rparr>) = SS st8" using w8(2) by (simp add: dk)
    moreover have "SS st8 (of_nat m) =
        (if m = unat (take_bit 28 (cluster_lba 2 st)) then label_sector else SS st6 (of_nat m))"
      using write_label [OF ok7 that] same_volD(7) [OF sv7, of 2] by (simp add: st8_def st7_def)
    ultimately show ?thesis using at6 [OF that] h(4) [OF that] unfolding formatted_def by presburger
  qed
  ultimately show ?thesis
    using w8(2) by (auto simp: st9_def dk)
qed

text \<open>The values \<open>fat_init\<close> reads from a disk that was formatted by \<open>fat_format\<close>.\<close>

lemma fat_init_formatted:
  assumes ok: "ok (disk st)" and S: "SS st 0 = mbr_sector" "SS st 2048 = bpb_sector" "SS st 2049 = fsinfo_sector"
  shows "\<exists>st'. fat_init ops st = (Some (), st') \<and> ok (disk st') \<and> SS st' = SS st \<and> os64_volume st'"
proof -
  note r1 = rdS_ok [OF ok, of 0]
  define st1 where "st1 = (snd (rdS ops 0 st))\<lparr>vol_start := 2048\<rparr>"
  have ok1: "ok (disk st1)" "SS st1 = SS st" using r1 by (simp_all add: st1_def)
  note r2 = rdS_ok [OF ok1(1), of 2048]
  define st2 where "st2 = (snd (rdS ops 2048 st1))\<lparr>sectors_per_cluster := 1, reserved := 32, fat_count := 2,
     fat_sectors := 993, root_cluster := 2, data_start := 2018, next_free_cluster := 3\<rparr>"
  have ok2: "ok (disk st2)" "SS st2 = SS st" using r2 ok1 by (simp_all add: st2_def)
  have v1: "vol_start (snd (rdS ops 2048 st1)) = 2048" using r2(4) by (simp add: st1_def same_vol_def)
  have v2: "vol_start st2 = 2048" using r2(4) by (simp add: st2_def st1_def same_vol_def)
  note r3 = rdS_ok [OF ok2(1), of 2049]
  define st3 where "st3 = (snd (rdS ops 2049 st2))\<lparr>next_free_cluster := 3, fat_mounted := True\<rparr>"
  have "fat_init ops st = flS ops st3"
    using r1 r2 r3 S ok1 ok2 v1 v2 mbr_facts bpb_facts fsinfo_facts
    by (simp add: fat_init_def st1_def [symmetric] Let_def split_def st2_def [symmetric] st3_def)
  moreover have "fst (flS ops st3) = Some ()" "unchanged st3 (snd (flS ops st3))" "SS (snd (flS ops st3)) = SS st"
    using flS_ok [of st3] r3 ok2 by (simp_all add: st3_def flS_def)
  moreover have "os64_volume st3"
    using r3(4) v2 by (simp add: os64_volume_def st3_def st2_def same_vol_def)
  ultimately show ?thesis
    using unchangedD(1,4) [of st3 "snd (flS ops st3)"] by (auto simp: os64_volume_def same_vol_def prod_eq_iff intro!: exI [of _ "snd (flS ops st3)"])
qed

lemma new_volume:
  assumes ok: "ok (disk st)" and vol: "os64_volume st"
    and S: "\<And>m. 2080 \<le> m \<Longrightarrow> m < 3073 \<Longrightarrow> SS st (of_nat m) = table_sector m" "SS st 4066 = label_sector"
  shows "root_private (SS st) st" "free_set (FF st) (maxc st) = {3..<127008}" "RR st = label_sector"
proof -
  note g = os64_volume_geom [OF vol]
  have rc: "root_cluster st = 2" using vol by (simp add: os64_volume_def)
  show r: "RR st = label_sector" using S(2) g(4) rc by (simp add: rootdir_def D_def)
  note f = new_table [OF vol S(1)]
  show "root_private (SS st) st"
    unfolding root_private_def r using f rc g(2) label_facts(2) by auto
  show "free_set (FF st) (maxc st) = {3..<127008}" using f g(2) by (auto simp: free_set_def)
qed

end

text \<open>The state after formatting a volume that had the same geometry before.\<close>

lemma reformat:
  assumes "sector_disk ops sec ok" and "ok (disk st)" and "os64_volume st"
  shows "\<exists>st'. fat_format ops st = (Some (), st') \<and> ok (disk st') \<and> os64_volume st' \<and>
    sec (disk st') 0 = mbr_sector \<and> sec (disk st') 2048 = bpb_sector \<and> sec (disk st') 2049 = fsinfo_sector \<and>
    sec (disk st') 4066 = label_sector \<and>
    (\<forall>m. 2080 \<le> m \<longrightarrow> m < 3073 \<longrightarrow> sec (disk st') (of_nat m) = table_sector m)"
proof -
  from sector_disk.fat_format_ok [OF assms(1,2)] obtain st'
    where st': "fat_format ops st = (Some (), st')" "ok (disk st')" "vol_start st' = HOME_START"
      "reserved st' = 32" "fat_count st' = 2" "fat_sectors st' = 993" "sectors_per_cluster st' = 1"
      "root_cluster st' = 2" "data_start st' = 2018" "fat_mounted st'"
    and at: "\<forall>m < 2 ^ 28. sec (disk st') (of_nat m) =
      formatted (unat (take_bit 28 (cluster_lba 2 st))) (sec (disk st)) m" by (elim exE conjE) (rule that)
  have n: "unat (take_bit 28 (cluster_lba 2 st)) = 4066"
    using os64_volume_geom(5) [OF assms(3)] by simp
  have "sec (disk st') 0 = mbr_sector" "sec (disk st') 2048 = bpb_sector"
    "sec (disk st') 2049 = fsinfo_sector" "sec (disk st') 4066 = label_sector"
    using at [rule_format, of 0] at [rule_format, of 2048] at [rule_format, of 2049] at [rule_format, of 4066]
    unfolding n by (simp_all add: formatted_def)
  moreover have "sec (disk st') (of_nat m) = table_sector m" if "2080 \<le> m" "m < 3073" for m
    using at [rule_format, of m] that unfolding n by (simp add: formatted_def)
  moreover have "os64_volume st'" using st'(3-) by (simp add: os64_volume_def HOME_START_def)
  ultimately show ?thesis using st'(1,2) by (intro exI [of _ st']) simp
qed

definition demo_mini :: "ata drive mini" where
  "demo_mini = \<lparr>con = demo_console, vol_start = 2048, reserved = 32, fat_sectors = 993, data_start = 2018,
     root_cluster = 2, next_free_cluster = 3, sectors_per_cluster = 1, fat_count = 2, fat_mounted = True,
     disk = \<lparr>pending_writes = 0, world = blank_ata\<rparr>\<rparr>"

lemma demo_mini_ok: "drive_ok (\<lambda>v. v) (disk demo_mini)" "os64_volume demo_mini"
  using blank_ok by (simp_all add: demo_mini_def os64_volume_def)

section \<open>Properties\<close>

text \<open>
  The bytes of a whole cluster, and a file on the volume read cluster by cluster as the table chains
  them. The code treats a cluster as one sector, so its files are laid out this way when
  \<open>sectors_per_cluster\<close> is 1, the value \<open>fat_format\<close> writes.
\<close>

definition cluster_bytes :: "(u32 \<Rightarrow> bytes) \<Rightarrow> 'd mini \<Rightarrow> nat \<Rightarrow> bytes" where
  "cluster_bytes S st c = concat (map (\<lambda>k. S (of_nat (clus_sec c st + k))) [0..<unat (sectors_per_cluster st)])"

definition file_on :: "(u32 \<Rightarrow> bytes) \<Rightarrow> 'd mini \<Rightarrow> string \<Rightarrow> bytes \<Rightarrow> nat list \<Rightarrow> bool" where
  "file_on S st name data cs \<longleftrightarrow>
     (\<exists>slot < 16. slot_of (name83 name (zeros 11)) (rootdir S st) = Some slot \<and>
        r32 (rootdir S st) (slot * 32 + 28) = of_nat (length data) \<and>
        entry_cluster (rootdir S st) slot = of_nat (hd cs)) \<and>
     fchain (F S st) cs \<and> distinct cs \<and> set cs \<subseteq> {3..<maxc st} \<and>
     take (length data) (concat (map (cluster_bytes S st) cs)) = data"

lemma file_on_holds: "sectors_per_cluster st = 1 \<Longrightarrow> file_on S st name data cs = holds_file S st name data cs"
proof -
  assume "sectors_per_cluster st = 1"
  then have "cluster_bytes S st = D S st" by (simp add: cluster_bytes_def D_def fun_eq_iff)
  then show ?thesis by (simp add: file_on_def holds_file_def)
qed

text \<open>The entry of a slot is read from its 32 bytes.\<close>

lemma entry_fields:
  assumes "length R = 512" "length R' = 512" "k < 16" "entry_at R k = entry_at R' k"
  shows "r32 R (k * 32 + 28) = r32 R' (k * 32 + 28)" "entry_cluster R k = entry_cluster R' k"
proof -
  have n: "R ! (k * 32 + n) = R' ! (k * 32 + n)" if "n < 32" for n
    using arg_cong [OF assms(4), of "\<lambda>e. e ! n"] that assms(1-3) by (simp add: entry_at_def)
  have r: "r16 R (k * 32 + n) = r16 R' (k * 32 + n)" if "n < 31" for n
    using n [of n] n [of "n + 1"] that by (simp add: r16_def add.assoc)
  show "r32 R (k * 32 + 28) = r32 R' (k * 32 + 28)" "entry_cluster R k = entry_cluster R' k"
    using r [of 28] r [of 30] r [of 26] r [of 20] by (simp_all add: r32_def entry_cluster_def add.commute)
qed

lemma fchain_used:
  assumes "fchain f cs" "set cs \<subseteq> {3..<n}" "n \<le> 2 ^ 28" "c \<in> set cs"
  shows "f c \<noteq> 0"
  using assms
proof (induction f cs rule: fchain.induct)
  case (3 f d e cs)
  have "e < 2 ^ 28" "3 \<le> e" using 3(3,4) by auto
  then have "unat (of_nat e :: u32) = e" by (simp add: unat_of_nat)
  with \<open>3 \<le> e\<close> have "(of_nat e :: u32) \<noteq> 0" by auto
  with 3 show ?case by auto
qed auto

lemma chain_not_root:
  assumes "fchain f cs" "set cs \<subseteq> {..<n}" "\<forall>c < n. f c \<noteq> r" "of_nat (hd cs) \<noteq> r"
  shows "unat r \<notin> set cs"
  using assms by (induction f cs rule: fchain.induct) auto

lemma other_file_kept:
  assumes ok: "length (rootdir S st) = 512" "length (rootdir S' st') = 512" and vol: "same_vol st st'"
    and rp: "root_private S st"
    and keep: "\<forall>c < maxc st. F S st c \<noteq> 0 \<longrightarrow> c \<notin> X \<longrightarrow> F S' st' c = F S st c \<and>
       (2 \<le> c \<longrightarrow> c \<noteq> unat (root_cluster st) \<longrightarrow> D S' st' c = D S st c)"
    and slots: "\<forall>key'. key' \<noteq> key \<longrightarrow> slot_of key' (rootdir S' st') = slot_of key' (rootdir S st) \<and>
       (\<forall>k. slot_of key' (rootdir S st) = Some k \<longrightarrow> entry_at (rootdir S' st') k = entry_at (rootdir S st) k)"
    and old: "holds_file S st name data cs" "name83 name (zeros 11) \<noteq> key" "set cs \<inter> X = {}"
  shows "holds_file S' st' name data cs"
proof -
  obtain slot where sl: "slot < 16" "slot_of (name83 name (zeros 11)) (rootdir S st) = Some slot"
    "r32 (rootdir S st) (slot * 32 + 28) = of_nat (length data)" "entry_cluster (rootdir S st) slot = of_nat (hd cs)"
    and ch: "fchain (F S st) cs" "distinct cs" "set cs \<subseteq> {3..<maxc st}" "take (length data) (concat (map (D S st) cs)) = data"
    using old(1) by (auto simp: holds_file_def)
  have m: "maxc st \<le> 2 ^ 28" using maxc_bound [of st] by simp
  have root: "unat (root_cluster st) \<notin> set cs"
    by (rule chain_not_root [OF ch(1), of "maxc st"]) (use ch(3) rp sl in \<open>auto simp: root_private_def\<close>)
  have "F S' st' c = F S st c \<and> D S' st' c = D S st c" if c: "c \<in> set cs" for c
  proof -
    have "c < maxc st" "2 \<le> c" "c \<notin> X" "c \<noteq> unat (root_cluster st)" using c ch(3) root old(3) by auto
    with keep fchain_used [OF ch(1,3) m c] show ?thesis by blast
  qed
  then have "fchain (F S' st') cs" and dd: "map (D S' st') cs = map (D S st) cs"
    using ch(1) fchain_cong [of cs "F S' st'" "F S st"] by auto
  moreover have "take (length data) (concat (map (D S' st') cs)) = data" unfolding dd by (rule ch(4))
  moreover have "slot_of (name83 name (zeros 11)) (rootdir S' st') = Some slot"
    "entry_at (rootdir S' st') slot = entry_at (rootdir S st) slot" using slots old(2) sl(2) by auto
  ultimately show ?thesis
    using sl(1,3,4) ch(2,3) same_volD(1) [OF vol] entry_fields [OF ok(2,1) sl(1)] unfolding holds_file_def by auto
qed

lemma rootdir_length:
  assumes "sector_disk ops sec ok" "ok (disk st)"
  shows "length (rootdir (sec (disk st)) st) = 512"
  using sector_disk.sec_length [OF assms] by (simp add: rootdir_def D_def)

text \<open>C10: On a working disk with a well-formed volume of one sector per cluster, enough free clusters and a
  free or matching directory slot, \<open>disk_store_large\<close> succeeds, and afterwards the volume has the file: a
  root directory entry with its name, size and first cluster, an intact chain of clusters without
  repetitions from there, and on these clusters exactly the data. The directory entry of every other
  name keeps its place and its 32 bytes, and every other file, as long as it shares no cluster with the
  file that is replaced, is on the volume as before: same entry, same chain, same bytes.\<close>

theorem disk_store_large_stores:
  assumes "sector_disk ops sec ok" and "ok (disk st)" and "geom st" and "root_private (sec (disk st)) st"
    and "sectors_per_cluster st = 1" and "name83 name (zeros 11) ! 0 \<notin> {0, 0xE5}"
    and "max 1 (length (chunks data)) \<le> card (free_set (F (sec (disk st)) st) (maxc st))"
    and "slot_of (name83 name (zeros 11)) (rootdir (sec (disk st)) st) \<noteq> None \<or>
         free_slot (rootdir (sec (disk st)) st) \<noteq> None"
  shows "\<exists>st' cs. disk_store_large ops name data st = (Some (), st') \<and> ok (disk st') \<and> geom st' \<and>
    file_on (sec (disk st')) st' name data cs \<and>
    (\<forall>key. key \<noteq> name83 name (zeros 11) \<longrightarrow>
       slot_of key (rootdir (sec (disk st')) st') = slot_of key (rootdir (sec (disk st)) st) \<and>
       (\<forall>k. slot_of key (rootdir (sec (disk st)) st) = Some k \<longrightarrow>
          entry_at (rootdir (sec (disk st')) st') k = entry_at (rootdir (sec (disk st)) st) k)) \<and>
    (\<forall>name2 data2 cs2. name83 name2 (zeros 11) \<noteq> name83 name (zeros 11) \<longrightarrow>
       file_on (sec (disk st)) st name2 data2 cs2 \<longrightarrow> set cs2 \<inter> old_chain (sec (disk st)) st name = {} \<longrightarrow>
       file_on (sec (disk st')) st' name2 data2 cs2) \<and>
    (\<forall>c < maxc st. F (sec (disk st)) st c \<noteq> 0 \<longrightarrow> c \<notin> old_chain (sec (disk st)) st name \<longrightarrow>
       F (sec (disk st')) st' c = F (sec (disk st)) st c \<and>
       (2 \<le> c \<longrightarrow> c \<noteq> unat (root_cluster st) \<longrightarrow> D (sec (disk st')) st' c = D (sec (disk st)) st c))"
proof -
  let ?S = "sec (disk st)"
  have nm: "name83 name (zeros 11) ! 0 \<noteq> 0" "name83 name (zeros 11) ! 0 \<noteq> 0xE5" using assms(6) by auto
  from sector_disk.disk_store_large_ok [OF assms(1-4) nm assms(7,8)] obtain st' cs
    where st': "disk_store_large ops name data st = (Some (), st')" "same_vol st st'" "ok (disk st')"
      "holds_file (sec (disk st')) st' name data cs"
    and fr: "\<forall>c < maxc st. F ?S st c \<noteq> 0 \<longrightarrow> c \<notin> old_chain ?S st name \<longrightarrow> F (sec (disk st')) st' c = F ?S st c \<and>
       (2 \<le> c \<longrightarrow> c \<noteq> unat (root_cluster st) \<longrightarrow> D (sec (disk st')) st' c = D ?S st c)"
    and dir: "\<forall>key'. key' \<noteq> name83 name (zeros 11) \<longrightarrow> slot_of key' (rootdir (sec (disk st')) st') = slot_of key' (rootdir ?S st) \<and>
       (\<forall>k. slot_of key' (rootdir ?S st) = Some k \<longrightarrow> entry_at (rootdir (sec (disk st')) st') k = entry_at (rootdir ?S st) k)"
    by (elim exE conjE) (rule that)
  note len = rootdir_length [OF assms(1,2)] rootdir_length [OF assms(1) st'(3)]
  have spc: "sectors_per_cluster st' = 1" using st'(2) assms(5) by (simp add: same_vol_def)
  note on = file_on_holds [OF assms(5)] file_on_holds [OF spc]
  have "file_on (sec (disk st')) st' name2 data2 cs2"
    if "name83 name2 (zeros 11) \<noteq> name83 name (zeros 11)" "file_on ?S st name2 data2 cs2"
      "set cs2 \<inter> old_chain ?S st name = {}" for name2 data2 cs2
    using other_file_kept [OF len st'(2) assms(4) fr dir that(2) [unfolded on] that(1,3)] by (simp add: on)
  with st' fr dir on same_volD(2) [OF st'(2)] assms(3) show ?thesis
    by (intro exI [of _ st'] exI [of _ cs]) simp
qed

theorem disk_store_large_stores_witness:
  "\<exists>st st' cs. fat_format (drive_ops ata_ports) demo_mini = (Some (), st) \<and>
     disk_store_large (drive_ops ata_ports) ''motd.txt'' [79, 75] st = (Some (), st') \<and>
     file_on (drive_sec (\<lambda>v. v) (disk st')) st' ''motd.txt'' [79, 75] cs"
proof -
  note D = ata_sim.drv.sector_disk_axioms
  from reformat [OF D demo_mini_ok] obtain st where st: "fat_format (drive_ops ata_ports) demo_mini = (Some (), st)"
      "drive_ok (\<lambda>v. v) (disk st)" "os64_volume st" "drive_sec (\<lambda>v. v) (disk st) 4066 = label_sector"
    and t: "\<forall>m. 2080 \<le> m \<longrightarrow> m < 3073 \<longrightarrow> drive_sec (\<lambda>v. v) (disk st) (of_nat m) = table_sector m"
    by (elim exE conjE) (rule that)
  note v = sector_disk.new_volume [OF D st(2,3) t [rule_format] st(4)]
  have fs: "free_set (F (drive_sec (\<lambda>v. v) (disk st)) st) (maxc st) = {3..<127008}" by (rule v(2))
  have rd: "rootdir (drive_sec (\<lambda>v. v) (disk st)) st = label_sector" by (rule v(3))
  have spc: "sectors_per_cluster st = 1" using st(3) by (simp add: os64_volume_def)
  have "name83 ''motd.txt'' (zeros 11) ! 0 \<notin> {0, 0xE5}" by code_simp
  moreover have "max 1 (length (chunks [79, 75])) \<le> card (free_set (F (drive_sec (\<lambda>v. v) (disk st)) st) (maxc st))"
    using fs by simp
  moreover have "free_slot (rootdir (drive_sec (\<lambda>v. v) (disk st)) st) \<noteq> None"
    using rd label_facts(3) by simp
  ultimately show ?thesis
    using disk_store_large_stores [OF D st(2) os64_volume_geom(1) [OF st(3)] v(1) spc] st(1) by blast
qed



text \<open>C38: On a disk that was never mounted (the volume variables still have their initial value
  zero), \<open>fat_format\<close> reports success, but it writes the label sector before it sets the volume
  variables, so the label lands on sector 0 and replaces the partition table: the next
  \<open>fat_init\<close> does not find the volume.\<close>

theorem fat_format_clobbers_mbr:
  assumes "sector_disk ops sec ok" and "ok (disk st)"
    and "vol_start st = 0" and "data_start st = 0" and "sectors_per_cluster st = 0"
  shows "\<exists>st'. fat_format ops st = (Some (), st') \<and> sec (disk st') 0 = label_sector \<and>
    fst (fat_init ops st') = None"
proof -
  from sector_disk.fat_format_ok [OF assms(1,2)] obtain st'
    where st': "fat_format ops st = (Some (), st')" "ok (disk st')"
    and at: "\<forall>m < 2 ^ 28. sec (disk st') (of_nat m) =
      formatted (unat (take_bit 28 (cluster_lba 2 st))) (sec (disk st)) m" by (elim exE conjE) (rule that)
  have "cluster_lba 2 st = 0" using assms(3-5) by (simp add: cluster_lba_def)
  with at [rule_format, of 0] have s0: "sec (disk st') 0 = label_sector" by (simp add: formatted_def)
  with sector_disk.rdS_ok(1) [OF assms(1) st'(2), of 0] label_facts(1)
  have "fst (fat_init ops st') = None" by (simp add: fat_init_def)
  with st'(1) s0 show ?thesis by blast
qed

theorem fat_format_clobbers_mbr_witness:
  "\<exists>st'. fat_format (drive_ops ata_ports) (demo_mini\<lparr>vol_start := 0, data_start := 0, sectors_per_cluster := 0\<rparr>)
     = (Some (), st') \<and> fst (fat_init (drive_ops ata_ports) st') = None"
  using fat_format_clobbers_mbr [OF ata_sim.drv.sector_disk_axioms,
      of "demo_mini\<lparr>vol_start := 0, data_start := 0, sectors_per_cluster := 0\<rparr>"] demo_mini_ok(1)
  by auto

end
