(* ===== verification/M64_Shell.thy ===== *)
theory M64_Shell
  imports M64_Input M64_Boot M64_Format
begin

text \<open>
  The command interpreter of Mini64 (\<^verbatim>\<open>src/mini64/kernel.c\<close>, from \<open>parse_u32\<close> to
  \<open>kernel_main\<close>).

  The state of the whole program is the record \<open>shell\<close>: the volume, disk and console state, the
  keyboard, the history, the boot modules and the array \<open>line\<close>. \<open>kernel_boot\<close> is the part of
  \<open>kernel_main\<close> before the loop, \<open>shell_round\<close> is one round of the loop and \<open>dispatch\<close> its chain
  of conditions, with one definition for each command. A command continues with the next round
  (\<open>Go\<close>), stops the processor (\<open>Halted\<close>) or accesses memory outside an array
  (\<open>Crash\<close>); \<open>None\<close> is a command that waits for a key that never comes. The argument
  \<open>un\<close> gives the contents of an uninitialised array of a given length, and \<open>m\<close> the memory with
  the boot modules.
\<close>

section \<open>Numbers\<close>

fun parse_digits :: "u32 \<Rightarrow> string \<Rightarrow> u32 \<times> string" where
  "parse_digits n [] = (n, [])"
| "parse_digits n (c # s) =
     (if between (CHR ''0'') (CHR ''9'') c then parse_digits (n * 10 + ucast (ord c - 48)) s else (n, c # s))"

definition parse_u32 :: "string \<Rightarrow> u32 option" where
  "parse_u32 s =
     (let (n, rest) = parse_digits 0 s
      in if (s = [] \<or> \<not> between (CHR ''0'') (CHR ''9'') (hd s)) \<or> rest \<noteq> [] then None else Some n)"

definition hex_digit :: "char \<Rightarrow> int" where
  "hex_digit c =
     (if between (CHR ''0'') (CHR ''9'') c then uint (ord c) - 48
      else if between (CHR ''a'') (CHR ''f'') c then uint (ord c) - 97 + 10
      else if between (CHR ''A'') (CHR ''F'') c then uint (ord c) - 65 + 10
      else -1)"

text \<open>A byte in hexadecimal with an optional prefix, as \<open>erase -h\<close> and \<open>verify\<close> read it: exactly
  two digits.\<close>

definition parse_byte :: "string \<Rightarrow> u8 option" where
  "parse_byte v =
     (let v = (if take 2 v = ''0x'' \<or> take 2 v = ''0X'' then drop 2 v else v)
      in case v of [a, b] \<Rightarrow>
           if hex_digit a < 0 \<or> hex_digit b < 0 then None
           else Some (word_of_int (hex_digit a * 16 + hex_digit b))
         | _ \<Rightarrow> None)"

section \<open>The state\<close>

record 'w shell =
  mst :: "'w drive mini"
  skbd :: kbd
  shist :: hist
  usable_kib :: u32
  kmod :: "module option"
  imod :: "module option"
  blmod :: "module option"
  cfgmod :: "module option"
  mmod :: "module option"
  line :: "char list"

datatype 'w after = Go "'w shell" | Halted "'w shell" | Crash

definition tell :: "string \<Rightarrow> 'w shell \<Rightarrow> 'w shell" where
  "tell s sh = sh\<lparr>mst := say s (mst sh)\<rparr>"

text \<open>\<open>readline\<close> into an array \<open>b\<close> with the state of the shell.\<close>

definition ask :: "'w ports \<Rightarrow> (nat \<Rightarrow> char list) \<Rightarrow> char list \<Rightarrow> 'w shell \<Rightarrow> (char list outcome \<times> 'w shell) option" where
  "ask io un b sh =
     (let st = mst sh in
      case readline io b (un 128) (shist sh) \<lparr>tkbd = skbd sh, tworld = world (disk st), tcon = con st\<rparr> of
        None \<Rightarrow> None
      | Some (r, t) \<Rightarrow>
          let sh1 = sh\<lparr>skbd := tkbd t, mst := st\<lparr>disk := (disk st)\<lparr>world := tworld t\<rparr>, con := tcon t\<rparr>\<rparr>
          in (case r of Overrun \<Rightarrow> Some (Overrun, sh1)
              | Ret (b', H) \<Rightarrow> Some (Ret b', sh1\<lparr>shist := H\<rparr>)))"

section \<open>Erasing sectors\<close>

fun tokens :: "nat \<Rightarrow> string \<Rightarrow> string list" where
  "tokens 0 s = []"
| "tokens (Suc n) s =
     (let s1 = dropWhile (\<lambda>c. c = CHR '' '') s; tok = takeWhile (\<lambda>c. c \<noteq> CHR '' '') s1
      in if s1 = [] then [] else tok # tokens n (drop (length tok + 1) s1))"

datatype pattern = No_pattern | Byte_pattern u8 | String_pattern string

record erase_opts =
  elba :: "u32 option"
  ecount :: "u32 option"
  replace :: bool
  no_confirm :: bool
  epattern :: pattern

text \<open>The loop over the tokens; a failure is the message printed before the return, which is empty
  for a malformed number.\<close>

fun erase_args :: "string list \<Rightarrow> erase_opts \<Rightarrow> string + erase_opts" where
  "erase_args [] p = Inr p"
| "erase_args (t # ts) p =
     (if t = ''-r'' then erase_args ts (p\<lparr>replace := True\<rparr>)
      else if t = ''-no'' then erase_args ts (p\<lparr>no_confirm := True\<rparr>)
      else if t = ''-h'' \<and> ts \<noteq> [] then
        (case parse_byte (hd ts) of None \<Rightarrow> Inl ''  erase: -h expects exactly one byte (00-FF).\<newline>''
         | Some b \<Rightarrow> if epattern p \<noteq> No_pattern then Inl ''  erase: choose either -h or -s, not both.\<newline>''
             else erase_args (tl ts) (p\<lparr>epattern := Byte_pattern b\<rparr>))
      else if t = ''-s'' \<and> ts \<noteq> [] then
        (if epattern p \<noteq> No_pattern then Inl ''  erase: choose either -h or -s, not both.\<newline>''
         else if hd ts = [] then Inl ''  erase: empty string pattern.\<newline>''
         else erase_args (tl ts) (p\<lparr>epattern := String_pattern (hd ts)\<rparr>))
      else if take 1 t = ''-'' then Inl ''  erase: unknown option.\<newline>''
      else if elba p = None then
        (case parse_u32 t of None \<Rightarrow> Inl [] | Some n \<Rightarrow> erase_args ts (p\<lparr>elba := Some n\<rparr>))
      else if ecount p = None then
        (case parse_u32 t of None \<Rightarrow> Inl [] | Some n \<Rightarrow> erase_args ts (p\<lparr>ecount := Some n\<rparr>))
      else Inl ''  erase: too many operands.\<newline>'')"

definition no_opts :: erase_opts where
  "no_opts = \<lparr>elba = None, ecount = None, replace = False, no_confirm = False, epattern = No_pattern\<rparr>"

definition erase_usage :: string where
  "erase_usage = ''  Usage: erase LBA [COUNT] [-no]\<newline>'' @
     ''         erase -r LBA [COUNT] (-h BYTE|-s STRING) [-no]\<newline>''"

definition erase_block :: "pattern \<Rightarrow> bytes" where
  "erase_block p = map (\<lambda>i. case p of No_pattern \<Rightarrow> 0 | Byte_pattern b \<Rightarrow> b
     | String_pattern s \<Rightarrow> ord (s ! (i mod length (take 64 s)))) [0..<512]"

text \<open>The write loop, with \<open>n\<close> sectors left.\<close>

fun erase_write :: "'d disk_ops \<Rightarrow> u32 \<Rightarrow> bytes \<Rightarrow> nat \<Rightarrow> 'd mini \<Rightarrow> unit option \<times> 'd mini" where
  "erase_write ops l block 0 st = (Some (), st)"
| "erase_write ops l block (Suc n) st =
     check (wrS ops l block) (\<lambda>_. erase_write ops (l + 1) block n) st"

text \<open>The part after the confirmation.\<close>

definition erase_run :: "'w ports \<Rightarrow> u32 \<Rightarrow> u32 \<Rightarrow> pattern \<Rightarrow> 'w drive mini \<Rightarrow> 'w drive mini" where
  "erase_run io l n p st =
     (let (r, st1) = erase_write (drive_ops io) l (erase_block p) (unat n) st
      in if r = None then say ''  erase: ATA write failed.\<newline>'' st1
         else let (r, st2) = flS (drive_ops io) st1
              in if r = None then say ''  erase: ATA flush failed.\<newline>'' st2
                 else say ''  erase: overwrite complete; sectors synchronized.\<newline>'' (st2\<lparr>fat_mounted := False\<rparr>))"

definition erase_sectors :: "'w ports \<Rightarrow> (nat \<Rightarrow> char list) \<Rightarrow> string \<Rightarrow> 'w shell \<Rightarrow> 'w after option" where
  "erase_sectors io un args sh =
     (case erase_args (tokens 9 args) no_opts of Inl msg \<Rightarrow> Some (Go (tell msg sh))
      | Inr p \<Rightarrow>
        let n = (case ecount p of None \<Rightarrow> 1 | Some n \<Rightarrow> n) in
        case elba p of None \<Rightarrow> Some (Go (tell erase_usage sh))
        | Some l \<Rightarrow>
          if n = 0 \<or> (\<not> replace p \<and> epattern p \<noteq> No_pattern) \<or> (replace p \<and> epattern p = No_pattern)
          then Some (Go (tell erase_usage sh))
          else let (r, d) = disk_identify io (disk (mst sh)); sh1 = sh\<lparr>mst := (mst sh)\<lparr>disk := d\<rparr>\<rparr>
            in case r of None \<Rightarrow> Some (Go (tell ''  erase: range is outside the primary ATA disk.\<newline>'' sh1))
               | Some (model, capacity) \<Rightarrow>
                 if l \<ge> capacity \<or> n > capacity - l
                 then Some (Go (tell ''  erase: range is outside the primary ATA disk.\<newline>'' sh1))
                 else if no_confirm p then Some (Go (sh1\<lparr>mst := erase_run io l n (epattern p) (mst sh1)\<rparr>))
                 else map_option (\<lambda>(r, sh2). case r of Overrun \<Rightarrow> Crash
                     | Ret answer \<Rightarrow> if streq_ci (cstr answer) ''erase''
                         then Go (sh2\<lparr>mst := erase_run io l n (epattern p) (mst sh2)\<rparr>)
                         else Go (tell ''  erase: cancelled.\<newline>'' sh2))
                   (ask io un (un 8)
                     (tell (''  WARNING: this permanently overwrites disk sectors.\<newline>'' @
                        ''  Type erase to continue: '') sh1)))"

section \<open>Showing disk contents\<close>

definition say_hex :: "u8 \<Rightarrow> 'd mini \<Rightarrow> 'd mini" where
  "say_hex b st = st\<lparr>con := phex b (con st)\<rparr>"

definition show_partitions :: "'d disk_ops \<Rightarrow> 'd mini \<Rightarrow> 'd mini" where
  "show_partitions ops st =
     (let (r, st1) = rdS ops 0 st in
      case r of None \<Rightarrow> say ''  partitions: cannot read MBR.\<newline>'' st1
      | Some b \<Rightarrow> fold (\<lambda>i st.
          if b ! (446 + i * 16 + 4) = 0 then st
          else say ''\<newline>'' (say_num (r32 b (446 + i * 16 + 12)) (say '' '' (say_num (r32 b (446 + i * 16 + 8)) (say '' ''
                 (say_hex (b ! (446 + i * 16 + 4)) (say ''   0x'' (say_num (of_nat (i + 1)) (say ''  '' st)))))))))
          [0..<4] (say ''  IDX TYPE START-LBA SECTORS\<newline>'' st1))"

definition show_pstore :: "'d disk_ops \<Rightarrow> 'd mini \<Rightarrow> 'd mini" where
  "show_pstore ops st =
     (let (r, st1) = rdS ops 2039 st in
      case r of None \<Rightarrow> say ''  pstore: read failed.\<newline>'' st1
      | Some b \<Rightarrow>
        if r32 b 0 \<noteq> 0x52545350 then say ''  pstore: no persistent panic record.\<newline>'' st1
        else let n = unat (r32 b 4) in
          if n > 496 then say ''  pstore: invalid record length.\<newline>'' st1
          else let st2 = say (map chr (take n (drop 16 b))) (say (''  Persistent panic record:\<newline>'' @ ''  '') st1)
            in if n = 0 \<or> b ! (15 + n) \<noteq> 10 then say ''\<newline>'' st2 else st2)"

definition hexdump :: "'d disk_ops \<Rightarrow> u32 \<Rightarrow> 'd mini \<Rightarrow> 'd mini" where
  "hexdump ops l st =
     (let (r, st1) = rdS ops l st in
      case r of None \<Rightarrow> say ''  hexdump: sector read failed.\<newline>'' st1
      | Some b \<Rightarrow> fold (\<lambda>i st. say ''\<newline>''
          (fold (\<lambda>j st. say '' '' (say_hex (b ! (16 * i + j)) st)) [0..<16]
             (say '': '' (say_hex (of_nat (16 * i)) (say_hex (of_nat (16 * i div 256)) st))))) [0..<8] st1)"

definition verify_sector :: "'d disk_ops \<Rightarrow> string \<Rightarrow> 'd mini \<Rightarrow> 'd mini" where
  "verify_sector ops arg st =
     (let lba = takeWhile (\<lambda>c. c \<noteq> CHR '' '') arg; rest = drop (length lba) arg
      in if rest = [] then say ''  Usage: verify LBA BYTE\<newline>'' st
         else case (parse_u32 lba, parse_byte (dropWhile (\<lambda>c. c = CHR '' '') rest)) of
           (Some l, Some expected) \<Rightarrow>
             let (r, st1) = rdS ops l st in
             (case r of None \<Rightarrow> say ''  verify: sector read failed.\<newline>'' st1
              | Some b \<Rightarrow> say (if list_all (\<lambda>x. x = expected) b then ''  verify: sector matches.\<newline>''
                  else ''  verify: sector differs.\<newline>'') st1)
         | _ \<Rightarrow> say ''  Usage: verify LBA BYTE\<newline>'' st)"

section \<open>Commands\<close>

text \<open>\<open>fat_mounted || fat_init()\<close>.\<close>

definition mounted_or_init :: "'d disk_ops \<Rightarrow> 'd mini \<Rightarrow> bool \<times> 'd mini" where
  "mounted_or_init ops st =
     (if fat_mounted st then (True, st) else let (r, st1) = fat_init ops st in (r \<noteq> None, st1))"

definition help_text :: string where
  "help_text = concat [''\<newline>'', ''  Commands:\<newline>'',
     ''    boot                 Restart the system\<newline>'',
     ''    reboot               Alias for boot\<newline>'',
     ''    halt                 Stop the processor\<newline>'',
     ''    install [-no]        Install a complete bootable OS64 system\<newline>'',
     ''    recover              Install OS64 kernel+initrd to disk\<newline>'',
     ''    recover-with-bl      Install kernel+initrd+bootloader\<newline>'',
     ''    bootmode [mode]      Read/set boot mode (e.g. minios)\<newline>'',
     ''    status               Show rescue and disk status\<newline>'',
     ''    uname | version      Show Mini64 release information\<newline>'',
     ''    meminfo              Show Multiboot usable memory\<newline>'',
     ''    modules              Show recovery payload modules\<newline>'',
     ''    diskinfo             Identify the primary ATA disk\<newline>'',
     ''    chkfs                Validate FAT32 metadata\<newline>'',
     ''    mount | umount       Mount/unmount the FAT32 volume\<newline>'',
     ''    sync                 Flush pending ATA writes\<newline>'',
     ''    ls                   List files on the FAT32 partition\<newline>'',
     ''    hexdump LBA          Dump the first 128 bytes of a sector\<newline>'',
     ''    partitions           Show the MBR partition table\<newline>'',
     ''    pstore               Show the persistent panic record\<newline>'',
     ''    verify LBA BYTE      Verify a sector is filled with hex BYTE\<newline>'',
     ''    erase LBA [COUNT]    Zero sectors after confirmation\<newline>'',
     ''    erase -r ...         Replace using -h BYTE or -s STRING\<newline>'',
     ''    format               Create a new FAT32 partition\<newline>'',
     ''    history              Show command history\<newline>'',
     ''    echo TEXT            Print text\<newline>'',
     ''    clear                Clear the display\<newline>'',
     ''    help                 Show this help\<newline>'', ''\<newline>'']"

definition cmd_boot :: "'w ports \<Rightarrow> 'w shell \<Rightarrow> 'w after" where
  "cmd_boot io sh =
     (let st = say ''  Rebooting...\<newline>'' (mst sh)
      in Halted (sh\<lparr>mst := st\<lparr>disk := (disk st)\<lparr>world := outb io 0x64 0xFE (world (disk st))\<rparr>\<rparr>\<rparr>))"

text \<open>The last part of the command \<open>install\<close>.\<close>

definition install_run :: "'w ports \<Rightarrow> memory \<Rightarrow> 'w shell \<Rightarrow> 'w shell" where
  "install_run io m sh =
     (let (r, st) = do_recover (drive_ops io) m (the (kmod sh)) (imod sh) (blmod sh) (cfgmod sh) (mmod sh)
            (say ''  Installing OS64 to the primary ATA disk...\<newline>'' (mst sh))
      in sh\<lparr>mst := say (if r \<noteq> None then ''  Installation complete.\<newline>''
          else ''  install: installation failed.\<newline>'') st\<rparr>)"

definition cmd_install :: "'w ports \<Rightarrow> (nat \<Rightarrow> char list) \<Rightarrow> memory \<Rightarrow> bool \<Rightarrow> 'w shell \<Rightarrow> 'w after option" where
  "cmd_install io un m noconf sh =
     (if kmod sh = None \<or> imod sh = None \<or> blmod sh = None \<or> cfgmod sh = None \<or> mmod sh = None
      then Some (Go (tell ''  install: required kernel, initrd, Mini64, policy, or bootloader payload is missing.\<newline>'' sh))
      else let (mounted, st) = mounted_or_init (drive_ops io) (mst sh); sh1 = sh\<lparr>mst := st\<rparr>
        in if mounted \<or> noconf then Some (Go (install_run io m sh1))
           else map_option (\<lambda>(r, sh2). case r of Overrun \<Rightarrow> Crash
               | Ret answer \<Rightarrow> if streq_ci (cstr answer) ''install'' then Go (install_run io m sh2)
                   else Go (tell ''  install: cancelled.\<newline>'' sh2))
             (ask io un (un 12)
               (tell (''  WARNING: installation will repartition and format the primary disk.\<newline>'' @
                  ''  Type install to continue: '') sh1)))"

definition recover_with :: "'w ports \<Rightarrow> memory \<Rightarrow> module option \<Rightarrow> module option \<Rightarrow> module option \<Rightarrow> 'w shell \<Rightarrow> 'w shell" where
  "recover_with io m bl cfg mm sh =
     sh\<lparr>mst := snd (do_recover (drive_ops io) m (the (kmod sh)) (imod sh) bl cfg mm (mst sh))\<rparr>"

definition cmd_recover :: "'w ports \<Rightarrow> memory \<Rightarrow> 'w shell \<Rightarrow> 'w shell" where
  "cmd_recover io m sh =
     (if kmod sh = None then tell (concat [''  No kernel.bin module available.\<newline>'',
        ''  GRUB must pass kernel.bin and initrd.tar as modules:\<newline>'',
        ''    multiboot2 /boot/mini64/mini64.bin\<newline>'',
        ''    module2 /boot/kernel.bin kernel\<newline>'',
        ''    module2 /boot/initrd.tar initrd\<newline>'']) sh
      else recover_with io m None None None sh)"

definition cmd_recover_with_bl :: "'w ports \<Rightarrow> memory \<Rightarrow> 'w shell \<Rightarrow> 'w shell" where
  "cmd_recover_with_bl io m sh =
     (if kmod sh = None then tell (concat [''  No kernel.bin module available.\<newline>'',
        ''  GRUB must pass kernel.bin, initrd.tar, and bootloader:\<newline>'',
        ''    multiboot2 /boot/mini64/mini64.bin\<newline>'',
        ''    module2 /boot/kernel.bin kernel\<newline>'',
        ''    module2 /boot/initrd.tar initrd\<newline>'',
        ''    module2 /boot/os64-boot.img bootloader\<newline>'']) sh
      else if blmod sh = None
      then recover_with io m None None None
        (tell ''  No bootloader module available (recovering without it).\<newline>'' sh)
      else recover_with io m (blmod sh) (cfgmod sh) (mmod sh) sh)"

definition cmd_ls :: "'d disk_ops \<Rightarrow> 'd mini \<Rightarrow> 'd mini" where
  "cmd_ls ops st =
     (let (mounted, st1) = mounted_or_init ops st
      in if mounted then list_dir ops st1 else say ''  No FAT32 partition.\<newline>'' st1)"

definition module_line :: "module option \<Rightarrow> 'd mini \<Rightarrow> 'd mini" where
  "module_line md st =
     (case md of Some (a, n) \<Rightarrow> say '' bytes\<newline>'' (say_num n st) | None \<Rightarrow> say ''missing\<newline>'' st)"

definition cmd_modules :: "'w shell \<Rightarrow> 'w shell" where
  "cmd_modules sh = sh\<lparr>mst :=
     module_line (mmod sh) (say ''  Mini64 image ''
     (module_line (cfgmod sh) (say ''  boot policy  ''
     (module_line (blmod sh) (say ''  bootloader   ''
     (module_line (imod sh) (say ''  initrd.tar   ''
     (module_line (kmod sh) (say ''  kernel.bin   '' (mst sh))))))))))\<rparr>"

definition cmd_diskinfo :: "'w ports \<Rightarrow> 'w drive mini \<Rightarrow> 'w drive mini" where
  "cmd_diskinfo io st =
     (let (r, d) = disk_identify io (disk st); st1 = st\<lparr>disk := d\<rparr>
      in case r of None \<Rightarrow> say ''  No primary ATA disk detected.\<newline>'' st1
         | Some (model, n) \<Rightarrow> say '' MiB (512-byte sectors)\<newline>'' (say_num (n div 2048)
             (say (''\<newline>'' @ ''  Capacity: '') (say model (say ''  Model: '' st1)))))"

definition loaded :: "'a option \<Rightarrow> string" where
  "loaded md = (if md = None then ''missing\<newline>'' else ''loaded\<newline>'')"

definition cmd_status :: "'w ports \<Rightarrow> 'w shell \<Rightarrow> 'w shell" where
  "cmd_status io sh =
     (let st = say (concat [''\<newline>'', ''  Rescue environment : ready\<newline>'',
            ''  kernel.bin module  : '', loaded (kmod sh), ''  initrd.tar module  : '', loaded (imod sh),
            ''  bootloader module  : '', loaded (blmod sh), ''  boot policy module : '', loaded (cfgmod sh),
            ''  Mini64 module      : '', loaded (mmod sh), ''  FAT32 volume       : '']) (mst sh);
          (mounted, st1) = mounted_or_init (drive_ops io) st
      in sh\<lparr>mst := say ''\<newline>'' (say (if mounted then ''mounted\<newline>'' else ''not found\<newline>'') st1)\<rparr>)"

definition cmd_chkfs :: "'d disk_ops \<Rightarrow> 'd mini \<Rightarrow> 'd mini" where
  "cmd_chkfs ops st =
     (let (r, st1) = fat_check ops (say ''  Checking partition table, FAT32 BPB, FSInfo, and root chain... '' st)
      in say (if r \<noteq> None then ''OK\<newline>'' else ''FAILED\<newline>'') st1)"

definition cmd_mount :: "'d disk_ops \<Rightarrow> 'd mini \<Rightarrow> 'd mini" where
  "cmd_mount ops st =
     (let (r, st1) = fat_init ops st
      in say (if r \<noteq> None then ''  /dev/hda1 mounted as FAT32 recovery volume.\<newline>''
           else ''  mount: FAT32 volume not found.\<newline>'') st1)"

definition cmd_umount :: "'d disk_ops \<Rightarrow> 'd mini \<Rightarrow> 'd mini" where
  "cmd_umount ops st =
     (if \<not> fat_mounted st then say ''  umount: volume is not mounted.\<newline>'' st
      else let (r, st1) = flS ops st
        in if r = None then say ''  umount: disk flush failed.\<newline>'' st1
           else say ''  FAT32 recovery volume unmounted.\<newline>'' (st1\<lparr>fat_mounted := False\<rparr>))"

definition cmd_sync :: "'d disk_ops \<Rightarrow> 'd mini \<Rightarrow> 'd mini" where
  "cmd_sync ops st =
     (let (r, st1) = flS ops st
      in say (if r \<noteq> None then ''  Disk writes synchronized.\<newline>'' else ''  sync: ATA flush failed.\<newline>'') st1)"

definition cmd_history :: "'w shell \<Rightarrow> 'w shell" where
  "cmd_history sh = sh\<lparr>mst := fold (\<lambda>i st.
     say ''\<newline>'' (say (cstr (history (shist sh) ! i)) (say ''  ''
       (say_num (of_nat (hist_count (shist sh) - i)) (say ''  '' st)))))
     (rev [0..<hist_count (shist sh)]) (mst sh)\<rparr>"

definition cmd_format :: "'d disk_ops \<Rightarrow> 'd mini \<Rightarrow> 'd mini" where
  "cmd_format ops st =
     (let (r, st1) = fat_format ops (say ''  Creating FAT32 partition...\<newline>'' st)
      in say (if r \<noteq> None then ''  Format complete.\<newline>'' else ''  Format failed.\<newline>'') st1)"

definition cmd_clear :: "'d mini \<Rightarrow> 'd mini" where
  "cmd_clear st = st\<lparr>con := (if fb (con st) \<noteq> 0 then fb_clear (con st) else vga_clear (con st))\<rparr>"

definition mode_flag :: "string \<Rightarrow> string option" where
  "mode_flag arg =
     (if arg = ''desktop'' then Some ''MODEDESK.FLG'' else if arg = ''cli'' then Some ''MODECLI.FLG''
      else if arg = ''debug'' then Some ''MODEDBG.FLG'' else if arg = ''recovery'' then Some ''MODERECV.FLG''
      else None)"

text \<open>The branch of \<open>bootmode\<close> that sets a valid mode; the results of the disk operations are ignored.\<close>

definition set_bootmode :: "'d disk_ops \<Rightarrow> string \<Rightarrow> 'd mini \<Rightarrow> 'd mini" where
  "set_bootmode ops arg st =
     (let st1 = snd (disk_store_large ops ''BOOTMODE.CFG'' (map ord (''set os64_bootmode='' @ arg @ ''\<newline>'')) st);
          st2 = fold (\<lambda>f st. snd (delete_root_file ops f st))
            [''MODEDESK.FLG'', ''MODECLI.FLG'', ''MODEDBG.FLG'', ''MODERECV.FLG''] st1;
          st3 = (case mode_flag arg of None \<Rightarrow> st2 | Some f \<Rightarrow> snd (disk_store_large ops f [49] st2))
      in say ''\<newline>'' (say arg (say ''  Boot mode set to: '' st3)))"

definition cmd_bootmode :: "'d disk_ops \<Rightarrow> string \<Rightarrow> 'd mini \<Rightarrow> 'd mini outcome" where
  "cmd_bootmode ops arg st =
     (let (mounted, st1) = mounted_or_init ops st in
      if \<not> mounted then Ret (say ''  No FAT32 partition.\<newline>'' st1)
      else if arg = [] then
        let (r, st2) = read_bootmode ops 64 st1 in
        (case r of Some Overrun \<Rightarrow> Overrun
         | Some (Ret mode) \<Rightarrow> if mode \<noteq> [] then Ret (say ''\<newline>'' (say mode (say ''  Boot mode: '' st2)))
             else Ret (say ''  Boot mode: normal (default)\<newline>'' st2)
         | None \<Rightarrow> Ret (say ''  Boot mode: normal (default)\<newline>'' st2))
      else if arg \<notin> {''normal'', ''desktop'', ''cli'', ''debug'', ''recovery''}
      then Ret (say ''  Invalid mode. Use normal, desktop, cli, debug, or recovery.\<newline>'' st1)
      else Ret (set_bootmode ops arg st1))"

section \<open>The command loop\<close>

definition onm :: "('w drive mini \<Rightarrow> 'w drive mini) \<Rightarrow> 'w shell \<Rightarrow> 'w shell" where
  "onm f sh = sh\<lparr>mst := f (mst sh)\<rparr>"

definition dispatch :: "'w ports \<Rightarrow> (nat \<Rightarrow> char list) \<Rightarrow> memory \<Rightarrow> string \<Rightarrow> 'w shell \<Rightarrow> 'w after option" where
  "dispatch io un m ln sh =
     (let ops = drive_ops io; go = (\<lambda>sh. Some (Go sh)) in
      if streq ln ''help'' then go (tell help_text sh)
      else if streq ln ''boot'' \<or> streq ln ''reboot'' then Some (cmd_boot io sh)
      else if streq ln ''halt'' then Some (Halted (tell ''  System halted.\<newline>'' sh))
      else if streq ln ''install'' \<or> streq ln ''install -no'' then cmd_install io un m (streq ln ''install -no'') sh
      else if streq ln ''recover'' then go (cmd_recover io m sh)
      else if streq ln ''recover-with-bl'' then go (cmd_recover_with_bl io m sh)
      else if streq ln ''ls'' then go (onm (cmd_ls ops) sh)
      else if streq ln ''uname'' \<or> streq ln ''version'' then
        go (tell ''  Mini64 1.0 i386 - OS64 recovery environment\<newline>'' sh)
      else if streq ln ''meminfo'' then
        go (onm (\<lambda>st. say '' KiB (Multiboot memory map)\<newline>'' (say_num (usable_kib sh) (say ''  Usable memory: '' st))) sh)
      else if streq ln ''modules'' then go (cmd_modules sh)
      else if streq ln ''diskinfo'' then go (onm (cmd_diskinfo io) sh)
      else if streq ln ''status'' then go (cmd_status io sh)
      else if streq ln ''chkfs'' then go (onm (cmd_chkfs ops) sh)
      else if streq ln ''mount'' then go (onm (cmd_mount ops) sh)
      else if streq ln ''umount'' then go (onm (cmd_umount ops) sh)
      else if streq ln ''sync'' then go (onm (cmd_sync ops) sh)
      else if startswith ln ''hexdump '' then
        go (case parse_u32 (drop 8 ln) of None \<Rightarrow> tell ''  Usage: hexdump LBA\<newline>'' sh
            | Some l \<Rightarrow> onm (hexdump ops l) sh)
      else if streq ln ''hexdump'' then go (tell ''  Usage: hexdump LBA\<newline>'' sh)
      else if streq ln ''partitions'' \<or> streq ln ''fdisk -l'' then go (onm (show_partitions ops) sh)
      else if streq ln ''pstore'' then go (onm (show_pstore ops) sh)
      else if startswith ln ''verify '' then go (onm (verify_sector ops (drop 7 ln)) sh)
      else if streq ln ''verify'' then go (tell ''  Usage: verify LBA BYTE\<newline>'' sh)
      else if startswith ln ''erase '' then erase_sectors io un (drop 6 ln) sh
      else if streq ln ''erase'' then go (tell erase_usage sh)
      else if streq ln ''history'' then go (cmd_history sh)
      else if streq ln ''echo'' then go (tell ''\<newline>'' sh)
      else if startswith ln ''echo '' then go (tell ''\<newline>'' (tell (drop 5 ln) sh))
      else if streq ln ''format'' then go (onm (cmd_format ops) sh)
      else if streq ln ''clear'' then go (onm cmd_clear sh)
      else if streq ln ''bootmode'' \<or> startswith ln ''bootmode '' then
        (case cmd_bootmode ops (dropWhile (\<lambda>c. c = CHR '' '') (drop 8 ln)) (mst sh) of
           Overrun \<Rightarrow> Some Crash | Ret st \<Rightarrow> go (sh\<lparr>mst := st\<rparr>))
      else if ln \<noteq> [] then go (tell (''  Unknown. Type '' @ [CHR 0x27] @ ''help'' @ [CHR 0x27] @ ''.\<newline>'') sh)
      else go sh)"

definition shell_round :: "'w ports \<Rightarrow> (nat \<Rightarrow> char list) \<Rightarrow> memory \<Rightarrow> 'w shell \<Rightarrow> 'w after option" where
  "shell_round io un m sh =
     Option.bind (ask io un (line sh) (tell ''  Mini64> '' sh)) (\<lambda>(r, sh1).
       case r of Overrun \<Rightarrow> Some Crash
       | Ret b \<Rightarrow> dispatch io un m (cstr b) (sh1\<lparr>line := b\<rparr>))"

text \<open>The last module with one of the names; a module at address 0 is the null pointer.\<close>

definition find_module :: "string list \<Rightarrow> (module_t \<times> string) list \<Rightarrow> module option" where
  "find_module names mods =
     fold (\<lambda>(md, nm) acc. if list_ex (streq nm) names
       then (if mod_start md = 0 then None else Some (unat (mod_start md), mod_end md - mod_start md)) else acc) mods None"

definition banner_line :: "string \<Rightarrow> module option \<Rightarrow> 'd mini \<Rightarrow> 'd mini" where
  "banner_line s md st =
     (case md of None \<Rightarrow> st | Some (a, n) \<Rightarrow> say '' bytes\<newline>'' (say_num n (say s st)))"

definition kernel_boot :: "'w ports \<Rightarrow> memory \<Rightarrow> u32 \<Rightarrow> 'w shell \<Rightarrow> 'w shell option" where
  "kernel_boot io m mb sh =
     Option.bind (parse_modules m mb 6) (\<lambda>mods.
     Option.bind (memory_kib m mb) (\<lambda>kib.
     Option.bind (fb_init m mb (con (mst sh))) (\<lambda>c.
       let k = find_module [''kernel'', ''kernel.bin''] mods;
           i = find_module [''initrd'', ''initrd.tar'', ''initrd.bin''] mods;
           bl = find_module [''bootloader'', ''os64-boot.img''] mods;
           cfg = find_module [''manager'', ''grub.cfg''] mods;
           mm = find_module [''mini64'', ''mini64.bin''] mods;
           st = say (concat [''\<newline>'', ''  ============================\<newline>'', ''   Mini64 - OS64 Rescue System\<newline>'',
              ''  ============================\<newline>'', ''\<newline>''])
              ((mst sh)\<lparr>con := (if fb c \<noteq> 0 then fb_clear c else c)\<rparr>);
           st = say ''\<newline>'' (banner_line ''  Mini64 install module: '' mm (banner_line ''  boot policy module: '' cfg
              (banner_line ''  bootloader module: '' bl (banner_line ''  initrd.tar module: '' i
                (banner_line ''  kernel.bin module: '' k st)))));
           (r, st) = fat_init (drive_ops io) st;
           st = (if r = None then say ''  No FAT32 partition found (format on recover).\<newline>'' st
              else let (r, st) = clear_panic_flag (drive_ops io) (say ''  FAT32 partition detected.\<newline>'' st)
                in if r = None then st else say ''  Panic boot flag consumed; the next boot will be normal.\<newline>'' st);
           st = say (concat [''  Type '', [CHR 0x27], ''help'', [CHR 0x27], '' for commands.\<newline>'', ''\<newline>'']) st
       in Some (sh\<lparr>mst := st, usable_kib := kib, kmod := k, imod := i, blmod := bl, cfgmod := cfg, mmod := mm\<rparr>))))"

text \<open>The loop ends when a command stops the processor (the result is the state then) or
  accesses memory outside an array (no result).\<close>

partial_function (option) main_loop :: "'w ports \<Rightarrow> (nat \<Rightarrow> char list) \<Rightarrow> memory \<Rightarrow> 'w shell \<Rightarrow> 'w shell option option" where
  "main_loop io un m sh =
     Option.bind (shell_round io un m sh) (\<lambda>r. case r of
       Go sh' \<Rightarrow> main_loop io un m sh' | Halted sh' \<Rightarrow> Some (Some sh') | Crash \<Rightarrow> Some None)"

definition kernel_main :: "'w ports \<Rightarrow> (nat \<Rightarrow> char list) \<Rightarrow> memory \<Rightarrow> u32 \<Rightarrow> 'w shell \<Rightarrow> 'w shell option option" where
  "kernel_main io un m mb sh = Option.bind (kernel_boot io m mb sh) (main_loop io un m)"

section \<open>Commands that only read\<close>

lemma say_hex_disk [simp]: "disk (say_hex b st) = disk st"
  by (simp add: say_hex_def)

lemma disk_fold [simp]: "(\<And>x st. disk (f x st) = disk st) \<Longrightarrow> disk (fold f xs st) = disk st"
  by (induction xs arbitrary: st) simp_all

lemma list_entry_disk [simp]: "disk (list_entry e st) = disk st"
  by (simp add: list_entry_def Let_def)

context sector_disk
begin

text \<open>\<open>f\<close> works on a working disk and changes no sector.\<close>

definition ro :: "('d mini \<Rightarrow> 'd mini) \<Rightarrow> bool" where
  "ro f \<longleftrightarrow> (\<forall>st. ok (disk st) \<longrightarrow> ok (disk (f st)) \<and> SS (f st) = SS st)"

lemmas ro_defs = ro_def rdS_def flS_def check_def split_def Let_def

lemma ro_fat_init: "ro (\<lambda>st. snd (fat_init ops st))"
  by (auto simp: ro_defs fat_init_def)

lemma ro_mounted: "ro (\<lambda>st. snd (mounted_or_init ops st))"
  using ro_fat_init by (auto simp: ro_def mounted_or_init_def split_def Let_def)

lemma ro_fat_get: "ro (\<lambda>st. snd (fat_get ops c st))"
  by (auto simp: ro_defs fat_get_def)

lemma ro_rdS: "ro (\<lambda>st. snd (rdS ops l st))"
  by (auto simp: ro_defs)

lemma ro_fat_check: "ro (\<lambda>st. snd (fat_check ops st))"
proof -
  have "SS (snd (fat_check ops st)) = SS st \<and> ok (disk (snd (fat_check ops st)))" if "ok (disk st)" for st
  proof (cases "fst (fat_init ops st)")
    case None
    with ro_fat_init that show ?thesis by (auto simp: ro_def fat_check_def)
  next
    case (Some u)
    define st1 where "st1 = snd (fat_init ops st)"
    have st1: "ok (disk st1)" "SS st1 = SS st" using ro_fat_init that by (auto simp: ro_def st1_def)
    define st2 where "st2 = snd (rdS ops (vol_start st1 + 1) st1)"
    have st2: "ok (disk st2)" "SS st2 = SS st" using rdS_ok [OF st1(1)] st1(2) by (auto simp: st2_def)
    have "ok (disk (snd (fat_get ops c st2)))" "SS (snd (fat_get ops c st2)) = SS st" for c
      using ro_fat_get st2 by (auto simp: ro_def)
    with Some rdS_ok [OF st1(1)] st2 show ?thesis
      by (simp add: fat_check_def st1_def [symmetric] st2_def [symmetric] split_def Let_def)
  qed
  then show ?thesis by (simp add: ro_def)
qed

lemma ro_shows:
  "ro (list_dir ops)" "ro (show_partitions ops)" "ro (show_pstore ops)" "ro (hexdump ops l)"
  "ro (verify_sector ops arg)"
  by (auto simp: ro_defs list_dir_def show_partitions_def show_pstore_def hexdump_def verify_sector_def split: option.split)

lemma ro_cmds:
  "ro (cmd_ls ops)" "ro (cmd_chkfs ops)" "ro (cmd_mount ops)" "ro (cmd_umount ops)" "ro (cmd_sync ops)"
proof -
  show "ro (cmd_ls ops)" using ro_mounted ro_shows(1) by (simp add: ro_def cmd_ls_def split_def Let_def)
  show "ro (cmd_chkfs ops)" using ro_fat_check by (simp add: ro_def cmd_chkfs_def split_def Let_def)
  show "ro (cmd_mount ops)" using ro_fat_init by (simp add: ro_def cmd_mount_def split_def Let_def)
  show "ro (cmd_umount ops)" "ro (cmd_sync ops)"
    by (auto simp: ro_defs cmd_umount_def cmd_sync_def)
qed

text \<open>Reading the boot mode into the array of 64 characters.\<close>

lemma read_bootmode_64:
  assumes "ok (disk st)"
  shows "fst (read_bootmode ops 64 st) =
      (case slot_of (name83 ''BOOTMODE.CFG'' (zeros 11)) (SS st (cluster_lba (root_cluster st) st)) of None \<Rightarrow> None
       | Some slot \<Rightarrow> Some (if r32 (SS st (cluster_lba (root_cluster st) st)) (slot * 32 + 28) = 0 then Ret [] else Overrun))"
    and "ok (disk (snd (read_bootmode ops 64 st)))" "SS (snd (read_bootmode ops 64 st)) = SS st"
proof -
  define st1 where "st1 = snd (rdS ops (cluster_lba (root_cluster st) st) st)"
  note r = rdS_ok [OF assms, of "cluster_lba (root_cluster st) st", folded st1_def]
  let ?root = "SS st (cluster_lba (root_cluster st) st)"
  have f: "find_entry ops ''BOOTMODE.CFG'' st = (map_option (Pair ?root) (slot_of (name83 ''BOOTMODE.CFG'' (zeros 11)) ?root), st1)"
    using r(1) by (simp add: find_entry_def st1_def)
  have n: "(min (unat k) 63 + 511) div 512 = (if k = 0 then 0 else Suc 0)" for k :: u32
  proof (cases "k = 0")
    case False
    then have "0 < unat k" by (simp add: unat_gt_0)
    then have "Suc 0 * 512 \<le> min (unat k) 63 + 511" "min (unat k) 63 + 511 < Suc (Suc 0) * 512" by auto
    then show ?thesis using False by (simp add: div_nat_eqI)
  qed simp
  have v: "bootmode_value 64 (cstr (map chr ((zeros 64)[0 := 0]))) = []" by code_simp
  show "fst (read_bootmode ops 64 st) =
      (case slot_of (name83 ''BOOTMODE.CFG'' (zeros 11)) ?root of None \<Rightarrow> None
       | Some slot \<Rightarrow> Some (if r32 ?root (slot * 32 + 28) = 0 then Ret [] else Overrun))"
    "ok (disk (snd (read_bootmode ops 64 st)))" "SS (snd (read_bootmode ops 64 st)) = SS st"
    using rdS_ok [OF r(2)] r
    by (auto simp: read_bootmode_def check_def f n v Let_def split: option.split)
qed

lemma erase_write_ok:
  assumes "ok (disk st)" and "length block = 512" and "unat l + n \<le> 2 ^ 28"
  shows "\<exists>st'. erase_write ops l block n st = (Some (), st') \<and> ok (disk st') \<and>
    (\<forall>k < 2 ^ 28. SS st' (of_nat k) = (if unat l \<le> k \<and> k < unat l + n then block else SS st (of_nat k)))"
  using assms
proof (induction n arbitrary: l st)
  case (Suc n)
  define st1 where "st1 = snd (wrS ops l block st)"
  note w = wrS_ok [OF Suc.prems(1,2), of l, folded st1_def]
  have l: "unat (l + 1) = unat l + 1" using Suc.prems(3) u32_add [of l 1] by simp
  have at: "SS st1 (of_nat k) = (if k = unat l then block else SS st (of_nat k))" if "k < 2 ^ 28" for k
    using wrS_at [OF Suc.prems(1,2) _ that, of "unat l"] Suc.prems(3) by (simp add: st1_def)
  from Suc.IH [OF w(2) Suc.prems(2), of "l + 1"] obtain st' where
    st': "erase_write ops (l + 1) block n st1 = (Some (), st')" "ok (disk st')" and
    s: "\<forall>k < 2 ^ 28. SS st' (of_nat k) = (if unat l + 1 \<le> k \<and> k < unat l + 1 + n then block else SS st1 (of_nat k))"
    using Suc.prems(3) l by auto
  have "erase_write ops l block (Suc n) st = (Some (), st')" using w(1) st'(1) by (simp add: st1_def)
  moreover have "SS st' (of_nat k) = (if unat l \<le> k \<and> k < unat l + Suc n then block else SS st (of_nat k))"
    if "k < 2 ^ 28" for k
    unfolding s [rule_format, OF that] at [OF that] by auto
  ultimately show ?case using st'(2) by blast
qed auto

end

lemma length_erase_block [simp]: "length (erase_block p) = 512"
  by (simp add: erase_block_def)

definition capacity :: "ata \<Rightarrow> u32" where
  "capacity v = ucast (ident v ! 60) OR push_bit 16 (ucast (ident v ! 61))"

definition erase_count :: "erase_opts \<Rightarrow> u32" where
  "erase_count p = (case ecount p of None \<Rightarrow> 1 | Some n \<Rightarrow> n)"

definition opts_ok :: "erase_opts \<Rightarrow> bool" where
  "opts_ok p \<longleftrightarrow> elba p \<noteq> None \<and> erase_count p \<noteq> 0 \<and> (replace p \<longleftrightarrow> epattern p \<noteq> No_pattern)"

lemma mst_tell [simp]: "disk (mst (tell s sh)) = disk (mst sh)"
  by (simp add: tell_def)

lemma range_fits: "\<lbrakk>l < c; n \<le> c - l; unat c \<le> 2 ^ 28\<rbrakk> \<Longrightarrow> unat l + unat n \<le> 2 ^ 28" for l n c :: u32
  by (auto simp: word_le_nat_alt word_less_nat_alt unat_sub)

context ata_device
begin

lemma erase_run_ok:
  assumes "drive_ok view (disk st)" and "unat l + unat n \<le> 2 ^ 28"
  shows "drive_ok view (disk (erase_run io l n p st)) \<and> \<not> fat_mounted (erase_run io l n p st) \<and>
    (\<forall>k < 2 ^ 28. drive_sec view (disk (erase_run io l n p st)) (of_nat k) =
       (if unat l \<le> k \<and> k < unat l + unat n then erase_block p else drive_sec view (disk st) (of_nat k)))"
proof -
  obtain st1 where st1: "erase_write (drive_ops io) l (erase_block p) (unat n) st = (Some (), st1)" "drive_ok view (disk st1)"
    and s: "\<forall>k < 2 ^ 28. drive_sec view (disk st1) (of_nat k) =
      (if unat l \<le> k \<and> k < unat l + unat n then erase_block p else drive_sec view (disk st) (of_nat k))"
    using drv.erase_write_ok [OF assms(1) length_erase_block assms(2)] by blast
  then show ?thesis
    by (simp add: erase_run_def Let_def split_def flS_def say_def)
qed

lemma erase_sectors_ok:
  assumes "drive_ok view (disk (mst sh))" and "erase_args (tokens 9 args) no_opts = Inr p" and "opts_ok p"
    and "no_confirm p" and "unat (capacity (view (world (disk (mst sh))))) \<le> 2 ^ 28"
  shows "\<exists>sh'. erase_sectors io un args sh = Some (Go sh') \<and> drive_ok view (disk (mst sh')) \<and>
    (\<forall>k < 2 ^ 28. drive_sec view (disk (mst sh')) (of_nat k) =
       (if the (elba p) < capacity (view (world (disk (mst sh)))) \<and>
           erase_count p \<le> capacity (view (world (disk (mst sh)))) - the (elba p) \<and>
           unat (the (elba p)) \<le> k \<and> k < unat (the (elba p)) + unat (erase_count p)
        then erase_block (epattern p) else drive_sec view (disk (mst sh)) (of_nat k)))"
proof -
  let ?cap = "capacity (view (world (disk (mst sh))))"
  obtain l where l: "elba p = Some l" using assms(3) by (auto simp: opts_ok_def)
  define d where "d = snd (disk_identify io (disk (mst sh)))"
  define sh1 where "sh1 = sh\<lparr>mst := (mst sh)\<lparr>disk := d\<rparr>\<rparr>"
  obtain mdl where i: "disk_identify io (disk (mst sh)) = (Some (mdl, ?cap), d)"
    using disk_identify_ok [OF assms(1)] unfolding capacity_def d_def by (metis prod.collapse)
  have d: "drive_ok view (disk (mst sh1))" "drive_sec view (disk (mst sh1)) = drive_sec view (disk (mst sh))"
    using disk_identify_ok [OF assms(1)] by (auto simp: sh1_def d_def)
  have e: "erase_sectors io un args sh =
    (if l \<ge> ?cap \<or> erase_count p > ?cap - l then Some (Go (tell ''  erase: range is outside the primary ATA disk.\<newline>'' sh1))
     else Some (Go (sh1\<lparr>mst := erase_run io l (erase_count p) (epattern p) (mst sh1)\<rparr>)))"
    using assms(2-4) l i by (auto simp: erase_sectors_def sh1_def erase_count_def opts_ok_def)
  show ?thesis
  proof (cases "l < ?cap \<and> erase_count p \<le> ?cap - l")
    case True
    with range_fits [of l ?cap "erase_count p"] assms(5) have "unat l + unat (erase_count p) \<le> 2 ^ 28" by blast
    from erase_run_ok [OF d(1) this, of "epattern p"] True e l d show ?thesis by (auto simp: not_le not_less)
  next
    case False
    with e l d show ?thesis by (auto simp: not_le not_less)
  qed
qed

lemma diskinfo_ok:
  assumes "drive_ok view (disk st)"
  shows "drive_ok view (disk (cmd_diskinfo io st)) \<and> drive_sec view (disk (cmd_diskinfo io st)) = drive_sec view (disk st)"
  using disk_identify_ok [OF assms] by (simp add: cmd_diskinfo_def split_def Let_def)

end

text \<open>The commands outside \<open>writing\<close> keep every sector.\<close>

definition writing :: "string \<Rightarrow> bool" where
  "writing ln \<longleftrightarrow> ln \<in> {''install'', ''install -no'', ''recover'', ''recover-with-bl'', ''format''} \<or>
     startswith ln ''erase '' \<or> startswith ln ''bootmode ''"

context ata_device
begin

definition same_sectors :: "'w shell \<Rightarrow> 'w shell \<Rightarrow> bool" where
  "same_sectors sh sh' \<longleftrightarrow> drive_ok view (disk (mst sh')) \<and> drive_sec view (disk (mst sh')) = drive_sec view (disk (mst sh))"

definition kept :: "'w shell \<Rightarrow> 'w after option \<Rightarrow> bool" where
  "kept sh r \<longleftrightarrow> (\<forall>sh'. r = Some (Go sh') \<longrightarrow> same_sectors sh sh')"

lemma kept_if: "\<lbrakk>c \<Longrightarrow> kept sh a; \<not> c \<Longrightarrow> kept sh b\<rbrakk> \<Longrightarrow> kept sh (if c then a else b)"
  by simp

lemma kept_other [simp]: "kept sh (Some (Halted sh'))" "kept sh (Some Crash)" "kept sh None" "kept sh (Some (cmd_boot io sh'))"
  by (simp_all add: kept_def cmd_boot_def Let_def)

lemma kept_Go [simp]: "kept sh (Some (Go sh')) = same_sectors sh sh'"
  by (simp add: kept_def)

lemma same_onm: "drv.ro f \<Longrightarrow> drive_ok view (disk (mst sh)) \<Longrightarrow> same_sectors sh (onm f sh)"
  by (simp add: same_sectors_def drv.ro_def onm_def)

lemma same_tell [simp]: "same_sectors sh (tell s sh') = same_sectors sh sh'"
  by (simp add: same_sectors_def)

lemma same_refl [simp]: "drive_ok view (disk (mst sh)) \<Longrightarrow> same_sectors sh sh"
  by (simp add: same_sectors_def)

lemma module_line_disk [simp]: "disk (module_line md st) = disk st"
  by (simp add: module_line_def split: option.split)

lemma same_cmds:
  assumes "drive_ok view (disk (mst sh))"
  shows "same_sectors sh (cmd_modules sh)" "same_sectors sh (cmd_status io sh)" "same_sectors sh (cmd_history sh)"
    "same_sectors sh (onm (cmd_diskinfo io) sh)" "same_sectors sh (onm cmd_clear sh)"
    "same_sectors sh (onm (\<lambda>st. say s (say_num n (say s' st))) sh)"
  using assms drv.ro_mounted diskinfo_ok [OF assms]
  by (simp_all add: same_sectors_def cmd_modules_def cmd_status_def cmd_history_def onm_def cmd_clear_def
      drv.ro_def split_def Let_def)

lemma kept_bootmode:
  assumes "drive_ok view (disk (mst sh))"
  shows "kept sh (case cmd_bootmode (drive_ops io) [] (mst sh) of Overrun \<Rightarrow> Some Crash | Ret st \<Rightarrow> Some (Go (sh\<lparr>mst := st\<rparr>)))"
proof -
  let ?st1 = "snd (mounted_or_init (drive_ops io) (mst sh))"
  have "drive_ok view (disk ?st1)" "drive_sec view (disk ?st1) = drive_sec view (disk (mst sh))"
    using drv.ro_mounted assms by (auto simp: drv.ro_def)
  with drv.read_bootmode_64(2,3) [of ?st1] show ?thesis
    by (auto simp: cmd_bootmode_def split_def Let_def same_sectors_def split: option.split outcome.split)
qed

lemma bootmode_crash:
  assumes "drive_ok view (disk st)"
    and "slot_of (name83 ''BOOTMODE.CFG'' (zeros 11)) (drive_sec view (disk st) (cluster_lba (root_cluster st) st)) = Some slot"
    and "r32 (drive_sec view (disk st) (cluster_lba (root_cluster st) st)) (slot * 32 + 28) \<noteq> 0"
  shows "fst (read_bootmode (drive_ops io) 64 st) = Some Overrun"
  using drv.read_bootmode_64(1) [OF assms(1)] assms(2,3) by simp

lemma dispatch_kept:
  assumes "drive_ok view (disk (mst sh))" and "\<not> writing ln"
  shows "kept sh (dispatch io un m ln sh)"
proof -
  note ok = assms(1)
  note w = assms(2) [unfolded writing_def, simplified]
  note ro = same_onm [OF drv.ro_cmds(1) ok] same_onm [OF drv.ro_cmds(2) ok] same_onm [OF drv.ro_cmds(3) ok]
    same_onm [OF drv.ro_cmds(4) ok] same_onm [OF drv.ro_cmds(5) ok] same_onm [OF drv.ro_shows(2) ok]
    same_onm [OF drv.ro_shows(3) ok] same_onm [OF drv.ro_shows(4) ok] same_onm [OF drv.ro_shows(5) ok]
  show ?thesis
    unfolding dispatch_def Let_def
    by (intro kept_if) (use w in \<open>simp_all add: ok ro same_cmds [OF ok] kept_bootmode [OF ok] split: option.split\<close>)
qed

end

section \<open>Decimal numbers\<close>

definition dec :: "u32 \<Rightarrow> string" where
  "dec n = (if n = 0 then ''0'' else rev (num_digits (unat n)))"

lemma pnum_dec: "pnum n = puts (dec n)"
  by (auto simp: pnum_def dec_def puts_def fun_eq_iff)

definition digit :: "char \<Rightarrow> bool" where "digit c \<longleftrightarrow> between (CHR ''0'') (CHR ''9'') c"

definition dval :: "string \<Rightarrow> nat" where
  "dval s = foldl (\<lambda>v c. v * 10 + (of_char c - 48)) 0 s"

lemma dval_snoc: "dval (s @ [c]) = dval s * 10 + (of_char c - 48)"
  by (simp add: dval_def)

lemma digit_word: "digit c \<Longrightarrow> (ucast (ord c - 48) :: u32) = of_nat (of_char c - 48)"
proof -
  assume "digit c"
  then have c: "48 \<le> (of_char c :: nat)" "(of_char c :: nat) \<le> 57" by (simp_all add: digit_def between_def)
  have "unat (ord c - 48) = of_char c - 48" using c by (subst unat_sub) (simp_all add: word_le_nat_alt unat_ord)
  then have "(of_nat (of_char c - 48) :: u32) = of_nat (unat (ord c - 48))" by simp
  then show ?thesis by simp
qed

lemma parse_digits_val:
  "list_all digit s \<Longrightarrow> parse_digits (of_nat v) s = (of_nat (foldl (\<lambda>v c. v * 10 + (of_char c - 48)) v s), [])"
proof (induction s arbitrary: v)
  case (Cons c s)
  from Cons.IH [of "v * 10 + (of_char c - 48)"] Cons.prems show ?case
    by (simp add: digit_word [symmetric] digit_def)
qed simp

lemma parse_u32_digits: "list_all digit s \<Longrightarrow> s \<noteq> [] \<Longrightarrow> parse_u32 s = Some (of_nat (dval s))"
  using parse_digits_val [of s 0] by (cases s) (auto simp: parse_u32_def dval_def digit_def)

lemma num_digits_val: "list_all digit (rev (num_digits n)) \<and> dval (rev (num_digits n)) = n"
proof (induction n rule: num_digits.induct)
  case (1 n)
  have d: "(of_char (char_of (48 + n mod 10) :: char) :: nat) = 48 + n mod 10" by simp
  have "digit (char_of (48 + n mod 10))" unfolding digit_def between_def d by simp
  then show ?case
    using 1 by (subst num_digits.simps, subst (2) num_digits.simps) (auto simp: dval_snoc d, simp add: dval_def)
qed

section \<open>Requests to erase\<close>

text \<open>
  What a user asks for, independently of how the command line is read: a range of sectors given by two
  decimal numbers, and what to fill them with; the line that asks for it, and the sector it stands for.
\<close>

datatype fill = Zeros | Fill_byte u8 | Fill_text string

definition hex2 :: "u8 \<Rightarrow> string" where
  "hex2 b = [''0123456789ABCDEF'' ! (unat b div 16), ''0123456789ABCDEF'' ! (unat b mod 16)]"

definition erase_line :: "string \<Rightarrow> string \<Rightarrow> fill \<Rightarrow> string" where
  "erase_line a b f = ''erase '' @ (case f of
      Zeros \<Rightarrow> a @ '' '' @ b @ '' -no''
    | Fill_byte x \<Rightarrow> ''-r '' @ a @ '' '' @ b @ '' -h '' @ hex2 x @ '' -no''
    | Fill_text s \<Rightarrow> ''-r '' @ a @ '' '' @ b @ '' -s '' @ s @ '' -no'')"

definition fill_sector :: "fill \<Rightarrow> bytes" where
  "fill_sector f = (case f of Zeros \<Rightarrow> replicate 512 0 | Fill_byte x \<Rightarrow> replicate 512 x
     | Fill_text s \<Rightarrow> take 512 (concat (replicate 512 (map ord s))))"

definition fill_ok :: "fill \<Rightarrow> bool" where
  "fill_ok f = (case f of Fill_text s \<Rightarrow> s \<noteq> [] \<and> length s \<le> 64 \<and> CHR '' '' \<notin> set s | _ \<Rightarrow> True)"

definition fill_pattern :: "fill \<Rightarrow> pattern" where
  "fill_pattern f = (case f of Zeros \<Rightarrow> No_pattern | Fill_byte x \<Rightarrow> Byte_pattern x | Fill_text s \<Rightarrow> String_pattern s)"

lemma nth_concat_replicate:
  "xs \<noteq> [] \<Longrightarrow> i < n * length xs \<Longrightarrow> concat (replicate n xs) ! i = xs ! (i mod length xs)"
proof (induction n arbitrary: i)
  case (Suc n)
  show ?case
  proof (cases "i < length xs")
    case False
    then have "concat (replicate n xs) ! (i - length xs) = xs ! ((i - length xs) mod length xs)" using Suc by simp
    with False show ?thesis by (simp add: nth_append le_mod_geq)
  qed (simp add: nth_append)
qed simp

lemma length_concat_replicate: "length (concat (replicate n xs)) = n * length xs"
  by (induction n) simp_all

lemma fill_block:
  assumes "fill_ok f"
  shows "erase_block (fill_pattern f) = fill_sector f"
proof (cases f)
  case (Fill_text s)
  then have s: "s \<noteq> []" "length s \<le> 64" using assms by (simp_all add: fill_ok_def)
  then have len: "512 \<le> 512 * length s" by (cases s) auto
  show ?thesis
  proof (rule nth_equalityI)
    show "length (erase_block (fill_pattern f)) = length (fill_sector f)"
      using Fill_text len by (simp add: fill_sector_def length_concat_replicate)
    fix i assume "i < length (erase_block (fill_pattern f))"
    then have i: "i < 512" by simp
    have "concat (replicate 512 (map ord s)) ! i = map ord s ! (i mod length s)"
      using nth_concat_replicate [of "map ord s" i 512] s i len by simp
    also have "\<dots> = ord (s ! (i mod length s))" using s by (intro nth_map) simp
    finally show "erase_block (fill_pattern f) ! i = fill_sector f ! i"
      using Fill_text s i by (simp add: erase_block_def fill_pattern_def fill_sector_def)
  qed
qed (simp_all add: erase_block_def fill_pattern_def fill_sector_def map_replicate_const)

lemma tokens_word: "w \<noteq> [] \<Longrightarrow> CHR '' '' \<notin> set w \<Longrightarrow> tokens (Suc n) (w @ CHR '' '' # s) = w # tokens n s"
proof -
  assume w: "w \<noteq> []" "CHR '' '' \<notin> set w"
  then have "dropWhile (\<lambda>c. c = CHR '' '') (w @ CHR '' '' # s) = w @ CHR '' '' # s"
    by (cases w) auto
  moreover have "takeWhile (\<lambda>c. c \<noteq> CHR '' '') (w @ CHR '' '' # s) = w"
    using w by (subst takeWhile_append2) auto
  ultimately show ?thesis using w by simp
qed

lemma digits_word:
  assumes "list_all digit w" "w \<noteq> []"
  shows "CHR '' '' \<notin> set w" "take 1 w \<noteq> ''-''" "parse_u32 w = Some (of_nat (dval w))"
    "w \<noteq> ''-r''" "w \<noteq> ''-no''" "w \<noteq> ''-h''" "w \<noteq> ''-s''"
proof -
  have s: "\<not> digit (CHR '' '')" "\<not> digit (CHR ''-'')" by code_simp+
  show "CHR '' '' \<notin> set w" using assms(1) s by (auto simp: list_all_iff)
  show "take 1 w \<noteq> ''-''" "w \<noteq> ''-r''" "w \<noteq> ''-no''" "w \<noteq> ''-h''" "w \<noteq> ''-s''"
    using assms s by (cases w; auto)+
  show "parse_u32 w = Some (of_nat (dval w))" by (rule parse_u32_digits [OF assms])
qed

lemma hex_digit_table:
  "list_all (\<lambda>k. let c = ''0123456789ABCDEF'' ! k in hex_digit c = int k \<and> c \<noteq> CHR ''x'' \<and> c \<noteq> CHR ''X'' \<and> c \<noteq> CHR '' '') [0..<16]"
  by code_simp

lemma hex2_parse: "parse_byte (hex2 b) = Some b" "CHR '' '' \<notin> set (hex2 b)" "hex2 b \<noteq> []"
proof -
  let ?c = "\<lambda>k. ''0123456789ABCDEF'' ! k"
  have t: "hex_digit (?c k) = int k" "?c k \<noteq> CHR ''x''" "?c k \<noteq> CHR ''X''" "?c k \<noteq> CHR '' ''" if "k < 16" for k
  proof -
    have "k \<in> set [0..<16]" using that by simp
    then have "hex_digit (?c k) = int k \<and> ?c k \<noteq> CHR ''x'' \<and> ?c k \<noteq> CHR ''X'' \<and> ?c k \<noteq> CHR '' ''"
      using hex_digit_table unfolding list_all_iff Let_def by (rule bspec [rotated])
    then show "hex_digit (?c k) = int k" "?c k \<noteq> CHR ''x''" "?c k \<noteq> CHR ''X''" "?c k \<noteq> CHR '' ''" by simp_all
  qed
  have n: "unat b div 16 < 16" "unat b mod 16 < 16" using unsigned_less [of b, where ?'a = nat] by simp_all
  have "int (unat b div 16) * 16 + int (unat b mod 16) = int (unat b)"
    by (metis div_mult_mod_eq of_nat_add of_nat_mult of_nat_numeral)
  then have "word_of_int (int (unat b div 16) * 16 + int (unat b mod 16)) = b" by simp
  then show "parse_byte (hex2 b) = Some b"
    using t [OF n(1)] t [OF n(2)] by (simp add: parse_byte_def hex2_def)
  show "CHR '' '' \<notin> set (hex2 b)" using t(4) [OF n(1)] t(4) [OF n(2)] by (auto simp: hex2_def)
qed (simp add: hex2_def)

text \<open>The line is read as the request.\<close>

lemma erase_line_args:
  assumes a: "list_all digit a" "a \<noteq> []" and b: "list_all digit b" "b \<noteq> []" and f: "fill_ok f"
  shows "erase_args (tokens 9 (drop 6 (erase_line a b f))) no_opts =
    Inr \<lparr>elba = Some (of_nat (dval a)), ecount = Some (of_nat (dval b)), replace = (f \<noteq> Zeros), no_confirm = True,
      epattern = fill_pattern f\<rparr>"
proof -
  note wa = digits_word [OF a] and wb = digits_word [OF b]
  have nine: "tokens 9 s = tokens (Suc (Suc (Suc (Suc (Suc (Suc (Suc (Suc (Suc 0))))))))) s" for s by (simp add: numeral_eq_Suc)
  have last: "tokens (Suc n) ''-no'' = [''-no'']" for n by (cases n) simp_all
  have opt: "tokens (Suc n) (''-r'' @ CHR '' '' # s) = ''-r'' # tokens n s" "tokens (Suc n) (''-h'' @ CHR '' '' # s) = ''-h'' # tokens n s"
    "tokens (Suc n) (''-s'' @ CHR '' '' # s) = ''-s'' # tokens n s" for n s by (rule tokens_word; simp)+
  note words = nine opt last tokens_word [OF a(2) wa(1)] tokens_word [OF b(2) wb(1)]
  show ?thesis
  proof (cases f)
    case Zeros
    have d: "drop 6 (erase_line a b f) = a @ CHR '' '' # b @ CHR '' '' # ''-no''" by (simp add: erase_line_def Zeros)
    have "tokens 9 (drop 6 (erase_line a b f)) = [a, b, ''-no'']" unfolding d words ..
    then show ?thesis using wa(2-) wb(2-) by (simp add: no_opts_def Zeros fill_pattern_def)
  next
    case (Fill_byte x)
    have d: "drop 6 (erase_line a b f) = ''-r'' @ CHR '' '' # a @ CHR '' '' # b @ CHR '' '' # ''-h'' @ CHR '' '' # hex2 x @ CHR '' '' # ''-no''"
      by (simp add: erase_line_def Fill_byte)
    have "tokens 9 (drop 6 (erase_line a b f)) = [''-r'', a, b, ''-h'', hex2 x, ''-no'']"
      unfolding d words tokens_word [OF hex2_parse(3,2)] ..
    then show ?thesis using wa(2-) wb(2-) by (simp add: no_opts_def Fill_byte fill_pattern_def hex2_parse)
  next
    case (Fill_text s)
    then have s: "s \<noteq> []" "CHR '' '' \<notin> set s" using f by (simp_all add: fill_ok_def)
    have d: "drop 6 (erase_line a b f) = ''-r'' @ CHR '' '' # a @ CHR '' '' # b @ CHR '' '' # ''-s'' @ CHR '' '' # s @ CHR '' '' # ''-no''"
      by (simp add: erase_line_def Fill_text)
    have "tokens 9 (drop 6 (erase_line a b f)) = [''-r'', a, b, ''-s'', s, ''-no'']" unfolding d words tokens_word [OF s] ..
    then show ?thesis using wa(2-) wb(2-) s by (simp add: no_opts_def Fill_text fill_pattern_def)
  qed
qed

lemma dispatch_erase: "dispatch io un m (erase_line a b f) sh = erase_sectors io un (drop 6 (erase_line a b f)) sh"
  by (simp add: erase_line_def dispatch_def)

section \<open>Properties\<close>


text \<open>The line \<open>erase 4294967296 1 -no\<close> asks for a sector no drive has and is read as a request for sector 0.\<close>

lemma erase_wraps:
  "erase_args (tokens 9 (drop 6 (erase_line ''4294967296'' ''1'' Zeros))) no_opts =
   erase_args (tokens 9 (drop 6 (erase_line ''0'' ''1'' Zeros))) no_opts"
proof -
  have "list_all digit ''4294967296''" "list_all digit ''1''" "list_all digit ''0''" by code_simp+
  moreover have "dval ''4294967296'' = 4294967296" "dval ''0'' = 0" by (simp_all add: dval_def)
  ultimately show ?thesis by (simp add: erase_line_args fill_ok_def)
qed

definition no_init :: "nat \<Rightarrow> char list" where
  "no_init n = replicate n NUL"

definition demo_ata :: ata where
  "demo_ata = blank_ata\<lparr>ident := (replicate 256 0)[60 := 4096]\<rparr>"

definition demo_shell :: "ata shell" where
  "demo_shell = \<lparr>mst = demo_mini\<lparr>disk := \<lparr>pending_writes = 0, world = demo_ata\<rparr>\<rparr>, skbd = no_keys,
     shist = empty_hist, usable_kib = 0, kmod = None, imod = None, blmod = None, cfgmod = None, mmod = None,
     line = replicate 128 NUL\<rparr>"

lemma demo_shell_ok: "drive_ok (\<lambda>v. v) (disk (mst demo_shell))"
  using blank_ok [of 0] by (simp add: demo_shell_def demo_ata_def drive_ok_def Let_def)


text \<open>C15: Every command other than \<open>install\<close>, \<open>recover\<close>, \<open>recover-with-bl\<close>, \<open>format\<close>, \<open>erase\<close> and
  \<open>bootmode\<close> with an argument leaves every sector of the disk as it was and the drive working.\<close>

theorem dispatch_read_only:
  assumes "ata_device io view" and "drive_ok view (disk (mst sh))" and "\<not> writing ln"
    and "dispatch io un m ln sh = Some (Go sh')"
  shows "drive_ok view (disk (mst sh')) \<and> drive_sec view (disk (mst sh')) = drive_sec view (disk (mst sh))"
  using ata_device.dispatch_kept [OF assms(1-3), of un m] assms(4)
  by (simp add: ata_device.kept_def [OF assms(1)] ata_device.same_sectors_def [OF assms(1)])

theorem dispatch_read_only_witness:
  "\<exists>sh'. dispatch ata_ports no_init demo_memory ''sync'' demo_shell = Some (Go sh') \<and>
     drive_sec (\<lambda>v. v) (disk (mst sh')) = drive_sec (\<lambda>v. v) (disk (mst demo_shell))"
proof -
  have d: "dispatch ata_ports no_init demo_memory ''sync'' demo_shell = Some (Go (onm (cmd_sync (drive_ops ata_ports)) demo_shell))"
    by (simp add: dispatch_def)
  have "\<not> writing ''sync''" by (simp add: writing_def)
  from dispatch_read_only [OF ata_sim.ata_device_axioms demo_shell_ok this d] d show ?thesis by simp
qed

text \<open>Every 32-bit number that \<open>pnum\<close> prints is read back by \<open>parse_u32\<close>, and a decimal string of any
  length is read as its value modulo \<open>2 ^ 32\<close>: there is no overflow test, so 4294967296 is sector 0.\<close>

theorem parse_u32_decimal:
  "(\<exists>s. pnum n = puts s \<and> parse_u32 s = Some n) \<and>
   (list_all digit s \<longrightarrow> s \<noteq> [] \<longrightarrow> parse_u32 s = Some (of_nat (dval s)))"
proof
  have "list_all digit (dec n) \<and> dval (dec n) = unat n \<and> dec n \<noteq> []"
    using num_digits_val [of "unat n"] by (auto simp: dec_def digit_def between_def dval_def)
      (metis foldl_Nil dval_def rev.simps(1) unat_eq_zero num_digits_val)
  then show "\<exists>s. pnum n = puts s \<and> parse_u32 s = Some n"
    using parse_u32_digits [of "dec n"] pnum_dec by (intro exI [of _ "dec n"]) simp
  show "list_all digit s \<longrightarrow> s \<noteq> [] \<longrightarrow> parse_u32 s = Some (of_nat (dval s))"
    using parse_u32_digits by blast
qed

theorem parse_u32_decimal_witness: "parse_u32 ''4294967296'' = Some 0"
proof -
  have "list_all digit ''4294967296''" by code_simp
  moreover have "dval ''4294967296'' = 4294967296" by (simp add: dval_def)
  ultimately show ?thesis using parse_u32_decimal [of 0 "''4294967296''"] by simp
qed

text \<open>Showing the boot mode when the file \<open>BOOTMODE.CFG\<close> exists and is not empty stores a whole
  sector into an array of 64 characters: the command \<open>bootmode\<close> writes outside the array.\<close>

theorem bootmode_overruns:
  assumes "ata_device io view" and "drive_ok view (disk (mst sh))" and "fat_mounted (mst sh)"
    and "slot_of (name83 ''BOOTMODE.CFG'' (zeros 11)) (drive_sec view (disk (mst sh)) (cluster_lba (root_cluster (mst sh)) (mst sh))) = Some slot"
    and "r32 (drive_sec view (disk (mst sh)) (cluster_lba (root_cluster (mst sh)) (mst sh))) (slot * 32 + 28) \<noteq> 0"
  shows "dispatch io un m ''bootmode'' sh = Some Crash"
proof -
  have "fst (read_bootmode (drive_ops io) 64 (mst sh)) = Some Overrun"
    using ata_device.bootmode_crash [OF assms(1,2,4,5)] .
  then show ?thesis
    using assms(3) by (simp add: dispatch_def cmd_bootmode_def mounted_or_init_def split_def Let_def)
qed

text \<open>A disk whose root directory has a boot mode file of 22 bytes.\<close>

definition mode_dir :: bytes where
  "mode_dir = put (zeros 512) 0 (dir_entry ''BOOTMODE.CFG'' 22 3)"

definition mode_shell :: "ata shell" where
  "mode_shell = demo_shell\<lparr>mst := demo_mini\<lparr>disk :=
     \<lparr>pending_writes = 0, world = demo_ata\<lparr>sectors := (\<lambda>_. bytes_words mode_dir)\<rparr>\<rparr>\<rparr>\<rparr>"

theorem bootmode_overruns_witness: "dispatch ata_ports no_init demo_memory ''bootmode'' mode_shell = Some Crash"
proof -
  have d: "drive_sec (\<lambda>v. v) (disk (mst mode_shell)) = (\<lambda>_. mode_dir)"
    by (rule ext) (simp add: drive_sec_def mode_shell_def word_bytes_words mode_dir_def)
  have ok: "drive_ok (\<lambda>v. v) (disk (mst mode_shell))" "fat_mounted (mst mode_shell)"
    using demo_shell_ok by (simp_all add: mode_shell_def demo_shell_def drive_ok_def Let_def mode_dir_def demo_mini_def)
  have s: "slot_of (name83 ''BOOTMODE.CFG'' (zeros 11)) mode_dir = Some 0" "r32 mode_dir (0 * 32 + 28) \<noteq> 0" by code_simp+
  show ?thesis
    using bootmode_overruns [OF ata_sim.ata_device_axioms ok, of 0 no_init demo_memory] s unfolding d by simp
qed

end
