(* ===== verification/Display.thy ===== *)
theory Display
  imports Font C_Code Ports
begin

text \<open>
  The kernel's text console (\<^verbatim>\<open>src/kernel/drivers/display/display.c\<close>) and the mode
  switch it uses (\<^verbatim>\<open>bochs_vbe.c\<close>): a shadow array of character cells, drawn either into VGA text
  memory or into a linear framebuffer, and mirrored on the serial port.

  The file-scope variables are the record \<open>display\<close>; \<open>dmem\<close> is physical memory, of which the
  console writes the VGA text page at 0xb8000, the font plane at 0xa0000 and the framebuffer, and
  \<open>hw\<close> is the state behind the I/O ports. A null framebuffer pointer is the address 0. The output sink is
  a function on the state of its client. \<open>exceptions_init\<close> loads the interrupt table and is an
  argument of \<open>display_init\<close>; \<open>ofp_init\<close> is empty in the source.
\<close>

unbundle bit_operations_syntax

section \<open>State\<close>

record 'w display =
  hw :: 'w
  dmem :: memory
  row :: nat
  col :: nat
  width :: nat
  height :: nat
  color :: u8
  fg :: u8
  bold :: bool
  serial_present :: bool
  serial_cells_enabled :: bool
  initialized :: bool
  characters :: u64
  cells :: "nat \<Rightarrow> u16"
  framebuffer :: nat
  fb_pitch :: u32
  fb_width :: u32
  fb_height :: u32
  cursor_x :: nat
  cursor_y :: nat
  cursor_blink_ns :: u64
  cursor_visible :: bool
  cursor_full_block :: bool
  cursor_drawn :: bool
  output_sink :: "(char \<Rightarrow> 'w \<Rightarrow> 'w) option"

definition VGA_WIDTH :: nat where "VGA_WIDTH = 80"
definition VGA_HEIGHT :: nat where "VGA_HEIGHT = 25"
definition FONT_WIDTH :: nat where "FONT_WIDTH = 8"
definition FONT_HEIGHT :: nat where "FONT_HEIGHT = 16"
definition CELL_WIDTH :: nat where "CELL_WIDTH = 9"
definition CELL_HEIGHT :: nat where "CELL_HEIGHT = 17"
definition MAX_WIDTH :: nat where "MAX_WIDTH = 216"
definition MAX_HEIGHT :: nat where "MAX_HEIGHT = 64"
definition COM1 :: u16 where "COM1 = 0x3F8"
definition vga :: nat where "vga = 0xB8000"

lemmas display_consts = VGA_WIDTH_def VGA_HEIGHT_def FONT_WIDTH_def FONT_HEIGHT_def CELL_WIDTH_def
  CELL_HEIGHT_def MAX_WIDTH_def MAX_HEIGHT_def

definition palette :: "u32 list" where
  "palette = [0x000000, 0x0000AA, 0x00AA00, 0x00AAAA, 0xAA0000, 0xAA00AA, 0xAA5500, 0xAAAAAA,
     0x555555, 0x5555FF, 0x55FF55, 0x55FFFF, 0xFF5555, 0xFF55FF, 0xFFFF55, 0xFFFFFF]"

text \<open>Little-endian stores.\<close>

definition st16 :: "nat \<Rightarrow> u16 \<Rightarrow> memory \<Rightarrow> memory" where
  "st16 a v m = m(a := ucast v, a + 1 := ucast (drop_bit 8 v))"

definition st32 :: "nat \<Rightarrow> u32 \<Rightarrow> memory \<Rightarrow> memory" where
  "st32 a v m = m(a := ucast v, a + 1 := ucast (drop_bit 8 v), a + 2 := ucast (drop_bit 16 v), a + 3 := ucast (drop_bit 24 v))"

section \<open>Glyphs\<close>

text \<open>The arms of the box-drawing characters: left, right, up, down, double.\<close>

definition box_arms :: "u8 \<Rightarrow> (bool \<times> bool \<times> bool \<times> bool \<times> bool) option" where
  "box_arms c = map_of
     [(179, False, False, True, True, False), (196, True, True, False, False, False),
      (218, False, True, False, True, False), (191, True, False, False, True, False),
      (192, False, True, True, False, False), (217, True, False, True, False, False),
      (195, False, True, True, True, False), (180, True, False, True, True, False),
      (194, True, True, False, True, False), (193, True, True, True, False, False), (197, True, True, True, True, False),
      (186, False, False, True, True, True), (205, True, True, False, False, True),
      (201, False, True, False, True, True), (187, True, False, False, True, True),
      (200, False, True, True, False, True), (188, True, False, True, False, True),
      (204, False, True, True, True, True), (185, True, False, True, True, True),
      (203, True, True, False, True, True), (202, True, True, True, False, True), (206, True, True, True, True, True)] c"

definition box_row :: "u8 \<Rightarrow> nat \<Rightarrow> u8" where
  "box_row c y =
     (case box_arms c of
        Some (l, r, u, d, dbl) \<Rightarrow>
          let stem = (u \<and> y \<le> 7) \<or> (d \<and> y \<ge> 7);
              bar = (if l then 0xF0 else 0) OR (if r then 0x1F else 0)
          in if dbl then (if stem then 0x24 else 0) OR (if y = 6 \<or> y = 9 then bar else 0)
             else (if stem then 0x10 else 0) OR (if y = 7 then bar else 0)
      | None \<Rightarrow>
          if c = 219 then 0xFF
          else if c = 178 then if odd y then 0xAA else 0x55
          else if c = 177 then if odd y then 0x88 else 0x22
          else if c = 176 then if y mod 4 \<noteq> 0 then 0 else 0x22
          else 0)"

definition glyph_row :: "u8 \<Rightarrow> nat \<Rightarrow> u8" where
  "glyph_row c y = (if c < 128 then os64_font8x16 ! (unat c * FONT_HEIGHT + y) else box_row c y)"

definition codepoints :: "(u32 \<times> u8) list" where
  "codepoints =
     [(0x2502, 179), (0x2524, 180), (0x2563, 185), (0x2551, 186), (0x2557, 187), (0x255D, 188), (0x2510, 191),
      (0x2514, 192), (0x2534, 193), (0x252C, 194), (0x251C, 195), (0x2500, 196), (0x253C, 197), (0x255A, 200),
      (0x2554, 201), (0x2569, 202), (0x2566, 203), (0x2560, 204), (0x2550, 205), (0x256C, 206), (0x2518, 217),
      (0x250C, 218), (0x2588, 219), (0x2591, 176), (0x2592, 177), (0x2593, 178)]"

definition display_codepoint_glyph :: "u32 \<Rightarrow> u8" where
  "display_codepoint_glyph u =
     (case map_of codepoints u of Some g \<Rightarrow> g | None \<Rightarrow> if u < 128 then ucast u else 63)"

section \<open>Drawing cells\<close>

definition vga_register :: "'w ports \<Rightarrow> u16 \<Rightarrow> u8 \<Rightarrow> u8 \<Rightarrow> 'w display \<Rightarrow> 'w display" where
  "vga_register io port index val st = st\<lparr>hw := outb io (port + 1) val (outb io port index (hw st))\<rparr>"

definition font_plane :: "memory \<Rightarrow> memory" where
  "font_plane = fold (\<lambda>ch. fold (\<lambda>y m. m(0xA0000 + ch * 32 + y :=
       (if y < FONT_HEIGHT then if ch < 128 then os64_font8x16 ! (ch * FONT_HEIGHT + y) else box_row (of_nat ch) y else 0)))
     [0..<32]) [0..<256]"

definition vga_load_font :: "'w ports \<Rightarrow> 'w display \<Rightarrow> 'w display" where
  "vga_load_font io st =
     (let st = fold (\<lambda>(p, i, v). vga_register io p i v)
            [(0x3C4, 0, 1), (0x3C4, 2, 4), (0x3C4, 4, 7), (0x3C4, 0, 3), (0x3CE, 4, 2), (0x3CE, 5, 0), (0x3CE, 6, 0)] st;
          st = st\<lparr>dmem := font_plane (dmem st)\<rparr>
      in fold (\<lambda>(p, i, v). vga_register io p i v)
            [(0x3C4, 0, 1), (0x3C4, 2, 3), (0x3C4, 4, 3), (0x3C4, 0, 3), (0x3CE, 4, 0), (0x3CE, 5, 0x10), (0x3CE, 6, 0x0E)] st)"

definition framebuffer_cell :: "nat \<Rightarrow> nat \<Rightarrow> u8 \<Rightarrow> u8 \<Rightarrow> 'w display \<Rightarrow> 'w display" where
  "framebuffer_cell x y ch attribute st =
     (if framebuffer st = 0 then st
      else let foreground = palette ! unat (attribute AND 15); background = palette ! unat (drop_bit 4 attribute AND 15) in
        st\<lparr>dmem := fold (\<lambda>py.
            let bits = (if py < FONT_HEIGHT then glyph_row ch py else 0);
                line = framebuffer st + (y * CELL_HEIGHT + py) * unat (fb_pitch st) + x * CELL_WIDTH * 4
            in fold (\<lambda>px. st32 (line + 4 * px)
                 (if px < FONT_WIDTH \<and> bits AND drop_bit px 0x80 \<noteq> 0 then foreground else background)) [0..<CELL_WIDTH])
          [0..<CELL_HEIGHT] (dmem st)\<rparr>)"

definition pack :: "u8 \<Rightarrow> u8 \<Rightarrow> u16" where
  "pack attribute ch = push_bit 8 (ucast attribute) OR ucast ch"

definition render_cell :: "nat \<Rightarrow> nat \<Rightarrow> u8 \<Rightarrow> u8 \<Rightarrow> 'w display \<Rightarrow> 'w display" where
  "render_cell x y ch attribute st =
     (if x \<ge> width st \<or> y \<ge> height st then st
      else let st = st\<lparr>cells := (cells st)(y * MAX_WIDTH + x := pack attribute ch)\<rparr> in
        if framebuffer st \<noteq> 0 then framebuffer_cell x y ch attribute st
        else st\<lparr>dmem := st16 (vga + 2 * (y * VGA_WIDTH + x)) (pack attribute ch) (dmem st)\<rparr>)"

definition cell_char :: "u16 \<Rightarrow> u8" where "cell_char v = ucast v"
definition cell_attr :: "u16 \<Rightarrow> u8" where "cell_attr v = ucast (drop_bit 8 v)"

definition cursor_cell :: "'w display \<Rightarrow> u16" where
  "cursor_cell st = cells st (cursor_y st * MAX_WIDTH + cursor_x st)"

definition cursor_restore :: "'w display \<Rightarrow> 'w display" where
  "cursor_restore st =
     (if framebuffer st = 0 \<or> \<not> cursor_drawn st \<or> cursor_x st \<ge> width st \<or> cursor_y st \<ge> height st then st
      else (framebuffer_cell (cursor_x st) (cursor_y st) (cell_char (cursor_cell st)) (cell_attr (cursor_cell st)) st)
        \<lparr>cursor_drawn := False\<rparr>)"

definition cursor_draw :: "'w display \<Rightarrow> 'w display" where
  "cursor_draw st =
     (if framebuffer st = 0 \<or> \<not> cursor_visible st \<or> cursor_drawn st \<or> cursor_x st \<ge> width st \<or> cursor_y st \<ge> height st then st
      else let attribute = cell_attr (cursor_cell st);
               inverted = (if cursor_full_block st then push_bit 4 (attribute AND 0x0F) OR (drop_bit 4 attribute AND 0x0F)
                           else (attribute AND 0xF0) OR 15)
           in (framebuffer_cell (cursor_x st) (cursor_y st) (cell_char (cursor_cell st)) inverted st)\<lparr>cursor_drawn := True\<rparr>)"

section \<open>Finding the framebuffer\<close>

definition fb_accept :: "nat \<Rightarrow> 'w display \<Rightarrow> bool" where
  "fb_accept p st \<longleftrightarrow> dmem st (p + 29) = 1 \<and> dmem st (p + 28) = 32 \<and> ld64 (dmem st) (p + 8) < 0x100000000 \<and>
     ld32 (dmem st) (p + 20) \<ge> 640 \<and> ld32 (dmem st) (p + 24) \<ge> 400"

definition fb_take :: "nat \<Rightarrow> 'w display \<Rightarrow> 'w display" where
  "fb_take p st =
     (let w = ld32 (dmem st) (p + 20); h = ld32 (dmem st) (p + 24)
      in st\<lparr>framebuffer := unat (ld64 (dmem st) (p + 8)), fb_pitch := ld32 (dmem st) (p + 16), fb_width := w, fb_height := h,
           width := min (unat w div CELL_WIDTH) MAX_WIDTH, height := min (unat h div CELL_HEIGHT) MAX_HEIGHT\<rparr>)"

partial_function (option) fb_scan :: "nat \<Rightarrow> u32 \<Rightarrow> u32 \<Rightarrow> 'w display \<Rightarrow> 'w display option" where
  "fb_scan p tot off st =
     (if off + 8 \<le> tot then
        let size = ld32 (dmem st) (p + unat off + 4) in
        if size < 8 then Some st
        else if ld32 (dmem st) (p + unat off) = 8 \<and> size \<ge> 38 \<and> fb_accept (p + unat off) st then Some (fb_take (p + unat off) st)
        else fb_scan p tot (off + pad8 size) st
      else Some st)"

definition framebuffer_info :: "nat \<Rightarrow> 'w display \<Rightarrow> 'w display option" where
  "framebuffer_info address st = (if address = 0 then Some st else fb_scan address (ld32 (dmem st) address) 8 st)"

section \<open>The serial port\<close>

text \<open>At most a million polls of the line status for each character.\<close>

fun serial_wait :: "'w ports \<Rightarrow> u8 \<Rightarrow> nat \<Rightarrow> 'w \<Rightarrow> 'w" where
  "serial_wait io c 0 w = w"
| "serial_wait io c (Suc n) w =
     (let (s, w) = inb io (COM1 + 5) w in if s AND 0x20 \<noteq> 0 then outb io COM1 c w else serial_wait io c n w)"

definition serial_put :: "'w ports \<Rightarrow> char \<Rightarrow> 'w display \<Rightarrow> 'w display" where
  "serial_put io c st = (if serial_present st then st\<lparr>hw := serial_wait io (ord c) 1000000 (hw st)\<rparr> else st)"

definition serial_raw :: "'w ports \<Rightarrow> string \<Rightarrow> 'w display \<Rightarrow> 'w display" where
  "serial_raw io s = fold (serial_put io) s"

text \<open>The digit buffer is filled from the least significant digit.\<close>

fun digits :: "nat \<Rightarrow> string" where
  "digits n = (if n = 0 then [] else char_of (48 + n mod 10) # digits (n div 10))"

declare digits.simps [simp del]

definition serial_number :: "'w ports \<Rightarrow> nat \<Rightarrow> 'w display \<Rightarrow> 'w display" where
  "serial_number io n = (if n = 0 then serial_put io (CHR ''0'') else fold (serial_put io) (rev (digits n)))"

abbreviation ESC :: char where "ESC \<equiv> CHR 0x1B"
abbreviation BS :: char where "BS \<equiv> CHR 0x08"
abbreviation CR :: char where "CR \<equiv> CHR 0x0D"

definition cursor_vga :: "'w ports \<Rightarrow> 'w display \<Rightarrow> 'w display" where
  "cursor_vga io st =
     (if framebuffer st \<noteq> 0 then st
      else let p = of_nat (row st * VGA_WIDTH + col st) :: u16
           in st\<lparr>hw := outb io 0x3D5 (ucast p) (outb io 0x3D4 15 (outb io 0x3D5 (ucast (drop_bit 8 p)) (outb io 0x3D4 14 (hw st))))\<rparr>)"

section \<open>The text console\<close>

definition scroll_cell :: "nat \<Rightarrow> nat \<Rightarrow> 'w display \<Rightarrow> 'w display" where
  "scroll_cell x y st =
     (let v = cells st (y * MAX_WIDTH + x)
      in render_cell x (y - 1) (cell_char v) (cell_attr v) (st\<lparr>cells := (cells st)((y - 1) * MAX_WIDTH + x := v)\<rparr>))"

definition scroll :: "'w display \<Rightarrow> 'w display" where
  "scroll st =
     (if row st < height st then st
      else let st = fold (\<lambda>y. fold (\<lambda>x. scroll_cell x y) [0..<width st]) [1..<height st] st;
               st = fold (\<lambda>x st. render_cell x (sub64 (height st) 1) 32 (color st) st) [0..<width st] st
           in st\<lparr>row := sub64 (height st) 1\<rparr>)"

definition ansi_color :: "u8 \<Rightarrow> string" where
  "ansi_color f = (if f = 1 then ''34m'' else if f = 2 then ''32m'' else if f = 3 then ''36m''
     else if f = 4 then ''31m'' else if f = 6 then ''33m'' else ''37m'')"

definition apply_color :: "'w ports \<Rightarrow> 'w display \<Rightarrow> 'w display" where
  "apply_color io st =
     (let st = st\<lparr>color := fg st OR (if bold st then 8 else 0)\<rparr>;
          st = serial_raw io (ESC # ''[0;'') st;
          st = (if bold st then serial_raw io ''1;'' st else st)
      in serial_raw io (ansi_color (fg st)) st)"

definition display_output_sink :: "(char \<Rightarrow> 'w \<Rightarrow> 'w) option \<Rightarrow> 'w display \<Rightarrow> 'w display" where
  "display_output_sink s st = st\<lparr>output_sink := s\<rparr>"

definition clear_sequence :: string where "clear_sequence = ESC # ''[2J'' @ ESC # ''[H''"

definition display_clear :: "'w ports \<Rightarrow> 'w display \<Rightarrow> 'w display" where
  "display_clear io st =
     (let st = fold (\<lambda>y. fold (\<lambda>x st. render_cell x y 32 (color st) st) [0..<width st]) [0..<height st] st
      in serial_raw io clear_sequence (cursor_vga io (st\<lparr>row := 0, col := 0\<rparr>)))"

definition uart_init :: "'w ports \<Rightarrow> 'w \<Rightarrow> bool \<times> 'w" where
  "uart_init io w =
     (let w = fold (\<lambda>(p, v). outb io p v)
            [(COM1 + 1, 0), (COM1 + 3, 0x80), (COM1, 3), (COM1 + 1, 0), (COM1 + 3, 3), (COM1 + 2, 0xC7), (COM1 + 4, 0x0B)] w;
          (s, w) = inb io (COM1 + 5) w
      in (s \<noteq> 0xFF, w))"

definition display_init :: "'w ports \<Rightarrow> ('w \<Rightarrow> 'w) \<Rightarrow> nat \<Rightarrow> 'w display \<Rightarrow> 'w display option" where
  "display_init io exceptions_init multiboot_address st =
     (let st = st\<lparr>serial_present := False, initialized := False, characters := 0, output_sink := None, cursor_x := 0, cursor_y := 0,
            cursor_blink_ns := 0, cursor_visible := False, cursor_full_block := False, cursor_drawn := False, framebuffer := 0\<rparr>
      in map_option (\<lambda>st.
           let st = (if framebuffer st = 0 then vga_load_font io st else st);
               (s, w) = uart_init io (hw st);
               st = display_clear io (st\<lparr>hw := w, serial_present := s\<rparr>)
           in st\<lparr>initialized := True, hw := exceptions_init (hw st)\<rparr>) (framebuffer_info multiboot_address st))"

definition display_color :: "'w ports \<Rightarrow> u8 \<Rightarrow> 'w display \<Rightarrow> 'w display" where
  "display_color io c st = apply_color io (st\<lparr>fg := c AND 7, bold := (c AND 8 \<noteq> 0)\<rparr>)"

definition to_sink :: "'w ports \<Rightarrow> (char \<Rightarrow> 'w \<Rightarrow> 'w) \<Rightarrow> char \<Rightarrow> 'w display \<Rightarrow> 'w display" where
  "to_sink io f c st =
     (let st = serial_put io (if c = LF then CR else c) (st\<lparr>characters := characters st + 1, hw := f c (hw st)\<rparr>)
      in if c = LF then serial_put io LF st else st)"

definition show_char :: "'w ports \<Rightarrow> char \<Rightarrow> 'w display \<Rightarrow> 'w display" where
  "show_char io c st =
     (if c = LF then serial_put io LF (serial_put io CR (st\<lparr>col := 0, row := row st + 1\<rparr>))
      else if c = BS then
        if col st \<noteq> 0
        then serial_raw io [BS, CHR '' '', BS] (render_cell (col st - 1) (row st) 32 (color st) (st\<lparr>col := col st - 1\<rparr>))
        else st
      else let st = render_cell (col st) (row st) (ord c) (color st) st;
               st = serial_put io c (st\<lparr>col := col st + 1\<rparr>)
           in if col st = width st then st\<lparr>col := 0, row := row st + 1\<rparr> else st)"

definition settle :: "'w ports \<Rightarrow> 'w display \<Rightarrow> 'w display" where
  "settle io st = cursor_vga io (cursor_draw (st\<lparr>cursor_x := col st, cursor_y := row st\<rparr>))"

definition display_putc :: "'w ports \<Rightarrow> char \<Rightarrow> 'w display \<Rightarrow> 'w display" where
  "display_putc io c st =
     (case output_sink st of
        Some f \<Rightarrow> to_sink io f c st
      | None \<Rightarrow> let st = cursor_restore st in
          settle io (scroll (show_char io c (st\<lparr>characters := characters st + 1\<rparr>))))"

definition display_puts :: "'w ports \<Rightarrow> string \<Rightarrow> 'w display \<Rightarrow> 'w display" where
  "display_puts io s = fold (display_putc io) s"

definition display_number :: "'w ports \<Rightarrow> u64 \<Rightarrow> 'w display \<Rightarrow> 'w display" where
  "display_number io n =
     (if n = 0 then display_putc io (CHR ''0'') else fold (display_putc io) (rev (digits (unat n))))"

definition move_cursor :: "'w ports \<Rightarrow> nat \<Rightarrow> string \<Rightarrow> 'w display \<Rightarrow> 'w display" where
  "move_cursor io p code st =
     (let st = cursor_restore st; st = st\<lparr>row := p div width st, col := p mod width st\<rparr>
      in cursor_vga io (serial_raw io code (cursor_draw (st\<lparr>cursor_x := col st, cursor_y := row st\<rparr>))))"

definition display_cursor_left :: "'w ports \<Rightarrow> 'w display \<Rightarrow> 'w display" where
  "display_cursor_left io st =
     (let p = row st * width st + col st in if p \<noteq> 0 then move_cursor io (p - 1) (ESC # ''[D'') st else st)"

definition display_cursor_right :: "'w ports \<Rightarrow> 'w display \<Rightarrow> 'w display" where
  "display_cursor_right io st =
     (let p = row st * width st + col st
      in if p + 1 < width st * height st then move_cursor io (p + 1) (ESC # ''[C'') st else st)"

text \<open>Text with the markers of \<open>display_styled\<close>.\<close>

definition styled_tag :: "string \<Rightarrow> 'w display \<Rightarrow> (nat \<times> 'w display) option" where
  "styled_tag t st =
     (if startswith t ''(bold)'' then Some (6, st\<lparr>bold := True\<rparr>)
      else if startswith t ''(/bold)'' then Some (7, st\<lparr>bold := False\<rparr>)
      else if startswith t ''(green)'' then Some (7, st\<lparr>fg := 2\<rparr>)
      else if startswith t ''(yellow)'' then Some (8, st\<lparr>fg := 6\<rparr>)
      else if startswith t ''(white)'' then Some (7, st\<lparr>fg := 7\<rparr>)
      else if startswith t ''(reset)'' then Some (7, st\<lparr>fg := 7, bold := False\<rparr>)
      else None)"

fun styled :: "'w ports \<Rightarrow> string \<Rightarrow> 'w display \<Rightarrow> 'w display" where
  "styled io [] st = st"
| "styled io (c # t) st =
     (case styled_tag (c # t) st of
        Some (k, st) \<Rightarrow> styled io (drop (k - 1) t) (apply_color io st)
      | None \<Rightarrow> styled io t (display_putc io c st))"

definition display_styled :: "'w ports \<Rightarrow> string \<Rightarrow> 'w display \<Rightarrow> 'w display" where
  "display_styled io t st = apply_color io ((styled io t st)\<lparr>fg := 7, bold := False\<rparr>)"

section \<open>Cells\<close>

definition display_cell :: "nat \<Rightarrow> nat \<Rightarrow> 'w display \<Rightarrow> u16" where
  "display_cell x y st = (if x < width st \<and> y < height st then cells st (y * MAX_WIDTH + x) else 0)"

definition serial_unicode :: "(u8 \<times> u16) list" where
  "serial_unicode =
     [(217, 0x2518), (218, 0x250C), (219, 0x2588), (176, 0x2591), (177, 0x2592), (178, 0x2593)] @
     zip [179, 180, 181, 182, 183, 184, 185, 186, 187, 188, 189, 190, 191, 192, 193, 194, 195, 196, 197, 198, 199,
          200, 201, 202, 203, 204, 205, 206, 207]
         [0x2502, 0x2524, 0x2561, 0x2562, 0x2556, 0x2555, 0x2563, 0x2551, 0x2557, 0x255D, 0x255C, 0x255B, 0x2510,
          0x2514, 0x2534, 0x252C, 0x251C, 0x2500, 0x253C, 0x255E, 0x255F, 0x255A, 0x2554, 0x2569, 0x2566, 0x2560,
          0x2550, 0x256C, 0x2567]"

text \<open>The bytes \<open>serial_cell\<close> sends: UTF-8 for the glyphs of the table.\<close>

definition serial_cell_bytes :: "u8 \<Rightarrow> string" where
  "serial_cell_bytes ch =
     (case map_of serial_unicode ch of
        Some u \<Rightarrow> map chr [0xE0 OR ucast (drop_bit 12 u), 0x80 OR ucast (drop_bit 6 u AND 63), 0x80 OR ucast (u AND 63)]
      | None \<Rightarrow> [if ch < 128 then chr ch else CHR ''?''])"

definition serial_cell :: "'w ports \<Rightarrow> u8 \<Rightarrow> 'w display \<Rightarrow> 'w display" where
  "serial_cell io ch = fold (serial_put io) (serial_cell_bytes ch)"

definition ansi :: "nat list" where "ansi = [0, 4, 2, 6, 1, 5, 3, 7]"

definition mirror_cell :: "'w ports \<Rightarrow> nat \<Rightarrow> nat \<Rightarrow> u8 \<Rightarrow> u8 \<Rightarrow> 'w display \<Rightarrow> 'w display" where
  "mirror_cell io x y ch attribute st =
     (let st = serial_number io (y + 1) (serial_raw io (ESC # ''['') st);
          st = serial_number io (x + 1) (serial_put io (CHR '';'') st);
          st = serial_raw io (''H'' @ ESC # ''['') st;
          st = serial_number io ((if attribute AND 8 \<noteq> 0 then 90 else 30) + ansi ! unat (attribute AND 7)) st;
          st = serial_number io (40 + ansi ! unat (drop_bit 4 attribute AND 7)) (serial_put io (CHR '';'') st)
      in serial_cell io ch (serial_put io (CHR ''m'') st))"

definition display_set_cell :: "'w ports \<Rightarrow> nat \<Rightarrow> nat \<Rightarrow> u8 \<Rightarrow> u8 \<Rightarrow> 'w display \<Rightarrow> 'w display" where
  "display_set_cell io x y ch attribute st =
     (if x \<ge> width st \<or> y \<ge> height st then st
      else let st = render_cell x y ch attribute st
           in if serial_present st \<and> serial_cells_enabled st then mirror_cell io x y ch attribute st else st)"

definition display_cursor_set :: "'w ports \<Rightarrow> nat \<Rightarrow> nat \<Rightarrow> bool \<Rightarrow> bool \<Rightarrow> 'w display \<Rightarrow> 'w display" where
  "display_cursor_set io x y visible full_block st =
     (let x = (if x \<ge> width st then sub64 (width st) 1 else x);
          y = (if y \<ge> height st then sub64 (height st) 1 else y);
          st = (cursor_restore st)\<lparr>row := y, col := x, cursor_x := x, cursor_y := y, cursor_visible := visible,
            cursor_full_block := full_block, cursor_blink_ns := 0\<rparr>;
          st = (if framebuffer st \<noteq> 0 then cursor_draw st
                else cursor_vga io (st\<lparr>hw := outb io 0x3D5 0x0F (outb io 0x3D4 0x0B
                  (outb io 0x3D5 (if visible then if full_block then 0 else 0x0E else 0x20) (outb io 0x3D4 0x0A (hw st))))\<rparr>))
      in if serial_present st then serial_raw io (if visible then ESC # ''[?25h'' else ESC # ''[?25l'') st else st)"

definition display_cursor_tick :: "u64 \<Rightarrow> 'w display \<Rightarrow> 'w display" where
  "display_cursor_tick now st =
     (if framebuffer st = 0 \<or> \<not> cursor_visible st then st
      else if cursor_blink_ns st = 0 then st\<lparr>cursor_blink_ns := now\<rparr>
      else if now - cursor_blink_ns st < 500000000 then st
      else (if cursor_drawn st then cursor_restore st else cursor_draw st)\<lparr>cursor_blink_ns := now\<rparr>)"

definition display_cursor_activity :: "u64 \<Rightarrow> 'w display \<Rightarrow> 'w display" where
  "display_cursor_activity now st =
     (if framebuffer st = 0 \<or> \<not> cursor_visible st then st
      else (cursor_draw (if cursor_drawn st then cursor_restore st else st))\<lparr>cursor_blink_ns := now\<rparr>)"

definition display_serial_cells :: "bool \<Rightarrow> 'w display \<Rightarrow> 'w display" where
  "display_serial_cells enabled st = st\<lparr>serial_cells_enabled := enabled\<rparr>"

definition display_serial_clear :: "'w ports \<Rightarrow> 'w display \<Rightarrow> 'w display" where
  "display_serial_clear io = serial_raw io clear_sequence"

section \<open>Pixels\<close>

text \<open>The line address is computed in 32 bits.\<close>

definition line_at :: "'w display \<Rightarrow> u32 \<Rightarrow> nat" where
  "line_at st y = framebuffer st + unat (y * fb_pitch st)"

definition display_pixel_width :: "'w display \<Rightarrow> u32" where
  "display_pixel_width st = (if framebuffer st \<noteq> 0 then fb_width st else 720)"

definition display_pixel_height :: "'w display \<Rightarrow> u32" where
  "display_pixel_height st = (if framebuffer st \<noteq> 0 then fb_height st else 400)"

definition display_graphics_get_pixel :: "u32 \<Rightarrow> u32 \<Rightarrow> 'w display \<Rightarrow> u32" where
  "display_graphics_get_pixel x y st =
     (if framebuffer st = 0 \<or> x \<ge> fb_width st \<or> y \<ge> fb_height st then 0 else ld32 (dmem st) (line_at st y + 4 * unat x))"

definition display_graphics_put_pixel :: "u32 \<Rightarrow> u32 \<Rightarrow> u32 \<Rightarrow> 'w display \<Rightarrow> 'w display" where
  "display_graphics_put_pixel x y v st =
     (if framebuffer st = 0 \<or> x \<ge> fb_width st \<or> y \<ge> fb_height st then st
      else st\<lparr>dmem := st32 (line_at st y + 4 * unat x) v (dmem st)\<rparr>)"

definition display_graphics_fill :: "u32 \<Rightarrow> u32 \<Rightarrow> u32 \<Rightarrow> u32 \<Rightarrow> u32 \<Rightarrow> 'w display \<Rightarrow> 'w display" where
  "display_graphics_fill x y w h v st =
     (if framebuffer st = 0 \<or> x \<ge> fb_width st \<or> y \<ge> fb_height st then st
      else let w = min w (fb_width st - x); h = min h (fb_height st - y)
           in st\<lparr>dmem := fold (\<lambda>yy. fold (\<lambda>xx. st32 (line_at st (y + of_nat yy) + 4 * unat x + 4 * xx) v) [0..<unat w]) [0..<unat h] (dmem st)\<rparr>)"

definition graphics_glyph :: "u32 \<Rightarrow> u32 \<Rightarrow> u8 \<Rightarrow> u32 \<Rightarrow> u32 \<Rightarrow> u32 \<Rightarrow> 'w display \<Rightarrow> 'w display" where
  "graphics_glyph x y ch foreground background scale =
     fold (\<lambda>gy. let bits = glyph_row ch gy in
       fold (\<lambda>gx. display_graphics_fill (x + of_nat gx * scale) (y + of_nat gy * scale) scale scale
         (if bits AND drop_bit gx 0x80 \<noteq> 0 then foreground else background)) [0..<FONT_WIDTH]) [0..<FONT_HEIGHT]"

fun graphics_chars :: "u32 \<Rightarrow> u32 \<Rightarrow> string \<Rightarrow> u32 \<Rightarrow> u32 \<Rightarrow> u32 \<Rightarrow> 'w display \<Rightarrow> 'w display" where
  "graphics_chars x y [] foreground background scale st = st"
| "graphics_chars x y (c # s) foreground background scale st =
     graphics_chars (x + of_nat FONT_WIDTH * scale) y s foreground background scale
       (graphics_glyph x y (ord c) foreground background scale st)"

definition display_graphics_text :: "u32 \<Rightarrow> u32 \<Rightarrow> string \<Rightarrow> u32 \<Rightarrow> u32 \<Rightarrow> u32 \<Rightarrow> 'w display \<Rightarrow> 'w display" where
  "display_graphics_text x y s foreground background scale st =
     (if framebuffer st = 0 then st
      else graphics_chars x y s foreground background (if scale = 0 then 1 else scale) st)"

section \<open>Mode switching\<close>

definition read_reg :: "'w ports \<Rightarrow> u16 \<Rightarrow> 'w \<Rightarrow> u16 \<times> 'w" where
  "read_reg io index w = inw io 0x1CF (outw io 0x1CE index w)"

definition write_reg :: "'w ports \<Rightarrow> u16 \<Rightarrow> u16 \<Rightarrow> 'w \<Rightarrow> 'w" where
  "write_reg io index val w = outw io 0x1CF val (outw io 0x1CE index w)"

definition bochs_vbe_available :: "'w ports \<Rightarrow> 'w \<Rightarrow> bool \<times> 'w" where
  "bochs_vbe_available io w = (let (i, w) = read_reg io 0 w in (0xB0C0 \<le> i \<and> i \<le> 0xB0C5, w))"

definition bochs_vbe_set_mode :: "'w ports \<Rightarrow> u16 \<Rightarrow> u16 \<Rightarrow> u16 \<Rightarrow> 'w \<Rightarrow> bool \<times> 'w" where
  "bochs_vbe_set_mode io wd ht bpp w =
     (let (ok, w) = bochs_vbe_available io w in
      if \<not> ok \<or> bpp \<noteq> 32 \<or> wd < 640 \<or> ht < 400 \<or> wd > 1920 \<or> ht > 1200 then (False, w)
      else let w = fold (\<lambda>(r, v). write_reg io r v) [(4, 0), (1, wd), (2, ht), (3, bpp), (6, wd), (4, 0xC1)] w;
               (a, w) = read_reg io 1 w
           in if a \<noteq> wd then (False, w)
              else let (b, w) = read_reg io 2 w in
                if b \<noteq> ht then (False, w) else let (c, w) = read_reg io 3 w in (c = bpp, w))"

definition display_mode_supported :: "'w ports \<Rightarrow> 'w display \<Rightarrow> bool \<times> 'w display" where
  "display_mode_supported io st =
     (if framebuffer st = 0 then (False, st)
      else let (ok, w) = bochs_vbe_available io (hw st) in (ok, st\<lparr>hw := w\<rparr>))"

definition fill_mode :: "'w display \<Rightarrow> memory \<Rightarrow> memory" where
  "fill_mode st = fold (\<lambda>y. fold (\<lambda>x. st32 (line_at st (of_nat y) + 4 * x) (palette ! unat (drop_bit 4 (color st) AND 15)))
     [0..<unat (fb_width st)]) [0..<unat (fb_height st)]"

definition display_set_mode :: "'w ports \<Rightarrow> u32 \<Rightarrow> u32 \<Rightarrow> 'w display \<Rightarrow> bool \<times> 'w display" where
  "display_set_mode io new_width new_height st =
     (if framebuffer st = 0 \<or> new_width > 1920 \<or> new_height > 1200 then (False, st)
      else let (ok, w) = bochs_vbe_set_mode io (ucast new_width) (ucast new_height) 32 (hw st); st = st\<lparr>hw := w\<rparr> in
        if \<not> ok then (False, st)
        else let st = (cursor_restore st)\<lparr>fb_width := new_width, fb_height := new_height, fb_pitch := new_width * 4,
                   width := min (unat new_width div CELL_WIDTH) MAX_WIDTH, height := min (unat new_height div CELL_HEIGHT) MAX_HEIGHT,
                   row := 0, col := 0, cursor_x := 0, cursor_y := 0, cursor_drawn := False\<rparr>
             in (True, display_clear io (st\<lparr>dmem := fill_mode st (dmem st)\<rparr>)))"

section \<open>What the operations keep\<close>

text \<open>Only the state behind the ports differs.\<close>

definition hw_only :: "'w display \<Rightarrow> 'w display \<Rightarrow> bool" where
  "hw_only st st' \<longleftrightarrow> st' = st\<lparr>hw := hw st'\<rparr>"

lemma hw_only_refl: "hw_only st st"
  by (simp add: hw_only_def)

lemma hw_only_update: "hw_only st (st\<lparr>hw := w\<rparr>)"
  by (simp add: hw_only_def)

lemma hw_only_trans: "hw_only st st' \<Longrightarrow> hw_only st' st'' \<Longrightarrow> hw_only st st''"
  unfolding hw_only_def by (metis display.update_convs(1) display.surjective)

lemma hw_only_fold: "(\<And>x s. hw_only s (f x s)) \<Longrightarrow> hw_only s (fold f xs s)"
  by (induction xs arbitrary: s) (auto intro: hw_only_refl hw_only_trans)

lemma hw_only_serial_put: "hw_only st (serial_put io c st)"
  by (simp add: serial_put_def hw_only_update hw_only_refl)

lemma hw_only_serial_raw: "hw_only st (serial_raw io s st)"
  unfolding serial_raw_def by (rule hw_only_fold) (rule hw_only_serial_put)

lemma hw_only_serial_number: "hw_only st (serial_number io n st)"
  by (simp add: serial_number_def hw_only_fold hw_only_serial_put)

lemma hw_only_serial_cell: "hw_only st (serial_cell io n st)"
  unfolding serial_cell_def by (rule hw_only_fold) (rule hw_only_serial_put)

lemma hw_only_cursor_vga: "hw_only st (cursor_vga io st)"
  by (simp add: cursor_vga_def Let_def hw_only_update hw_only_refl)

lemma hw_only_mirror_cell: "hw_only st (mirror_cell io x y ch a st)"
  unfolding mirror_cell_def Let_def
  by (intro hw_only_trans [OF _ hw_only_serial_put] hw_only_trans [OF _ hw_only_serial_raw]
      hw_only_trans [OF _ hw_only_serial_number] hw_only_trans [OF _ hw_only_serial_cell] hw_only_refl)

text \<open>Everything but the ports.\<close>

lemma hw_only_fields:
  assumes "hw_only st st'"
  shows "dmem st' = dmem st \<and> row st' = row st \<and> col st' = col st \<and> width st' = width st \<and> height st' = height st \<and>
    color st' = color st \<and> fg st' = fg st \<and> bold st' = bold st \<and> serial_present st' = serial_present st \<and>
    serial_cells_enabled st' = serial_cells_enabled st \<and> cells st' = cells st \<and> framebuffer st' = framebuffer st \<and>
    fb_pitch st' = fb_pitch st \<and> fb_width st' = fb_width st \<and> cursor_x st' = cursor_x st \<and> cursor_y st' = cursor_y st \<and>
    cursor_visible st' = cursor_visible st \<and> cursor_full_block st' = cursor_full_block st \<and>
    cursor_drawn st' = cursor_drawn st \<and> output_sink st' = output_sink st"
proof -
  obtain w where e: "st' = st\<lparr>hw := w\<rparr>" using assms unfolding hw_only_def by metis
  show ?thesis unfolding e by simp
qed

lemmas hw_only_simps [simp] =
  hw_only_fields [OF hw_only_serial_put] hw_only_fields [OF hw_only_serial_raw] hw_only_fields [OF hw_only_serial_number]
  hw_only_fields [OF hw_only_serial_cell] hw_only_fields [OF hw_only_cursor_vga] hw_only_fields [OF hw_only_mirror_cell]

lemma framebuffer_cell_simps [simp]:
  "row (framebuffer_cell x y ch a st) = row st" "col (framebuffer_cell x y ch a st) = col st"
  "width (framebuffer_cell x y ch a st) = width st" "height (framebuffer_cell x y ch a st) = height st"
  "color (framebuffer_cell x y ch a st) = color st" "cells (framebuffer_cell x y ch a st) = cells st"
  "serial_present (framebuffer_cell x y ch a st) = serial_present st"
  "serial_cells_enabled (framebuffer_cell x y ch a st) = serial_cells_enabled st"
  "framebuffer (framebuffer_cell x y ch a st) = framebuffer st" "fb_pitch (framebuffer_cell x y ch a st) = fb_pitch st"
  "cursor_x (framebuffer_cell x y ch a st) = cursor_x st" "cursor_y (framebuffer_cell x y ch a st) = cursor_y st"
  "cursor_visible (framebuffer_cell x y ch a st) = cursor_visible st"
  "cursor_drawn (framebuffer_cell x y ch a st) = cursor_drawn st" "output_sink (framebuffer_cell x y ch a st) = output_sink st"
  by (simp_all add: framebuffer_cell_def Let_def)

lemma render_cell_simps [simp]:
  "row (render_cell x y ch a st) = row st" "col (render_cell x y ch a st) = col st"
  "width (render_cell x y ch a st) = width st" "height (render_cell x y ch a st) = height st"
  "color (render_cell x y ch a st) = color st" "output_sink (render_cell x y ch a st) = output_sink st"
  "serial_present (render_cell x y ch a st) = serial_present st"
  "serial_cells_enabled (render_cell x y ch a st) = serial_cells_enabled st"
  "framebuffer (render_cell x y ch a st) = framebuffer st" "fb_pitch (render_cell x y ch a st) = fb_pitch st"
  "cursor_x (render_cell x y ch a st) = cursor_x st" "cursor_y (render_cell x y ch a st) = cursor_y st"
  "cursor_visible (render_cell x y ch a st) = cursor_visible st" "cursor_drawn (render_cell x y ch a st) = cursor_drawn st"
  "cells (render_cell x y ch a st) =
     (if x < width st \<and> y < height st then (cells st)(y * MAX_WIDTH + x := pack a ch) else cells st)"
  by (simp_all add: render_cell_def Let_def)

lemma cursor_simps [simp]:
  "row (cursor_restore st) = row st" "col (cursor_restore st) = col st" "width (cursor_restore st) = width st"
  "height (cursor_restore st) = height st" "color (cursor_restore st) = color st" "cells (cursor_restore st) = cells st"
  "framebuffer (cursor_restore st) = framebuffer st" "fb_pitch (cursor_restore st) = fb_pitch st"
  "output_sink (cursor_restore st) = output_sink st" "cursor_visible (cursor_restore st) = cursor_visible st"
  "serial_present (cursor_restore st) = serial_present st" "serial_cells_enabled (cursor_restore st) = serial_cells_enabled st"
  "cursor_x (cursor_restore st) = cursor_x st" "cursor_y (cursor_restore st) = cursor_y st"
  "row (cursor_draw st) = row st" "col (cursor_draw st) = col st" "width (cursor_draw st) = width st"
  "height (cursor_draw st) = height st" "color (cursor_draw st) = color st" "cells (cursor_draw st) = cells st"
  "framebuffer (cursor_draw st) = framebuffer st" "fb_pitch (cursor_draw st) = fb_pitch st"
  "output_sink (cursor_draw st) = output_sink st" "cursor_x (cursor_draw st) = cursor_x st" "cursor_y (cursor_draw st) = cursor_y st"
  "serial_present (cursor_draw st) = serial_present st" "serial_cells_enabled (cursor_draw st) = serial_cells_enabled st"
  by (simp_all add: cursor_restore_def cursor_draw_def Let_def)

lemma pack_parts [simp]: "cell_char (pack a c) = c" "cell_attr (pack a c) = a" "pack (cell_attr v) (cell_char v) = v"
proof -
  show "cell_char (pack a c) = c" unfolding pack_def cell_char_def
    by (rule bit_word_eqI) (auto simp: bit_simps)
  show "cell_attr (pack a c) = a" unfolding pack_def cell_attr_def
    by (rule bit_word_eqI) (auto simp: bit_simps dest: bit_imp_le_length)
  show "pack (cell_attr v) (cell_char v) = v" unfolding pack_def cell_attr_def cell_char_def
  proof (rule bit_word_eqI)
    fix n assume "n < LENGTH(16)"
    then show "bit (push_bit 8 (ucast (ucast (drop_bit 8 v) :: u8)) OR ucast (ucast v :: u8) :: u16) n = bit v n"
      by (cases "n < 8") (auto simp: bit_simps)
  qed
qed

text \<open>Only the cells and the memory they are drawn in differ.\<close>

definition cells_only :: "'w display \<Rightarrow> 'w display \<Rightarrow> bool" where
  "cells_only st st' \<longleftrightarrow> (\<exists>c m. st' = st\<lparr>cells := c, dmem := m\<rparr>)"

lemma cells_only_refl: "cells_only st st"
  unfolding cells_only_def by (intro exI [of _ "cells st"] exI [of _ "dmem st"]) simp

lemma cells_only_trans: "cells_only st st' \<Longrightarrow> cells_only st' st'' \<Longrightarrow> cells_only st st''"
  unfolding cells_only_def by (elim exE) (simp, blast)

lemma cells_only_fold: "(\<And>x s. cells_only s (f x s)) \<Longrightarrow> cells_only s (fold f xs s)"
  by (induction xs arbitrary: s) (auto intro: cells_only_refl cells_only_trans)

lemma cells_only_render: "cells_only st (render_cell x y ch a st)"
proof -
  have "cells_only st (st\<lparr>cells := c, dmem := m\<rparr>)" for c m unfolding cells_only_def by blast
  then show ?thesis by (simp add: render_cell_def framebuffer_cell_def Let_def cells_only_refl)
qed

lemma cells_only_fields:
  assumes "cells_only st st'"
  shows "row st' = row st \<and> col st' = col st \<and> width st' = width st \<and> height st' = height st \<and>
    color st' = color st \<and> serial_present st' = serial_present st \<and> hw st' = hw st \<and>
    serial_cells_enabled st' = serial_cells_enabled st \<and> framebuffer st' = framebuffer st \<and>
    fb_pitch st' = fb_pitch st \<and> fb_width st' = fb_width st \<and> cursor_x st' = cursor_x st \<and> cursor_y st' = cursor_y st \<and>
    cursor_visible st' = cursor_visible st \<and> cursor_full_block st' = cursor_full_block st \<and>
    cursor_drawn st' = cursor_drawn st \<and> output_sink st' = output_sink st"
proof -
  obtain c m where e: "st' = st\<lparr>cells := c, dmem := m\<rparr>" using assms unfolding cells_only_def by metis
  show ?thesis unfolding e by simp
qed

section \<open>Memory\<close>

definition ld16 :: "memory \<Rightarrow> nat \<Rightarrow> u16" where
  "ld16 m a = ucast (m a) OR push_bit 8 (ucast (m (a + 1)))"

lemma ld16_st16 [simp]: "ld16 (st16 a v m) a = v"
  unfolding ld16_def st16_def
proof (rule bit_word_eqI)
  fix n assume "n < LENGTH(16)"
  then show "bit (ucast ((m(a := ucast v, a + 1 := ucast (drop_bit 8 v))) a) OR
      push_bit 8 (ucast ((m(a := ucast v, a + 1 := ucast (drop_bit 8 v))) (a + 1))) :: u16) n = bit v n"
    by (cases "n < 8") (auto simp: bit_simps)
qed

lemma ld16_st16_other [simp]: "a + 2 \<le> b \<or> b + 2 \<le> a \<Longrightarrow> ld16 (st16 a v m) b = ld16 m b"
  by (auto simp: ld16_def st16_def)

lemma ld32_st32 [simp]: "ld32 (st32 a v m) a = v"
proof (rule bit_word_eqI)
  fix n assume "n < LENGTH(32)"
  then have "n < 8 \<or> 8 \<le> n \<and> n < 16 \<or> 16 \<le> n \<and> n < 24 \<or> 24 \<le> n \<and> n < 32" by auto
  then show "bit (ld32 (st32 a v m) a) n = bit v n"
    unfolding ld32_def st32_def by (elim disjE) (auto simp: bit_simps)
qed

definition far :: "nat \<Rightarrow> nat \<Rightarrow> bool" where
  "far a b \<longleftrightarrow> a + 4 \<le> b \<or> b + 4 \<le> a"

lemma ld32_st32_other [simp]: "far a b \<Longrightarrow> ld32 (st32 a v m) b = ld32 m b"
  by (auto simp: ld32_def st32_def far_def)

lemma far_sym: "far a b \<Longrightarrow> far b a"
  by (auto simp: far_def)

text \<open>A loop that plots a row of pixels, and one that plots rows, at addresses that do not overlap.\<close>

lemma plot_row:
  assumes "\<forall>p<n. \<forall>q<n. p \<noteq> q \<longrightarrow> far (a p) (a q)"
  shows "(\<forall>p<n. ld32 (fold (\<lambda>p. st32 (a p) (c p)) [0..<n] m) (a p) = c p) \<and>
    (\<forall>b. (\<forall>p<n. far (a p) b) \<longrightarrow> ld32 (fold (\<lambda>p. st32 (a p) (c p)) [0..<n] m) b = ld32 m b)"
  using assms
proof (induction n)
  case (Suc n)
  then have "\<forall>p<n. far (a n) (a p)" by auto
  with Suc show ?case by (auto simp: less_Suc_eq)
qed simp

lemma plot_rows:
  assumes "\<forall>p<n. \<forall>q<n. \<forall>r<k. \<forall>s<k. (p, r) \<noteq> (q, s) \<longrightarrow> far (a p r) (a q s)"
  shows "(\<forall>p<n. \<forall>r<k. ld32 (fold (\<lambda>r. fold (\<lambda>p. st32 (a p r) (c p r)) [0..<n]) [0..<k] m) (a p r) = c p r) \<and>
    (\<forall>b. (\<forall>p<n. \<forall>r<k. far (a p r) b) \<longrightarrow>
      ld32 (fold (\<lambda>r. fold (\<lambda>p. st32 (a p r) (c p r)) [0..<n]) [0..<k] m) b = ld32 m b)"
  using assms
proof (induction k)
  case (Suc k)
  let ?m = "fold (\<lambda>r. fold (\<lambda>p. st32 (a p r) (c p r)) [0..<n]) [0..<k] m"
  have IH: "(\<forall>p<n. \<forall>r<k. ld32 ?m (a p r) = c p r) \<and> (\<forall>b. (\<forall>p<n. \<forall>r<k. far (a p r) b) \<longrightarrow> ld32 ?m b = ld32 m b)"
    using Suc.prems by (intro Suc.IH) auto
  have r: "\<forall>p<n. \<forall>q<n. p \<noteq> q \<longrightarrow> far (a p k) (a q k)" using Suc.prems by auto
  have o: "\<forall>p<n. \<forall>q<n. \<forall>r<k. far (a p k) (a q r)" using Suc.prems by auto
  show ?case using plot_row [OF r, of "\<lambda>p. c p k" ?m] IH o by (auto simp: less_Suc_eq)
qed simp

lemma pixels_far:
  assumes "4 * X + 4 \<le> P" and "4 * X' + 4 \<le> P" and "(X, Y) \<noteq> (X', Y')"
  shows "far (b + Y * P + 4 * X) (b + Y' * P + 4 * X')"
proof (cases Y Y' rule: linorder_cases)
  case less
  then have "Suc Y * P \<le> Y' * P" by (intro mult_le_mono1) simp
  then show ?thesis using assms(1) by (simp add: far_def)
next
  case equal
  then have "X \<noteq> X'" using assms(3) by simp
  then show ?thesis using equal by (auto simp: far_def)
next
  case greater
  then have "Suc Y' * P \<le> Y * P" by (intro mult_le_mono1) simp
  then show ?thesis using assms(2) by (simp add: far_def)
qed

section \<open>The screen shows the shadow cells\<close>

definition geometry_ok :: "'w display \<Rightarrow> bool" where
  "geometry_ok st \<longleftrightarrow> 0 < width st \<and> width st \<le> MAX_WIDTH \<and> 0 < height st \<and> height st \<le> MAX_HEIGHT \<and>
     (if framebuffer st = 0 then width st = VGA_WIDTH \<and> height st = VGA_HEIGHT
      else 4 * (width st * CELL_WIDTH) \<le> unat (fb_pitch st))"

text \<open>The colour of a pixel of a cell, and the address of that pixel.\<close>

definition pixel_color :: "u8 \<Rightarrow> u8 \<Rightarrow> nat \<Rightarrow> nat \<Rightarrow> u32" where
  "pixel_color ch attribute px py =
     (if px < FONT_WIDTH \<and> (if py < FONT_HEIGHT then glyph_row ch py else 0) AND drop_bit px 0x80 \<noteq> 0
      then palette ! unat (attribute AND 15) else palette ! unat (drop_bit 4 attribute AND 15))"

definition pixel_at :: "'w display \<Rightarrow> nat \<Rightarrow> nat \<Rightarrow> nat \<Rightarrow> nat \<Rightarrow> nat" where
  "pixel_at st x y px py = framebuffer st + (y * CELL_HEIGHT + py) * unat (fb_pitch st) + x * CELL_WIDTH * 4 + 4 * px"

text \<open>The memory behind a cell shows a character with an attribute.\<close>

definition painted :: "'w display \<Rightarrow> nat \<Rightarrow> nat \<Rightarrow> u16 \<Rightarrow> bool" where
  "painted st x y v \<longleftrightarrow>
     (if framebuffer st = 0 then ld16 (dmem st) (vga + 2 * (y * VGA_WIDTH + x)) = v
      else \<forall>px<CELL_WIDTH. \<forall>py<CELL_HEIGHT. ld32 (dmem st) (pixel_at st x y px py) = pixel_color (cell_char v) (cell_attr v) px py)"

lemma framebuffer_cell_eq:
  "framebuffer st \<noteq> 0 \<Longrightarrow> dmem (framebuffer_cell x y ch a st) =
     fold (\<lambda>py. fold (\<lambda>px. st32 (pixel_at st x y px py) (pixel_color ch a px py)) [0..<CELL_WIDTH]) [0..<CELL_HEIGHT] (dmem st)"
  by (simp add: framebuffer_cell_def Let_def pixel_color_def pixel_at_def)

lemma mul_add_inj: "a < k \<Longrightarrow> b < k \<Longrightarrow> x * k + a = y * k + b \<longleftrightarrow> x = y \<and> a = b" for k :: nat
  by (metis add.commute add_left_cancel div_mult_self3 div_less add_0 less_nat_zero_code)

lemma pixel_at_far:
  assumes "geometry_ok st" and "framebuffer st \<noteq> 0" and "x < width st" and "x' < width st"
    and "px < CELL_WIDTH" and "px' < CELL_WIDTH" and "py < CELL_HEIGHT" and "py' < CELL_HEIGHT"
    and "(x, y, px, py) \<noteq> (x', y', px', py')"
  shows "far (pixel_at st x y px py) (pixel_at st x' y' px' py')"
proof -
  have b: "4 * (z * CELL_WIDTH + p) + 4 \<le> unat (fb_pitch st)" if "z < width st" "p < CELL_WIDTH" for z p
  proof -
    have "Suc z * CELL_WIDTH \<le> width st * CELL_WIDTH" using that by (intro mult_le_mono1) simp
    then have "z * CELL_WIDTH + p + 1 \<le> width st * CELL_WIDTH" using that by simp
    then show ?thesis using assms(1,2) by (simp add: geometry_ok_def)
  qed
  have "far (framebuffer st + (y * CELL_HEIGHT + py) * unat (fb_pitch st) + 4 * (x * CELL_WIDTH + px))
        (framebuffer st + (y' * CELL_HEIGHT + py') * unat (fb_pitch st) + 4 * (x' * CELL_WIDTH + px'))"
    by (rule pixels_far [OF b b]) (use assms in \<open>auto simp: mul_add_inj\<close>)
  then show ?thesis by (simp add: pixel_at_def algebra_simps)
qed

lemma framebuffer_cell_pixels:
  assumes "geometry_ok st" and "framebuffer st \<noteq> 0" and "x < width st" and "x' < width st"
    and "px < CELL_WIDTH" and "py < CELL_HEIGHT"
  shows "ld32 (dmem (framebuffer_cell x y ch a st)) (pixel_at st x' y' px py) =
    (if x' = x \<and> y' = y then pixel_color ch a px py else ld32 (dmem st) (pixel_at st x' y' px py))"
proof -
  have f: "\<forall>p<CELL_WIDTH. \<forall>q<CELL_WIDTH. \<forall>r<CELL_HEIGHT. \<forall>s<CELL_HEIGHT. (p, r) \<noteq> (q, s) \<longrightarrow>
      far (pixel_at st x y p r) (pixel_at st x y q s)"
    using assms by (auto intro: pixel_at_far)
  show ?thesis
  proof (cases "x' = x \<and> y' = y")
    case True
    then show ?thesis using plot_rows [OF f] assms by (simp add: framebuffer_cell_eq)
  next
    case False
    then have "\<forall>p<CELL_WIDTH. \<forall>r<CELL_HEIGHT. far (pixel_at st x y p r) (pixel_at st x' y' px py)"
      using assms by (auto intro!: pixel_at_far)
    then show ?thesis using plot_rows [OF f] assms(2) False by (auto simp: framebuffer_cell_eq)
  qed
qed

lemma pixel_at_cong: "framebuffer st' = framebuffer st \<Longrightarrow> fb_pitch st' = fb_pitch st \<Longrightarrow> pixel_at st' = pixel_at st"
  by (intro ext) (simp add: pixel_at_def)

lemma framebuffer_cell_painted:
  assumes "geometry_ok st" and "framebuffer st \<noteq> 0" and "x < width st" and "x' < width st"
  shows "x' = x \<and> y' = y \<Longrightarrow> painted (framebuffer_cell x y (cell_char v) (cell_attr v) st) x' y' v"
    and "x' \<noteq> x \<or> y' \<noteq> y \<Longrightarrow> painted (framebuffer_cell x y ch a st) x' y' v \<longleftrightarrow> painted st x' y' v"
  using assms framebuffer_cell_pixels [OF assms]
  by (auto simp: painted_def pixel_at_cong [of "framebuffer_cell x y _ _ st" st])

lemma painted_cong: "framebuffer st' = framebuffer st \<Longrightarrow> fb_pitch st' = fb_pitch st \<Longrightarrow> dmem st' = dmem st \<Longrightarrow> painted st' = painted st"
  by (intro ext) (simp add: painted_def pixel_at_cong [of st' st])

lemma even_apart: "i \<noteq> j \<Longrightarrow> b + 2 * i + 2 \<le> b + 2 * j \<or> b + 2 * j + 2 \<le> b + 2 * i" for b i j :: nat
  by arith

lemma vga_cell_far:
  assumes "x < VGA_WIDTH" and "x' < VGA_WIDTH" and "x' \<noteq> x \<or> y' \<noteq> y"
  shows "vga + 2 * (y * VGA_WIDTH + x) + 2 \<le> vga + 2 * (y' * VGA_WIDTH + x') \<or>
    vga + 2 * (y' * VGA_WIDTH + x') + 2 \<le> vga + 2 * (y * VGA_WIDTH + x)"
proof -
  have "y * VGA_WIDTH + x \<noteq> y' * VGA_WIDTH + x'" using assms by (auto simp: mul_add_inj)
  then show ?thesis by (rule even_apart)
qed

lemma render_cell_painted:
  assumes "geometry_ok st" and "x < width st" and "y < height st" and "x' < width st"
  shows "painted (render_cell x y ch a st) x y (pack a ch)"
    and "x' \<noteq> x \<or> y' \<noteq> y \<Longrightarrow> painted (render_cell x y ch a st) x' y' v \<longleftrightarrow> painted st x' y' v"
proof -
  let ?s = "st\<lparr>cells := (cells st)(y * MAX_WIDTH + x := pack a ch)\<rparr>"
  have g: "geometry_ok ?s" using assms(1) by (simp add: geometry_ok_def)
  have p: "painted ?s = painted st" by (rule painted_cong) simp_all
  have f: "render_cell x y ch a st = framebuffer_cell x y ch a ?s" if "framebuffer st \<noteq> 0"
    using that assms by (simp add: render_cell_def Let_def)
  show "painted (render_cell x y ch a st) x y (pack a ch)"
  proof (cases "framebuffer st = 0")
    case True
    then show ?thesis using assms by (simp add: render_cell_def painted_def Let_def)
  next
    case False
    show ?thesis unfolding f [OF False]
      using framebuffer_cell_painted(1) [OF g, of x x y y "pack a ch"] assms False by simp
  qed
  show "painted (render_cell x y ch a st) x' y' v \<longleftrightarrow> painted st x' y' v" if n: "x' \<noteq> x \<or> y' \<noteq> y"
  proof (cases "framebuffer st = 0")
    case True
    then have "x < VGA_WIDTH" "x' < VGA_WIDTH" using assms by (simp_all add: geometry_ok_def)
    from vga_cell_far [OF this n] show ?thesis using assms True by (simp add: render_cell_def painted_def Let_def)
  next
    case False
    show ?thesis unfolding f [OF False] p [symmetric]
      using framebuffer_cell_painted(2) [OF g _ _ _ n] assms False by simp
  qed
qed

text \<open>The cells of a region are on the screen.\<close>

definition shows_cells :: "(nat \<Rightarrow> nat \<Rightarrow> bool) \<Rightarrow> 'w display \<Rightarrow> bool" where
  "shows_cells R st \<longleftrightarrow> (\<forall>x<width st. \<forall>y<height st. R x y \<longrightarrow> painted st x y (cells st (y * MAX_WIDTH + x)))"

abbreviation solid :: "'w display \<Rightarrow> bool" where
  "solid \<equiv> shows_cells (\<lambda>_ _. True)"

definition cursor_at :: "'w display \<Rightarrow> nat \<Rightarrow> nat \<Rightarrow> bool" where
  "cursor_at st x y \<longleftrightarrow> framebuffer st \<noteq> 0 \<and> cursor_drawn st \<and> x = cursor_x st \<and> y = cursor_y st"

definition mirrored :: "'w display \<Rightarrow> bool" where
  "mirrored st \<longleftrightarrow> shows_cells (\<lambda>x y. \<not> cursor_at st x y) st"

lemma shows_cells_cong:
  assumes "framebuffer st' = framebuffer st" and "fb_pitch st' = fb_pitch st" and "dmem st' = dmem st"
    and "width st' = width st" and "height st' = height st" and "cells st' = cells st"
  shows "shows_cells R st' \<longleftrightarrow> shows_cells R st"
  by (simp add: shows_cells_def assms painted_cong [OF assms(1-3)])

lemma geometry_ok_cong:
  "width st' = width st \<Longrightarrow> height st' = height st \<Longrightarrow> framebuffer st' = framebuffer st \<Longrightarrow> fb_pitch st' = fb_pitch st \<Longrightarrow>
    geometry_ok st' \<longleftrightarrow> geometry_ok st"
  by (simp add: geometry_ok_def)

lemma shows_cells_render_more:
  assumes "geometry_ok st" and "shows_cells R st" and "x < width st" and "y < height st"
  shows "shows_cells (\<lambda>x' y'. R x' y' \<or> x' = x \<and> y' = y) (render_cell x y ch a st)"
  unfolding shows_cells_def render_cell_simps
proof (intro allI impI)
  fix x' y' assume b: "x' < width st" "y' < height st" "R x' y' \<or> x' = x \<and> y' = y"
  have m: "x < MAX_WIDTH" "x' < MAX_WIDTH" using b assms(1,3) by (auto simp: geometry_ok_def)
  have c: "(if x < width st \<and> y < height st then (cells st)(y * MAX_WIDTH + x := pack a ch) else cells st) (y' * MAX_WIDTH + x') =
      (if x' = x \<and> y' = y then pack a ch else cells st (y' * MAX_WIDTH + x'))"
    using assms m by (auto simp: mul_add_inj)
  show "painted (render_cell x y ch a st) x' y' ((if x < width st \<and> y < height st then (cells st)(y * MAX_WIDTH + x := pack a ch) else cells st) (y' * MAX_WIDTH + x'))"
    unfolding c using render_cell_painted [OF assms(1,3,4) b(1)] b assms(2) by (auto simp: shows_cells_def)
qed

lemma shows_cells_mono: "shows_cells R st \<Longrightarrow> (\<And>x y. x < width st \<Longrightarrow> y < height st \<Longrightarrow> Q x y \<Longrightarrow> R x y) \<Longrightarrow> shows_cells Q st"
  by (simp add: shows_cells_def)

lemma shows_cells_render:
  assumes "geometry_ok st" and "shows_cells R st"
  shows "shows_cells R (render_cell x y ch a st)"
proof (cases "x < width st \<and> y < height st")
  case True
  then show ?thesis by (intro shows_cells_mono [OF shows_cells_render_more [OF assms]]) simp_all
next
  case False
  then have "render_cell x y ch a st = st" by (auto simp: render_cell_def)
  then show ?thesis using assms(2) by simp
qed

lemma solid_restore:
  assumes "geometry_ok st" and "mirrored st"
  shows "solid (cursor_restore st)"
proof (cases "framebuffer st = 0 \<or> \<not> cursor_drawn st \<or> cursor_x st \<ge> width st \<or> cursor_y st \<ge> height st")
  case True
  then show ?thesis using assms(2) by (auto simp: cursor_restore_def mirrored_def shows_cells_def cursor_at_def)
next
  case False
  let ?v = "cursor_cell st"
  let ?s = "framebuffer_cell (cursor_x st) (cursor_y st) (cell_char ?v) (cell_attr ?v) st"
  have p: "painted (?s\<lparr>cursor_drawn := False\<rparr>) = painted ?s" by (rule painted_cong) simp_all
  have "painted ?s x y (cells st (y * MAX_WIDTH + x))" if "x < width st" "y < height st" for x y
  proof (cases "x = cursor_x st \<and> y = cursor_y st")
    case True
    then show ?thesis using framebuffer_cell_painted(1) [OF assms(1), of "cursor_x st" x y "cursor_y st" ?v] False that
      by (simp add: cursor_cell_def)
  next
    case o: False
    then show ?thesis using framebuffer_cell_painted(2) [OF assms(1), of "cursor_x st" x y "cursor_y st"] False that assms(2)
      by (auto simp: mirrored_def shows_cells_def cursor_at_def)
  qed
  then show ?thesis using False by (simp add: cursor_restore_def shows_cells_def p)
qed

lemma mirrored_draw:
  assumes "geometry_ok st" and "solid st"
  shows "mirrored (cursor_draw st)"
proof (cases "framebuffer st = 0 \<or> \<not> cursor_visible st \<or> cursor_drawn st \<or> cursor_x st \<ge> width st \<or> cursor_y st \<ge> height st")
  case True
  then show ?thesis using assms(2) by (auto simp: cursor_draw_def mirrored_def shows_cells_def)
next
  case False
  let ?s = "\<lambda>a. framebuffer_cell (cursor_x st) (cursor_y st) (cell_char (cursor_cell st)) a st"
  have p: "painted ((?s a)\<lparr>cursor_drawn := True\<rparr>) = painted (?s a)" for a by (rule painted_cong) simp_all
  show ?thesis using False assms framebuffer_cell_painted(2) [OF assms(1), of "cursor_x st"]
    by (auto simp: cursor_draw_def Let_def shows_cells_def mirrored_def cursor_at_def p)
qed

lemma solid_mirrored: "solid st \<Longrightarrow> mirrored st"
  by (simp add: mirrored_def shows_cells_def)

lemma mirrored_solid: "mirrored st \<Longrightarrow> \<not> cursor_drawn st \<Longrightarrow> solid st"
  by (simp add: mirrored_def shows_cells_def cursor_at_def)

section \<open>Scrolling\<close>

lemma scroll_cell_render:
  assumes "x < width st" and "1 \<le> y" and "y < height st"
  shows "scroll_cell x y st = render_cell x (y - 1) (cell_char (cells st (y * MAX_WIDTH + x))) (cell_attr (cells st (y * MAX_WIDTH + x))) st"
  using assms by (simp add: scroll_cell_def render_cell_def framebuffer_cell_def Let_def)

text \<open>What a loop of renderings keeps.\<close>

definition drawing :: "'w display \<Rightarrow> 'w display \<Rightarrow> bool" where
  "drawing st st' \<longleftrightarrow> cells_only st st' \<and> (\<forall>R. geometry_ok st \<longrightarrow> shows_cells R st \<longrightarrow> shows_cells R st')"

lemma drawing_refl: "drawing st st"
  by (simp add: drawing_def cells_only_refl)

lemma drawing_fields: "drawing st st' \<Longrightarrow> width st' = width st \<and> height st' = height st \<and> color st' = color st \<and>
    geometry_ok st' = geometry_ok st"
  using cells_only_fields [of st st'] by (simp add: drawing_def geometry_ok_def)

lemma drawing_trans: "drawing st st' \<Longrightarrow> drawing st' st'' \<Longrightarrow> drawing st st''"
  using drawing_fields [of st st'] unfolding drawing_def by (meson cells_only_trans)

lemma drawing_render: "drawing st (render_cell x y ch a st)"
  by (simp add: drawing_def cells_only_render shows_cells_render)

lemma drawing_fold:
  assumes "\<And>x s. x \<in> set xs \<Longrightarrow> drawing st s \<Longrightarrow> drawing s (f x s)"
  shows "drawing st (fold f xs st)"
proof -
  have "drawing st s \<Longrightarrow> set ys \<subseteq> set xs \<Longrightarrow> drawing st (fold f ys s)" for ys s
  proof (induction ys arbitrary: s)
    case (Cons y ys)
    then have "drawing st (f y s)" using drawing_trans [OF Cons.prems(1)] assms by simp
    with Cons show ?case by simp
  qed simp
  then show ?thesis using drawing_refl by blast
qed

lemma scrolled_row:
  assumes "geometry_ok st" and "Suc k < height st" and "n \<le> width st"
  shows "drawing st (fold (\<lambda>x. scroll_cell x (Suc k)) [0..<n] st) \<and>
    (\<forall>x' y'. x' < width st \<longrightarrow> cells (fold (\<lambda>x. scroll_cell x (Suc k)) [0..<n] st) (y' * MAX_WIDTH + x') =
      (if y' = k \<and> x' < n then cells st (Suc k * MAX_WIDTH + x') else cells st (y' * MAX_WIDTH + x')))"
  using assms(3)
proof (induction n)
  case 0
  then show ?case by (simp add: drawing_refl)
next
  case (Suc n)
  let ?s = "fold (\<lambda>x. scroll_cell x (Suc k)) [0..<n] st"
  let ?v = "cells ?s (Suc k * MAX_WIDTH + n)"
  have IH: "drawing st ?s" "x' < width st \<Longrightarrow> cells ?s (y' * MAX_WIDTH + x') =
      (if y' = k \<and> x' < n then cells st (Suc k * MAX_WIDTH + x') else cells st (y' * MAX_WIDTH + x'))" for x' y'
    using Suc by (simp_all del: mult_Suc)
  note f = drawing_fields [OF IH(1)]
  have r: "scroll_cell n (Suc k) ?s = render_cell n k (cell_char ?v) (cell_attr ?v) ?s"
    using scroll_cell_render [of n ?s "Suc k"] Suc.prems assms f by simp
  have i: "x' < width st \<Longrightarrow> y' * MAX_WIDTH + x' = k * MAX_WIDTH + n \<longleftrightarrow> y' = k \<and> x' = n" for x' y'
    using Suc.prems assms(1) by (intro mul_add_inj) (auto simp: geometry_ok_def)
  have n: "n < width st" "k < height st" using Suc.prems assms by auto
  have v: "?v = cells st (Suc k * MAX_WIDTH + n)" using IH(2) [OF n(1), of "Suc k"] by (simp del: mult_Suc)
  have "drawing st (scroll_cell n (Suc k) ?s)" unfolding r by (rule drawing_trans [OF IH(1) drawing_render])
  moreover have "cells (scroll_cell n (Suc k) ?s) (y' * MAX_WIDTH + x') =
      (if y' = k \<and> x' < Suc n then cells st (Suc k * MAX_WIDTH + x') else cells st (y' * MAX_WIDTH + x'))"
    if x: "x' < width st" for x' y'
    unfolding r render_cell_simps pack_parts(3) fun_upd_apply v using f n IH(2) [OF x, of y'] i [OF x, of y']
    by (auto simp: less_Suc_eq simp del: mult_Suc)
  ultimately show ?case by (simp del: mult_Suc)
qed

lemma scrolled_rows:
  assumes "geometry_ok st" and "k < height st"
  shows "drawing st (fold (\<lambda>y. fold (\<lambda>x. scroll_cell x y) [0..<width st]) [1..<Suc k] st) \<and>
    (\<forall>x' y'. x' < width st \<longrightarrow> cells (fold (\<lambda>y. fold (\<lambda>x. scroll_cell x y) [0..<width st]) [1..<Suc k] st) (y' * MAX_WIDTH + x') =
      cells st ((if y' < k then Suc y' else y') * MAX_WIDTH + x'))"
  using assms(2)
proof (induction k)
  case 0
  then show ?case by (simp add: drawing_refl)
next
  case (Suc k)
  let ?s = "fold (\<lambda>y. fold (\<lambda>x. scroll_cell x y) [0..<width st]) [1..<Suc k] st"
  have d: "drawing st ?s" and c: "x' < width st \<Longrightarrow> cells ?s (y' * MAX_WIDTH + x') = cells st ((if y' < k then Suc y' else y') * MAX_WIDTH + x')" for x' y'
    using Suc by (simp_all del: mult_Suc)
  note f = drawing_fields [OF d]
  have e: "[1..<Suc (Suc k)] = [1..<Suc k] @ [Suc k]" by simp
  have g: "geometry_ok ?s" "Suc k < height ?s" "width st \<le> width ?s" using f assms(1) Suc.prems by auto
  from scrolled_row [OF g] f show ?case unfolding e fold_append comp_def fold.simps id_apply
    using drawing_trans [OF d] c by (auto simp: less_Suc_eq simp del: mult_Suc)
qed

lemma blanked_row:
  assumes "geometry_ok st" and "y < height st" and "n \<le> width st"
  shows "drawing st (fold (\<lambda>x st. render_cell x y 32 (color st) st) [0..<n] st) \<and>
    (\<forall>x' y'. x' < width st \<longrightarrow> cells (fold (\<lambda>x st. render_cell x y 32 (color st) st) [0..<n] st) (y' * MAX_WIDTH + x') =
      (if y' = y \<and> x' < n then pack (color st) 32 else cells st (y' * MAX_WIDTH + x')))"
  using assms(3)
proof (induction n)
  case 0
  then show ?case by (simp add: drawing_refl)
next
  case (Suc n)
  let ?s = "fold (\<lambda>x st. render_cell x y 32 (color st) st) [0..<n] st"
  have d: "drawing st ?s" and c: "x' < width st \<Longrightarrow> cells ?s (y' * MAX_WIDTH + x') =
      (if y' = y \<and> x' < n then pack (color st) 32 else cells st (y' * MAX_WIDTH + x'))" for x' y' using Suc by simp_all
  note f = drawing_fields [OF d]
  have i: "x' < width st \<Longrightarrow> y' * MAX_WIDTH + x' = y * MAX_WIDTH + n \<longleftrightarrow> y' = y \<and> x' = n" for x' y'
    using Suc.prems assms(1) by (intro mul_add_inj) (auto simp: geometry_ok_def)
  have "cells (render_cell n y 32 (color ?s) ?s) (y' * MAX_WIDTH + x') =
      (if y' = y \<and> x' < Suc n then pack (color st) 32 else cells st (y' * MAX_WIDTH + x'))" if x: "x' < width st" for x' y'
    unfolding render_cell_simps fun_upd_apply using f Suc.prems assms(2) c [OF x, of y'] i [OF x, of y'] by (auto simp: less_Suc_eq)
  then show ?case using drawing_trans [OF d drawing_render] by simp
qed

section \<open>The console as a teletype\<close>

text \<open>The reference: a grid of cells that is 0 outside the screen, and the row and column.\<close>

type_synonym tty = "(nat \<Rightarrow> nat \<Rightarrow> u16) \<times> nat \<times> nat"

definition tty_store :: "nat \<Rightarrow> nat \<Rightarrow> nat \<Rightarrow> nat \<Rightarrow> u16 \<Rightarrow> (nat \<Rightarrow> nat \<Rightarrow> u16) \<Rightarrow> nat \<Rightarrow> nat \<Rightarrow> u16" where
  "tty_store w h x y v g = (\<lambda>x' y'. if x' = x \<and> y' = y \<and> x < w \<and> y < h then v else g x' y')"

definition tty_scroll :: "nat \<Rightarrow> nat \<Rightarrow> u8 \<Rightarrow> tty \<Rightarrow> tty" where
  "tty_scroll w h a = (\<lambda>(g, r, c). if r < h then (g, r, c)
     else (\<lambda>x y. if x < w \<and> Suc y < h then g x (Suc y) else if x < w \<and> Suc y = h then pack a 32 else 0, h - 1, c))"

definition tty_type :: "nat \<Rightarrow> nat \<Rightarrow> u8 \<Rightarrow> char \<Rightarrow> tty \<Rightarrow> tty" where
  "tty_type w h a ch = (\<lambda>(g, r, c).
     if ch = LF then (g, r + 1, 0)
     else if ch = BS then if c \<noteq> 0 then (tty_store w h (c - 1) r (pack a 32) g, r, c - 1) else (g, r, c)
     else let g' = tty_store w h c r (pack a (ord ch)) g in if c + 1 = w then (g', r + 1, 0) else (g', r, c + 1))"

definition screen :: "'w display \<Rightarrow> tty" where
  "screen st = (\<lambda>x y. display_cell x y st, row st, col st)"

lemma display_cell_update [simp]:
  "display_cell x y (st\<lparr>row := r\<rparr>) = display_cell x y st" "display_cell x y (st\<lparr>col := c\<rparr>) = display_cell x y st"
  "display_cell x y (st\<lparr>hw := w\<rparr>) = display_cell x y st"
  by (simp_all add: display_cell_def)

lemma screen_render:
  assumes "geometry_ok st"
  shows "screen (render_cell x y ch a st) = (tty_store (width st) (height st) x y (pack a ch) (fst (screen st)), row st, col st)"
proof -
  have "display_cell x' y' (render_cell x y ch a st) = tty_store (width st) (height st) x y (pack a ch) (\<lambda>x y. display_cell x y st) x' y'" for x' y'
  proof (cases "x < width st \<and> y < height st \<and> x' < width st")
    case True
    then have "y' * MAX_WIDTH + x' = y * MAX_WIDTH + x \<longleftrightarrow> y' = y \<and> x' = x"
      using assms by (intro mul_add_inj) (auto simp: geometry_ok_def)
    with True show ?thesis by (auto simp: display_cell_def tty_store_def)
  qed (auto simp: display_cell_def tty_store_def)
  then show ?thesis by (simp add: screen_def fun_eq_iff)
qed

lemma screen_cong:
  "width st' = width st \<Longrightarrow> height st' = height st \<Longrightarrow> cells st' = cells st \<Longrightarrow> row st' = row st \<Longrightarrow> col st' = col st \<Longrightarrow> screen st' = screen st"
  by (simp add: screen_def display_cell_def fun_eq_iff)

lemma screen_update [simp]:
  "screen (st\<lparr>row := r\<rparr>) = (fst (screen st), r, col st)" "screen (st\<lparr>col := c\<rparr>) = (fst (screen st), row st, c)"
  by (simp_all add: screen_def display_cell_def fun_eq_iff)

lemma fold_height:
  "fold (\<lambda>x st. render_cell x (f (height st)) 32 (color st) st) xs s = fold (\<lambda>x st. render_cell x (f (height s)) 32 (color st) st) xs s"
  by (induction xs arbitrary: s) simp_all

lemma scroll_correct:
  assumes "geometry_ok st" and "row st \<le> height st"
  shows "screen (scroll st) = tty_scroll (width st) (height st) (color st) (screen st) \<and>
    (\<exists>st'. drawing st st' \<and> scroll st = st'\<lparr>row := min (row st) (height st - 1)\<rparr>)"
proof (cases "row st < height st")
  case True
  have "st = st\<lparr>row := min (row st) (height st - 1)\<rparr>" using True by (simp add: min_def)
  then show ?thesis using True drawing_refl [of st] by (auto simp: scroll_def tty_scroll_def screen_def)
next
  case False
  have h: "0 < height st" "height st - 1 < height st" "Suc (height st - 1) = height st" "sub64 (height st) 1 = height st - 1"
    using assms(1) by (auto simp: geometry_ok_def MAX_HEIGHT_def sub64_le)
  define s1 where "s1 = fold (\<lambda>y. fold (\<lambda>x. scroll_cell x y) [0..<width st]) [1..<height st] st"
  have d1: "drawing st s1" and c1: "x' < width st \<Longrightarrow> cells s1 (y' * MAX_WIDTH + x') =
      cells st ((if y' < height st - 1 then Suc y' else y') * MAX_WIDTH + x')" for x' y'
    using scrolled_rows [OF assms(1) h(2)] unfolding h(3) s1_def [symmetric] by blast+
  note f1 = drawing_fields [OF d1]
  define s2 where "s2 = fold (\<lambda>x st. render_cell x (height s1 - 1) 32 (color st) st) [0..<width s1] s1"
  have g1: "geometry_ok s1" "height s1 - 1 < height s1" using f1 assms(1) h(2) by simp_all
  have d2: "drawing s1 s2" and c2: "x' < width s1 \<Longrightarrow> cells s2 (y' * MAX_WIDTH + x') =
      (if y' = height s1 - 1 \<and> x' < width s1 then pack (color s1) 32 else cells s1 (y' * MAX_WIDTH + x'))" for x' y'
    using blanked_row [OF g1 order_refl] unfolding s2_def by blast+
  have d: "drawing st s2" by (rule drawing_trans [OF d1 d2])
  have c: "col s2 = col st" using d cells_only_fields [of st s2] by (simp add: drawing_def)
  have s: "scroll st = s2\<lparr>row := height st - 1\<rparr>"
    unfolding scroll_def Let_def s1_def [symmetric] if_not_P [OF False] s2_def
    using fold_height [of "\<lambda>h. sub64 h 1" "[0..<width s1]" s1] f1 drawing_fields [OF d, unfolded s2_def] h(4) by simp
  have "display_cell x y s2 = fst (tty_scroll (width st) (height st) (color st) (screen st)) x y" for x y
    using c1 [of x y] c2 [of x y] f1 drawing_fields [OF d] False h(1)
    by (auto simp: display_cell_def tty_scroll_def screen_def simp del: mult_Suc)
  then have "screen (scroll st) = tty_scroll (width st) (height st) (color st) (screen st)"
    unfolding s screen_update using False c by (simp add: screen_def tty_scroll_def fun_eq_iff)
  moreover have "min (row st) (height st - 1) = height st - 1" using False by simp
  ultimately show ?thesis using d s by metis
qed

text \<open>Clearing covers the whole screen.\<close>

lemma clear_covers:
  assumes "geometry_ok st" and "shows_cells R st" and "\<forall>(x, y)\<in>set ps. x < width st \<and> y < height st"
  shows "shows_cells (\<lambda>x y. R x y \<or> (x, y) \<in> set ps) (fold (\<lambda>(x, y) st. render_cell x y 32 (color st) st) ps st)"
  using assms
proof (induction ps arbitrary: st R)
  case (Cons p ps)
  obtain x y where p: "p = (x, y)" by (cases p)
  let ?s = "render_cell x y 32 (color st) st"
  have "geometry_ok ?s" using Cons.prems(1) by (simp add: geometry_ok_def)
  moreover have "shows_cells (\<lambda>x' y'. R x' y' \<or> x' = x \<and> y' = y) ?s"
    using Cons.prems p by (intro shows_cells_render_more) auto
  moreover have "\<forall>(x, y)\<in>set ps. x < width ?s \<and> y < height ?s" using Cons.prems(3) by simp
  ultimately have "shows_cells (\<lambda>x' y'. (R x' y' \<or> x' = x \<and> y' = y) \<or> (x', y') \<in> set ps)
      (fold (\<lambda>(x, y) st. render_cell x y 32 (color st) st) ps ?s)" by (rule Cons.IH)
  then show ?case unfolding p by (simp add: disj_ac)
qed simp

lemma fold_nested: "fold (\<lambda>y. fold (\<lambda>x. f x y) xs) ys s = fold (\<lambda>(x, y). f x y) (concat (map (\<lambda>y. map (\<lambda>x. (x, y)) xs) ys)) s"
  by (induction ys arbitrary: s) (simp_all add: fold_map comp_def)

lemma clear_solid:
  assumes "geometry_ok st"
  shows "solid (fold (\<lambda>y. fold (\<lambda>x st. render_cell x y 32 (color st) st) [0..<width st]) [0..<height st] st) \<and>
    cells_only st (fold (\<lambda>y. fold (\<lambda>x st. render_cell x y 32 (color st) st) [0..<width st]) [0..<height st] st)"
proof -
  let ?ps = "concat (map (\<lambda>y. map (\<lambda>x. (x, y)) [0..<width st]) [0..<height st])"
  let ?s = "fold (\<lambda>(x, y) st. render_cell x y 32 (color st) st) ?ps st"
  have co: "cells_only st ?s" by (rule cells_only_fold) (simp add: cells_only_render split: prod.split)
  have "shows_cells (\<lambda>_ _. False) st" by (simp add: shows_cells_def)
  then have "shows_cells (\<lambda>x y. False \<or> (x, y) \<in> set ?ps) ?s" by (rule clear_covers [OF assms]) auto
  then have "solid ?s" by (rule shows_cells_mono) (use cells_only_fields [OF co] in \<open>auto simp: image_iff\<close>)
  with co show ?thesis unfolding fold_nested by blast
qed

section \<open>Invariant\<close>

definition console_ok :: "'w display \<Rightarrow> bool" where
  "console_ok st \<longleftrightarrow> geometry_ok st \<and> row st < height st \<and> col st < width st \<and> mirrored st"

lemma mirrored_cong:
  assumes "framebuffer st' = framebuffer st" and "fb_pitch st' = fb_pitch st" and "dmem st' = dmem st"
    and "width st' = width st" and "height st' = height st" and "cells st' = cells st"
    and "cursor_x st' = cursor_x st" and "cursor_y st' = cursor_y st" and "cursor_drawn st' = cursor_drawn st"
  shows "mirrored st' \<longleftrightarrow> mirrored st"
  by (simp add: mirrored_def cursor_at_def assms shows_cells_cong [OF assms(1-6)])

lemma console_ok_hw_only: "hw_only st st' \<Longrightarrow> console_ok st' \<longleftrightarrow> console_ok st"
  using hw_only_fields [of st st'] mirrored_cong [of st' st] geometry_ok_cong [of st' st] by (simp add: console_ok_def)

lemma show_char_simps [simp]:
  "width (show_char io c st) = width st" "height (show_char io c st) = height st" "color (show_char io c st) = color st"
  "output_sink (show_char io c st) = output_sink st" "framebuffer (show_char io c st) = framebuffer st"
  "fb_pitch (show_char io c st) = fb_pitch st"
  by (simp_all add: show_char_def Let_def)

lemma show_char_ok:
  assumes "geometry_ok st" and "row st < height st" and "col st < width st" and "solid st"
  shows "row (show_char io c st) \<le> height st \<and> col (show_char io c st) < width st \<and> solid (show_char io c st) \<and>
    screen (show_char io c st) = tty_type (width st) (height st) (color st) c (screen st)"
proof -
  consider (lf) "c = LF" | (bs) "c = BS" "col st \<noteq> 0" | (none) "c = BS" "col st = 0" | (char) "c \<noteq> LF" "c \<noteq> BS" by blast
  then show ?thesis
  proof cases
    case lf
    let ?s = "st\<lparr>col := 0, row := row st + 1\<rparr>"
    have "shows_cells R (show_char io c st) = shows_cells R st" for R
      by (rule shows_cells_cong) (simp_all add: show_char_def lf)
    moreover have "screen (show_char io c st) = screen ?s" by (rule screen_cong) (simp_all add: show_char_def lf)
    ultimately show ?thesis using assms lf by (simp add: show_char_def tty_type_def screen_def)
  next
    case bs
    let ?s = "st\<lparr>col := col st - 1\<rparr>"
    have g: "geometry_ok ?s" using assms by (simp add: geometry_ok_def)
    have "shows_cells R ?s = shows_cells R st" for R by (rule shows_cells_cong) simp_all
    then have "solid (render_cell (col st - 1) (row st) 32 (color st) ?s)" using shows_cells_render [OF g] assms by simp
    moreover have "shows_cells R (show_char io c st) = shows_cells R (render_cell (col st - 1) (row st) 32 (color st) ?s)" for R
      by (rule shows_cells_cong) (simp_all add: show_char_def bs)
    moreover have "screen (show_char io c st) = screen (render_cell (col st - 1) (row st) 32 (color st) ?s)"
      by (rule screen_cong) (simp_all add: show_char_def bs)
    ultimately show ?thesis using assms bs screen_render [OF g]
      by (auto simp: show_char_def tty_type_def screen_def)
  next
    case none
    then show ?thesis using assms by (simp add: show_char_def tty_type_def screen_def)
  next
    case char
    let ?r = "render_cell (col st) (row st) (ord c) (color st) st"
    have "shows_cells R (show_char io c st) = shows_cells R ?r" for R
      by (rule shows_cells_cong) (simp_all add: show_char_def char Let_def)
    then have "solid (show_char io c st)" using shows_cells_render [OF assms(1,4)] by simp
    moreover have "fst (screen (show_char io c st)) = fst (screen ?r)"
      using char by (simp add: show_char_def Let_def screen_def display_cell_def fun_eq_iff)
    ultimately show ?thesis using assms char screen_render [OF assms(1), of "col st" "row st"]
      by (auto simp: show_char_def tty_type_def screen_def Let_def)
  qed
qed

lemma solid_cong_row: "shows_cells R (st\<lparr>row := r\<rparr>) = shows_cells R st"
  "shows_cells R (st\<lparr>cursor_x := a, cursor_y := b\<rparr>) = shows_cells R st"
  by (rule shows_cells_cong; simp)+

lemma settle_ok:
  assumes "geometry_ok st" and "row st < height st" and "col st < width st" and "solid st"
  shows "console_ok (settle io st) \<and> screen (settle io st) = screen st \<and> width (settle io st) = width st \<and>
    height (settle io st) = height st \<and> color (settle io st) = color st \<and> output_sink (settle io st) = output_sink st"
proof -
  let ?s = "st\<lparr>cursor_x := col st, cursor_y := row st\<rparr>"
  have g: "geometry_ok ?s" using assms(1) by (simp add: geometry_ok_def)
  have "mirrored (cursor_draw ?s)" using assms(4) by (intro mirrored_draw [OF g]) (simp add: solid_cong_row)
  then have "console_ok (cursor_draw ?s)"
    using assms geometry_ok_cong [of "cursor_draw ?s" ?s] g by (simp add: console_ok_def)
  then have "console_ok (settle io st)" unfolding settle_def by (simp add: console_ok_hw_only [OF hw_only_cursor_vga])
  moreover have "screen (settle io st) = screen st" by (rule screen_cong) (simp_all add: settle_def)
  ultimately show ?thesis by (simp add: settle_def)
qed

definition tty_char :: "nat \<Rightarrow> nat \<Rightarrow> u8 \<Rightarrow> char \<Rightarrow> tty \<Rightarrow> tty" where
  "tty_char w h a ch t = tty_scroll w h a (tty_type w h a ch t)"

lemma display_putc_screen:
  assumes "console_ok st" and "output_sink st = None"
  shows "console_ok (display_putc io c st) \<and> output_sink (display_putc io c st) = None \<and>
    width (display_putc io c st) = width st \<and> height (display_putc io c st) = height st \<and> color (display_putc io c st) = color st \<and>
    screen (display_putc io c st) = tty_char (width st) (height st) (color st) c (screen st)"
proof -
  let ?r = "(cursor_restore st)\<lparr>characters := characters (cursor_restore st) + 1\<rparr>"
  let ?c = "show_char io c ?r"
  have g: "geometry_ok ?r" "row ?r < height ?r" "col ?r < width ?r" using assms(1) by (simp_all add: console_ok_def geometry_ok_def)
  have "solid ?r = solid (cursor_restore st)" by (rule shows_cells_cong) simp_all
  then have s: "solid ?r" using assms(1) solid_restore [of st] by (simp add: console_ok_def)
  note ch = show_char_ok [OF g s, of io c]
  have gc: "geometry_ok ?c" "row ?c \<le> height ?c" using g(1) geometry_ok_cong [of ?c ?r] ch by simp_all
  obtain t where t: "drawing ?c t" "scroll ?c = t\<lparr>row := min (row ?c) (height ?c - 1)\<rparr>" and
    sc: "screen (scroll ?c) = tty_scroll (width ?c) (height ?c) (color ?c) (screen ?c)"
    using scroll_correct [OF gc] by blast
  note f = drawing_fields [OF t(1)] cells_only_fields [of ?c t]
  have gr: "geometry_ok (t\<lparr>row := r\<rparr>) = geometry_ok t" for r by (rule geometry_ok_cong) simp_all
  have k: "geometry_ok (scroll ?c)" "row (scroll ?c) < height (scroll ?c)" "col (scroll ?c) < width (scroll ?c)" "solid (scroll ?c)"
    "output_sink (scroll ?c) = None" "width (scroll ?c) = width st" "height (scroll ?c) = height st" "color (scroll ?c) = color st"
    unfolding t(2) using f t(1) gc ch assms(2) gr g(2)
    by (simp_all add: drawing_def solid_cong_row min_def) linarith
  have "screen ?r = screen st" by (rule screen_cong) simp_all
  then have "screen (scroll ?c) = tty_char (width st) (height st) (color st) c (screen st)"
    unfolding sc using ch by (simp add: tty_char_def)
  moreover have "display_putc io c st = settle io (scroll ?c)" using assms(2) by (simp add: display_putc_def Let_def)
  ultimately show ?thesis using settle_ok [OF k(1-4), of io] k(5-8) by simp
qed

lemma console_ok_cong:
  assumes "framebuffer st' = framebuffer st" and "fb_pitch st' = fb_pitch st" and "dmem st' = dmem st"
    and "width st' = width st" and "height st' = height st" and "cells st' = cells st"
    and "cursor_x st' = cursor_x st" and "cursor_y st' = cursor_y st" and "cursor_drawn st' = cursor_drawn st"
    and "row st' = row st" and "col st' = col st"
  shows "console_ok st' \<longleftrightarrow> console_ok st"
  by (simp add: console_ok_def assms mirrored_cong [OF assms(1-9)] geometry_ok_cong [OF assms(4,5,1,2)])

lemma display_putc_ok: "console_ok st \<Longrightarrow> console_ok (display_putc io c st)"
proof (cases "output_sink st")
  case (Some f)
  assume "console_ok st"
  moreover have "console_ok (to_sink io f c st) = console_ok st"
    by (rule console_ok_cong) (simp_all add: to_sink_def Let_def)
  ultimately show ?thesis using Some by (simp add: display_putc_def)
qed (simp add: display_putc_screen)

lemma display_clear_ok:
  assumes "geometry_ok st"
  shows "console_ok (display_clear io st)"
proof -
  let ?s = "fold (\<lambda>y. fold (\<lambda>x st. render_cell x y 32 (color st) st) [0..<width st]) [0..<height st] st"
  note c = clear_solid [OF assms]
  note f = cells_only_fields [OF conjunct2 [OF c]]
  have "solid (?s\<lparr>row := 0, col := 0\<rparr>) = solid ?s" by (rule shows_cells_cong) simp_all
  then have "mirrored (?s\<lparr>row := 0, col := 0\<rparr>)" using c by (simp add: solid_mirrored)
  then have "console_ok (?s\<lparr>row := 0, col := 0\<rparr>)"
    using f assms geometry_ok_cong [of "?s\<lparr>row := 0, col := 0\<rparr>" st] by (simp add: console_ok_def) (simp add: geometry_ok_def)
  then show ?thesis unfolding display_clear_def Let_def
    by (simp add: console_ok_hw_only [OF hw_only_serial_raw] console_ok_hw_only [OF hw_only_cursor_vga])
qed

lemma display_color_ok: "console_ok st \<Longrightarrow> console_ok (display_color io c st)"
  by (subst console_ok_cong [of _ st]) (simp_all add: display_color_def apply_color_def Let_def)

text \<open>Moving the cursor: restore, move, draw.\<close>

lemma moved_ok:
  assumes "console_ok st" and "y < height st" and "x < width st"
  shows "console_ok (cursor_draw ((cursor_restore st)\<lparr>row := y, col := x, cursor_x := x, cursor_y := y, cursor_visible := v,
    cursor_full_block := f, cursor_blink_ns := t\<rparr>))"
proof -
  let ?s = "(cursor_restore st)\<lparr>row := y, col := x, cursor_x := x, cursor_y := y, cursor_visible := v, cursor_full_block := f, cursor_blink_ns := t\<rparr>"
  have g: "geometry_ok st" "mirrored st" using assms(1) by (simp_all add: console_ok_def)
  have "solid ?s = solid (cursor_restore st)" by (rule shows_cells_cong) simp_all
  then have s: "solid ?s" using solid_restore [OF g] by simp
  have "geometry_ok ?s" using geometry_ok_cong [of ?s st] g(1) by simp
  from mirrored_draw [OF this s] show ?thesis
    using assms geometry_ok_cong [of "cursor_draw ?s" st] g(1) by (simp add: console_ok_def)
qed

lemma restore_ok: "console_ok st \<Longrightarrow> console_ok (cursor_restore st)"
  using solid_restore [of st] solid_mirrored [of "cursor_restore st"] geometry_ok_cong [of "cursor_restore st" st]
  by (simp add: console_ok_def)

lemma draw_ok: "console_ok st \<Longrightarrow> \<not> cursor_drawn st \<Longrightarrow> console_ok (cursor_draw st)"
  using mirrored_draw [of st] mirrored_solid [of st] geometry_ok_cong [of "cursor_draw st" st]
  by (simp add: console_ok_def)

lemma move_cursor_ok:
  assumes "console_ok st" and "p < width st * height st"
  shows "console_ok (move_cursor io p code st)"
proof -
  have w: "0 < width st" using assms(1) by (simp add: console_ok_def geometry_ok_def)
  then have "p div width st < height st" "p mod width st < width st" using assms(2)
    by (simp_all add: less_mult_imp_div_less mult.commute)
  from moved_ok [OF assms(1) this, where v = "cursor_visible (cursor_restore st)" and
      f = "cursor_full_block (cursor_restore st)" and t = "cursor_blink_ns (cursor_restore st)"]
  have "console_ok (cursor_draw ((cursor_restore st)\<lparr>row := p div width st, col := p mod width st,
      cursor_x := p mod width st, cursor_y := p div width st\<rparr>))"
    by (simp del: cursor_simps)
  then show ?thesis unfolding move_cursor_def Let_def
    by (simp add: console_ok_hw_only [OF hw_only_serial_raw] console_ok_hw_only [OF hw_only_cursor_vga])
qed

lemma cell_number_less: "r < h \<Longrightarrow> c < w \<Longrightarrow> r * w + c < w * h" for r c w h :: nat
proof -
  assume "r < h" "c < w"
  then have "r * w + c < Suc r * w" and "Suc r * w \<le> h * w" by (simp, intro mult_le_mono1, simp)
  then show ?thesis by (simp add: mult.commute)
qed

lemma display_cursor_left_ok: "console_ok st \<Longrightarrow> console_ok (display_cursor_left io st)"
  using cell_number_less [of "row st" "height st" "col st" "width st"]
  by (auto simp: display_cursor_left_def Let_def console_ok_def [of st] intro!: move_cursor_ok)

lemma display_cursor_right_ok: "console_ok st \<Longrightarrow> console_ok (display_cursor_right io st)"
  by (auto simp: display_cursor_right_def Let_def intro!: move_cursor_ok)

lemma display_set_cell_ok:
  assumes "console_ok st"
  shows "console_ok (display_set_cell io x y ch a st)"
proof -
  let ?r = "render_cell x y ch a st"
  have "shows_cells (\<lambda>x y. \<not> cursor_at st x y) ?r"
    using assms by (intro shows_cells_render) (simp_all add: console_ok_def mirrored_def)
  then have "mirrored ?r" by (simp add: mirrored_def cursor_at_def)
  then have "console_ok ?r" using assms geometry_ok_cong [of ?r st] by (simp add: console_ok_def)
  then show ?thesis using assms by (simp add: display_set_cell_def Let_def console_ok_hw_only [OF hw_only_mirror_cell])
qed

lemma display_cursor_set_ok:
  assumes "console_ok st"
  shows "console_ok (display_cursor_set io x y visible full st)"
proof -
  have g: "0 < width st" "width st \<le> MAX_WIDTH" "0 < height st" "height st \<le> MAX_HEIGHT"
    using assms by (simp_all add: console_ok_def geometry_ok_def)
  define x' where "x' = (if x \<ge> width st then sub64 (width st) 1 else x)"
  define y' where "y' = (if y \<ge> height st then sub64 (height st) 1 else y)"
  have b: "y' < height st" "x' < width st" using g by (auto simp: x'_def y'_def display_consts sub64_le)
  let ?s = "(cursor_restore st)\<lparr>row := y', col := x', cursor_x := x', cursor_y := y', cursor_visible := visible, cursor_full_block := full, cursor_blink_ns := 0\<rparr>"
  have "console_ok (cursor_draw ?s)" by (rule moved_ok [OF assms b])
  moreover have "framebuffer st = 0 \<Longrightarrow> cursor_draw ?s = ?s" by (simp add: cursor_draw_def)
  moreover have "console_ok (?s\<lparr>hw := w\<rparr>) = console_ok ?s" for w by (rule console_ok_cong) simp_all
  ultimately show ?thesis
    unfolding display_cursor_set_def Let_def x'_def [symmetric] y'_def [symmetric]
    by (cases "framebuffer st = 0")
      (simp_all add: console_ok_hw_only [OF hw_only_serial_raw] console_ok_hw_only [OF hw_only_cursor_vga])
qed

lemma tick_ok: "console_ok st \<Longrightarrow> console_ok (display_cursor_tick now st)"
proof -
  assume ok: "console_ok st"
  have "console_ok (s\<lparr>cursor_blink_ns := t\<rparr>) = console_ok s" for s :: "'a display" and t
    by (rule console_ok_cong) simp_all
  with ok show ?thesis by (simp add: display_cursor_tick_def restore_ok draw_ok)
qed

lemma activity_ok: "console_ok st \<Longrightarrow> console_ok (display_cursor_activity now st)"
proof -
  assume ok: "console_ok st"
  have b: "console_ok (s\<lparr>cursor_blink_ns := t\<rparr>) = console_ok s" for s :: "'a display" and t
    by (rule console_ok_cong) simp_all
  have "console_ok (cursor_draw (cursor_restore st))"
    using solid_restore [of st] mirrored_draw [of "cursor_restore st"] ok
      geometry_ok_cong [of "cursor_restore st" st] geometry_ok_cong [of "cursor_draw (cursor_restore st)" st]
    by (simp add: console_ok_def)
  with ok show ?thesis by (simp add: display_cursor_activity_def b draw_ok)
qed

lemma vbe_mode_range:
  assumes "bochs_vbe_set_mode io wd ht 32 w = (True, w')"
  shows "640 \<le> wd \<and> 400 \<le> ht"
  using assms by (auto simp: bochs_vbe_set_mode_def split: prod.splits if_splits)

lemma display_set_mode_ok:
  assumes "console_ok st"
  shows "console_ok (snd (display_set_mode io nw nh st))"
proof -
  obtain ok w where b: "bochs_vbe_set_mode io (ucast nw) (ucast nh) 32 (hw st) = (ok, w)" by (cases "bochs_vbe_set_mode io (ucast nw) (ucast nh) 32 (hw st)")
  have h: "console_ok (st\<lparr>hw := w\<rparr>) = console_ok st" by (rule console_ok_cong) simp_all
  show ?thesis
  proof (cases "framebuffer st = 0 \<or> nw > 1920 \<or> nh > 1200 \<or> \<not> ok")
    case True
    then show ?thesis using assms h b by (auto simp: display_set_mode_def)
  next
    case False
    then have le: "unat nw \<le> 1920" "unat nh \<le> 1200" by (simp_all add: word_le_nat_alt linorder_not_less [symmetric] word_less_nat_alt)
    then have u: "unat (ucast nw :: u16) = unat nw" "unat (ucast nh :: u16) = unat nh"
      by (simp_all add: unsigned_ucast_eq unsigned_take_bit_eq take_bit_nat_eq_self)
    have "640 \<le> (ucast nw :: u16)" "400 \<le> (ucast nh :: u16)" using vbe_mode_range [of io "ucast nw" "ucast nh" "hw st" w] b False by simp_all
    then have ge: "640 \<le> unat nw" "400 \<le> unat nh" by (simp_all add: word_le_nat_alt u)
    have p: "unat (nw * 4) = unat nw * 4" using le by (simp add: unat_mult_lem [THEN iffD1])
    let ?s = "(cursor_restore (st\<lparr>hw := w\<rparr>))\<lparr>fb_width := nw, fb_height := nh, fb_pitch := nw * 4,
       width := min (unat nw div CELL_WIDTH) MAX_WIDTH, height := min (unat nh div CELL_HEIGHT) MAX_HEIGHT,
       row := 0, col := 0, cursor_x := 0, cursor_y := 0, cursor_drawn := False\<rparr>"
    have "geometry_ok (?s\<lparr>dmem := fill_mode ?s (dmem ?s)\<rparr>)"
      using False le ge p by (auto simp: geometry_ok_def display_consts)
    from display_clear_ok [OF this] show ?thesis using False b by (simp add: display_set_mode_def Let_def)
  qed
qed

section \<open>Every run of the console\<close>

text \<open>The operations the rest of the kernel calls on the text console.\<close>

inductive console_step :: "'w ports \<Rightarrow> 'w display \<Rightarrow> 'w display \<Rightarrow> bool" for io where
  putc: "console_step io st (display_putc io c st)"
| clear: "console_step io st (display_clear io st)"
| color: "console_step io st (display_color io c st)"
| left: "console_step io st (display_cursor_left io st)"
| right: "console_step io st (display_cursor_right io st)"
| set_cell: "console_step io st (display_set_cell io x y ch a st)"
| cursor_set: "console_step io st (display_cursor_set io x y visible full st)"
| tick: "console_step io st (display_cursor_tick now st)"
| activity: "console_step io st (display_cursor_activity now st)"
| serial_cells: "console_step io st (display_serial_cells on st)"
| serial_clear: "console_step io st (display_serial_clear io st)"
| sink: "console_step io st (display_output_sink f st)"
| set_mode: "console_step io st (snd (display_set_mode io nw nh st))"

lemma console_step_ok:
  assumes "console_step io st st'" and "console_ok st"
  shows "console_ok st'"
  using assms
proof (induction rule: console_step.induct)
  case (clear st)
  then show ?case by (simp add: display_clear_ok console_ok_def [of st])
next
  case (serial_cells st on)
  then show ?case using console_ok_cong [of "display_serial_cells on st" st] by (simp add: display_serial_cells_def)
next
  case (sink st f)
  then show ?case using console_ok_cong [of "display_output_sink f st" st] by (simp add: display_output_sink_def)
next
  case (serial_clear st)
  then show ?case by (simp add: display_serial_clear_def console_ok_hw_only [OF hw_only_serial_raw])
qed (simp_all add: display_putc_ok display_color_ok display_cursor_left_ok display_cursor_right_ok display_set_cell_ok
    display_cursor_set_ok tick_ok activity_ok display_set_mode_ok)

lemma console_steps_ok: "(console_step io)\<^sup>*\<^sup>* st st' \<Longrightarrow> console_ok st \<Longrightarrow> console_ok st'"
  by (induction rule: rtranclp_induct) (auto intro: console_step_ok)

text \<open>What \<open>framebuffer_info\<close> may find.\<close>

lemma fb_scan_result:
  assumes "fb_scan p tot off st = Some st'"
  shows "st' = st \<or> (\<exists>q. fb_accept q st \<and> st' = fb_take q st)"
proof (rule fb_scan.raw_induct [OF _ assms, where P = "\<lambda>p tot off st st'. st' = st \<or> (\<exists>q. fb_accept q st \<and> st' = fb_take q st)"])
  fix f :: "nat \<Rightarrow> u32 \<Rightarrow> u32 \<Rightarrow> 'a display \<Rightarrow> 'a display option" and p tot off and st y :: "'a display"
  assume ih: "\<And>p tot off st y. f p tot off st = Some y \<Longrightarrow> y = st \<or> (\<exists>q. fb_accept q st \<and> y = fb_take q st)"
    and b: "(if off + 8 \<le> tot
       then let size = ld32 (dmem st) (p + unat off + 4)
            in if size < 8 then Some st
               else if ld32 (dmem st) (p + unat off) = 8 \<and> 38 \<le> size \<and> fb_accept (p + unat off) st
                    then Some (fb_take (p + unat off) st) else f p tot (off + pad8 size) st
       else Some st) = Some y"
  then show "y = st \<or> (\<exists>q. fb_accept q st \<and> y = fb_take q st)"
    by (auto simp: Let_def split: if_splits)
qed

lemma fb_take_geometry:
  assumes "fb_accept q st" and "framebuffer (fb_take q st) \<noteq> 0"
    and "4 * unat (fb_width (fb_take q st)) \<le> unat (fb_pitch (fb_take q st))"
  shows "geometry_ok (fb_take q st)"
proof -
  let ?w = "unat (ld32 (dmem st) (q + 20))" and ?h = "unat (ld32 (dmem st) (q + 24))"
  have "640 \<le> ?w" "400 \<le> ?h" using assms(1) by (simp_all add: fb_accept_def word_le_nat_alt)
  then have "0 < ?w div 9" "0 < ?h div 17" by (simp_all add: div_greater_zero_iff)
  moreover have "min (?w div 9) 216 * 9 \<le> ?w" by (rule order_trans [of _ "?w div 9 * 9"]) (intro mult_le_mono1, simp_all)
  then have "4 * (min (?w div 9) 216 * 9) \<le> unat (fb_pitch (fb_take q st))"
    using assms(3) by (simp add: fb_take_def Let_def)
  ultimately show ?thesis using assms(2) by (simp add: geometry_ok_def fb_take_def Let_def display_consts min_def)
qed

lemma vga_load_font_simps:
  "width (vga_load_font io st) = width st" "height (vga_load_font io st) = height st"
  "framebuffer (vga_load_font io st) = framebuffer st" "fb_pitch (vga_load_font io st) = fb_pitch st"
  "fb_width (vga_load_font io st) = fb_width st"
  by (simp_all add: vga_load_font_def vga_register_def Let_def)

lemma display_clear_fb [simp]:
  "framebuffer (display_clear io st) = framebuffer st" "fb_pitch (display_clear io st) = fb_pitch st"
  "fb_width (display_clear io st) = fb_width st" "width (display_clear io st) = width st" "height (display_clear io st) = height st"
  "color (display_clear io st) = color st" "output_sink (display_clear io st) = output_sink st"
proof -
  let ?s = "fold (\<lambda>y. fold (\<lambda>x st. render_cell x y 32 (color st) st) [0..<width st]) [0..<height st] st"
  have "cells_only st ?s" by (intro cells_only_fold cells_only_render)
  from cells_only_fields [OF this] show "framebuffer (display_clear io st) = framebuffer st" "fb_pitch (display_clear io st) = fb_pitch st"
    "fb_width (display_clear io st) = fb_width st" "width (display_clear io st) = width st" "height (display_clear io st) = height st"
    "color (display_clear io st) = color st" "output_sink (display_clear io st) = output_sink st"
    by (simp_all add: display_clear_def Let_def)
qed

lemma display_init_ok:
  assumes "display_init io e address st = Some st'" and "width st = VGA_WIDTH" and "height st = VGA_HEIGHT"
    and "fb_width st' \<noteq> 0 \<longrightarrow> framebuffer st' \<noteq> 0 \<and> 4 * unat (fb_width st') \<le> unat (fb_pitch st')"
  shows "console_ok st'"
proof -
  let ?s = "st\<lparr>serial_present := False, initialized := False, characters := 0, output_sink := None, cursor_x := 0, cursor_y := 0,
            cursor_blink_ns := 0, cursor_visible := False, cursor_full_block := False, cursor_drawn := False, framebuffer := 0\<rparr>"
  obtain t where t: "framebuffer_info address ?s = Some t" using assms(1) by (auto simp: display_init_def)
  define u where "u = (if framebuffer t = 0 then vga_load_font io t else t)"
  obtain b w where b: "uart_init io (hw u) = (b, w)" by (cases "uart_init io (hw u)")
  let ?c = "display_clear io (u\<lparr>hw := w, serial_present := b\<rparr>)"
  have s: "st' = ?c\<lparr>initialized := True, hw := e (hw ?c)\<rparr>"
    using assms(1) t b by (simp add: display_init_def Let_def u_def split: prod.splits)
  have k: "framebuffer st' = framebuffer t" "fb_width st' = fb_width t" "fb_pitch st' = fb_pitch t"
    unfolding s by (simp_all add: u_def vga_load_font_simps)
  have "geometry_ok t"
  proof (cases "t = ?s")
    case True
    then show ?thesis using assms(2,3) by (simp add: geometry_ok_def display_consts)
  next
    case False
    then obtain q where q: "fb_accept q ?s" "t = fb_take q ?s"
      using t fb_scan_result [of address "ld32 (dmem ?s) address" 8 ?s t] by (auto simp: framebuffer_info_def split: if_splits)
    have "fb_width t \<noteq> 0" using q(1) unfolding q(2) fb_accept_def fb_take_def Let_def by (auto simp: word_le_nat_alt)
    then show ?thesis unfolding q(2) using assms(4) k q by (intro fb_take_geometry) simp_all
  qed
  then have "geometry_ok (u\<lparr>hw := w, serial_present := b\<rparr>)"
    by (subst geometry_ok_cong [of _ t]) (simp_all add: u_def vga_load_font_simps)
  then have "console_ok ?c" by (rule display_clear_ok)
  then show ?thesis unfolding s by (subst console_ok_cong [of _ ?c]) simp_all
qed

section \<open>Properties\<close>

text \<open>The static values before \<open>display_init\<close>, and a machine whose ports do nothing.\<close>

definition display_statics :: "'w \<Rightarrow> memory \<Rightarrow> 'w display" where
  "display_statics w m = \<lparr>hw = w, dmem = m, row = 0, col = 0, width = VGA_WIDTH, height = VGA_HEIGHT, color = 7, fg = 7,
     bold = False, serial_present = False, serial_cells_enabled = True, initialized = False, characters = 0, cells = (\<lambda>_. 0),
     framebuffer = 0, fb_pitch = 0, fb_width = 0, fb_height = 0, cursor_x = 0, cursor_y = 0, cursor_blink_ns = 0,
     cursor_visible = False, cursor_full_block = False, cursor_drawn = False, output_sink = None\<rparr>"

definition no_ports :: "unit ports" where
  "no_ports = \<lparr>inb = (\<lambda>_ w. (0xFF, w)), outb = (\<lambda>_ _ w. w), inw = (\<lambda>_ w. (0xFFFF, w)), outw = (\<lambda>_ _ w. w)\<rparr>"

lemma demo_init:
  "\<exists>st. display_init no_ports id 0 (display_statics () (\<lambda>_. 0)) = Some st \<and> fb_width st = 0 \<and> width st = 80 \<and> height st = 25 \<and>
     color st = 7 \<and> output_sink st = None \<and> console_ok st"
proof -
  obtain st where st: "display_init no_ports id 0 (display_statics () (\<lambda>_. 0)) = Some st"
    by (simp add: display_init_def framebuffer_info_def)
  then have f: "fb_width st = 0" "width st = 80" "height st = 25" "color st = 7" "output_sink st = None"
    by (auto simp: display_init_def framebuffer_info_def Let_def display_statics_def vga_load_font_def vga_register_def display_consts
        split: prod.splits)
  have "console_ok st" by (rule display_init_ok [OF st]) (simp_all add: display_statics_def f(1))
  with st f show ?thesis by blast
qed

text \<open>C17: After \<open>display_init\<close> and any sequence of console operations, mode switches included, the cursor is inside
  the screen, and the screen memory - VGA text memory or framebuffer pixels - shows every character
  cell the console has recorded, except possibly the one under the drawn cursor. The hypothesis on the
  framebuffer is that one found in the boot information is not at address 0 and that its lines are
  as long as its width.\<close>

theorem console_mirrors_cells:
  assumes "display_init io e address (display_statics w m) = Some st0"
    and "fb_width st0 \<noteq> 0 \<longrightarrow> framebuffer st0 \<noteq> 0 \<and> 4 * unat (fb_width st0) \<le> unat (fb_pitch st0)"
    and "(console_step io)\<^sup>*\<^sup>* st0 st"
  shows "row st < height st \<and> col st < width st \<and> width st \<le> MAX_WIDTH \<and> height st \<le> MAX_HEIGHT \<and>
    (\<forall>x<width st. \<forall>y<height st. cursor_at st x y \<or> painted st x y (display_cell x y st))"
proof -
  have "console_ok st0" by (rule display_init_ok [OF assms(1) _ _ assms(2)]) (simp_all add: display_statics_def)
  then have "console_ok st" using assms(3) by (rule console_steps_ok [rotated])
  then show ?thesis by (auto simp: console_ok_def geometry_ok_def mirrored_def shows_cells_def display_cell_def)
qed

theorem console_mirrors_cells_witness:
  "\<exists>st. display_init no_ports id 0 (display_statics () (\<lambda>_. 0)) = Some st \<and>
     row (display_putc no_ports (CHR ''A'') st) < height (display_putc no_ports (CHR ''A'') st)"
proof -
  obtain st where st: "display_init no_ports id 0 (display_statics () (\<lambda>_. 0)) = Some st" "fb_width st = 0"
    using demo_init by blast
  have "(console_step no_ports)\<^sup>*\<^sup>* st (display_putc no_ports (CHR ''A'') st)" by (rule r_into_rtranclp) (rule console_step.putc)
  from console_mirrors_cells [OF st(1) _ this] st show ?thesis by auto
qed

text \<open>C19: On a console in that state without an output sink, printing a string leaves exactly the
  screen of a teletype: characters in the next cell, backspace that erases, line feeds at the last column and
  on newline, and one line scrolled when the last is passed - for every screen size, in text and in
  framebuffer mode.\<close>

theorem display_puts_tty:
  assumes "console_ok st" and "output_sink st = None"
  shows "screen (display_puts io s st) = fold (tty_char (width st) (height st) (color st)) s (screen st) \<and>
    console_ok (display_puts io s st)"
  using assms
proof (induction s arbitrary: st)
  case (Cons c s)
  note p = display_putc_screen [OF Cons.prems, of io c]
  from Cons.IH [of "display_putc io c st"] p show ?case by (simp add: display_puts_def)
qed (simp add: display_puts_def)

theorem display_puts_tty_witness:
  "\<exists>st. display_init no_ports id 0 (display_statics () (\<lambda>_. 0)) = Some st \<and>
     screen (display_puts no_ports ''ok'' st) = fold (tty_char 80 25 7) ''ok'' (screen st)"
proof -
  obtain st where st: "display_init no_ports id 0 (display_statics () (\<lambda>_. 0)) = Some st" "width st = 80" "height st = 25"
    "color st = 7" "output_sink st = None" "console_ok st" using demo_init by blast
  from display_puts_tty [OF st(6,5), of no_ports "''ok''"] st show ?thesis by auto
qed

end
