(* ===== verification/Ansi.thy ===== *)
theory Ansi
  imports Display
begin

text \<open>
  The kernel's ANSI terminal (\<^verbatim>\<open>src/kernel/drivers/display/ansi_terminal.c\<close>): a back buffer of code points, the
  escape-sequence and UTF-8 state machine that writes it, and the flush of the changed cells to the
  console.

  The file-scope variables are the record \<open>ansi\<close>, which holds the console it draws on. Its
  \<open>unsigned\<close> variables are natural numbers; the sums that can exceed 32 bits are reduced
  modulo \<open>2\<^sup>3\<^sup>2\<close>.
\<close>

unbundle bit_operations_syntax

section \<open>State\<close>

record acell =
  cp :: u32
  at :: u8

record 'w ansi =
  disp :: "'w display"
  front :: "nat \<Rightarrow> acell"
  back_cells :: "nat \<Rightarrow> acell"
  awidth :: nat
  aheight :: nat
  arow :: nat
  acol :: nat
  saved_row :: nat
  saved_col :: nat
  scroll_top :: nat
  scroll_bottom :: nat
  params :: "nat list"
  param_value :: nat
  afg :: u8
  abg :: u8
  esc_state :: nat
  private_mode :: bool
  abold :: bool
  acursor_visible :: bool
  utf8_left :: nat
  utf8_cp :: u32
  ainitialized :: bool
  adirty :: bool

definition MW :: nat where "MW = 216"
definition MH :: nat where "MH = 64"

section \<open>Writing cells\<close>

text \<open>The table of \<open>cp437\<close> is the one of \<open>display_codepoint_glyph\<close>.\<close>

definition cp437 :: "u32 \<Rightarrow> u8" where
  "cp437 u =
     (case map_of
       [(0x2502, 179), (0x2524, 180), (0x2563, 185), (0x2551, 186), (0x2557, 187), (0x255D, 188), (0x2510, 191),
        (0x2514, 192), (0x2534, 193), (0x252C, 194), (0x251C, 195), (0x2500, 196), (0x253C, 197), (0x255A, 200),
        (0x2554, 201), (0x2569, 202), (0x2566, 203), (0x2560, 204), (0x2550, 205), (0x256C, 206), (0x2518, 217),
        (0x250C, 218), (0x2588, 219), (0x2591, 176), (0x2592, 177), (0x2593, 178)] u
      of Some g \<Rightarrow> g | None \<Rightarrow> if u < 128 then ucast u else 63)"

definition aattr :: "'w ansi \<Rightarrow> u8" where
  "aattr s = push_bit 4 (abg s AND 15) OR (afg s AND 7) OR (if abold s \<or> afg s \<ge> 8 then 8 else 0)"

definition mark :: "nat \<Rightarrow> nat \<Rightarrow> u32 \<Rightarrow> 'w ansi \<Rightarrow> 'w ansi" where
  "mark x y c s =
     (if x \<ge> awidth s \<or> y \<ge> aheight s then s
      else s\<lparr>back_cells := (back_cells s)(y * MW + x := \<lparr>cp = c, at = aattr s\<rparr>), adirty := True\<rparr>)"

definition ascroll :: "'w ansi \<Rightarrow> 'w ansi" where
  "ascroll s =
     (if arow s \<le> scroll_bottom s then s
      else let b = fold (\<lambda>y. fold (\<lambda>x b. b((y - 1) * MW + x := b (y * MW + x))) [0..<awidth s])
                  [scroll_top s + 1..<scroll_bottom s + 1] (back_cells s);
               b = fold (\<lambda>x b. b(scroll_bottom s * MW + x := \<lparr>cp = 32, at = aattr s\<rparr>)) [0..<awidth s] b
           in s\<lparr>back_cells := b, arow := scroll_bottom s, adirty := True\<rparr>)"

fun tab_cells :: "nat \<Rightarrow> nat \<Rightarrow> 'w ansi \<Rightarrow> 'w ansi" where
  "tab_cells 0 n s = s"
| "tab_cells (Suc k) n s =
     (if acol s < n \<and> acol s < awidth s then tab_cells k n ((mark (acol s) (arow s) 32 s)\<lparr>acol := acol s + 1\<rparr>) else s)"

definition newline :: "'w ansi \<Rightarrow> 'w ansi" where
  "newline s = ascroll (s\<lparr>acol := 0, arow := (arow s + 1) mod 2 ^ 32\<rparr>)"

text \<open>A tab stop is at most eight columns away, so the loop ends after eight rounds.\<close>

definition emit :: "u32 \<Rightarrow> 'w ansi \<Rightarrow> 'w ansi" where
  "emit c s =
     (if c = 13 then s\<lparr>acol := 0\<rparr>
      else if c = 10 then newline s
      else if c = 8 then if acol s \<noteq> 0 then s\<lparr>acol := acol s - 1\<rparr> else s
      else if c = 9 then tab_cells 8 ((acol s + 8) div 8 * 8) s
      else if c < 32 then s
      else let s = mark (acol s) (arow s) c s in
        if acol s + 1 \<ge> awidth s then newline s else s\<lparr>acol := acol s + 1\<rparr>)"

section \<open>Escape sequences\<close>

definition parameter :: "nat \<Rightarrow> nat \<Rightarrow> 'w ansi \<Rightarrow> nat" where
  "parameter i fallback s = (if i < length (params s) \<and> params s ! i \<noteq> 0 then params s ! i else fallback)"

definition erase_cells :: "nat \<Rightarrow> nat \<Rightarrow> nat \<Rightarrow> 'w ansi \<Rightarrow> 'w ansi" where
  "erase_cells b e y s = fold (\<lambda>x. mark x y 32) [b..<min e (awidth s)] s"

definition erase_line :: "nat \<Rightarrow> 'w ansi \<Rightarrow> 'w ansi" where
  "erase_line mode s =
     (let b = (if mode = 1 then 0 else acol s); e = (if mode = 0 then awidth s else acol s + 1)
      in if mode = 2 then erase_cells 0 (awidth s) (arow s) s else erase_cells b e (arow s) s)"

definition erase_rows :: "nat \<Rightarrow> nat \<Rightarrow> 'w ansi \<Rightarrow> 'w ansi" where
  "erase_rows b e s = fold (\<lambda>y. fold (\<lambda>x. mark x y 32) [0..<awidth s]) [b..<e] s"

definition erase_screen :: "nat \<Rightarrow> 'w ansi \<Rightarrow> 'w ansi" where
  "erase_screen mode s =
     (if mode = 2 \<or> mode = 3 then (erase_rows 0 (aheight s) s)\<lparr>arow := 0, acol := 0\<rparr>
      else if mode = 0 then let s = erase_line 0 s in erase_rows (arow s + 1) (aheight s) s
      else let s = erase_line 1 s in erase_rows 0 (arow s) s)"

definition indexed_color :: "nat \<Rightarrow> u8" where
  "indexed_color v = (let c = of_nat v :: u8 in if c < 16 then c else if c \<ge> 232 then if c \<ge> 244 then 15 else 8 else 7)"

definition sgr_code :: "nat \<Rightarrow> 'w ansi \<Rightarrow> 'w ansi" where
  "sgr_code v s =
     (if v = 0 then s\<lparr>afg := 7, abg := 0, abold := False\<rparr>
      else if v = 1 then s\<lparr>abold := True\<rparr>
      else if v = 22 then s\<lparr>abold := False\<rparr>
      else if 30 \<le> v \<and> v \<le> 37 then s\<lparr>afg := of_nat (v - 30)\<rparr>
      else if 90 \<le> v \<and> v \<le> 97 then s\<lparr>afg := of_nat (v - 90 + 8)\<rparr>
      else if 40 \<le> v \<and> v \<le> 47 then s\<lparr>abg := of_nat (v - 40)\<rparr>
      else if 100 \<le> v \<and> v \<le> 107 then s\<lparr>abg := of_nat (v - 100 + 8)\<rparr>
      else if v = 39 then s\<lparr>afg := 7\<rparr>
      else if v = 49 then s\<lparr>abg := 0\<rparr>
      else s)"

definition sgr_indexed :: "nat \<Rightarrow> nat \<Rightarrow> 'w ansi \<Rightarrow> 'w ansi" where
  "sgr_indexed v c s = (if v = 38 then s\<lparr>afg := indexed_color c\<rparr> else s\<lparr>abg := indexed_color c\<rparr>)"

fun sgr :: "nat list \<Rightarrow> 'w ansi \<Rightarrow> 'w ansi" where
  "sgr (v # m # c # vs) s =
     (if (v = 38 \<or> v = 48) \<and> m = 5 then sgr vs (sgr_indexed v c s) else sgr (m # c # vs) (sgr_code v s))"
| "sgr [v, m] s = sgr_code m (sgr_code v s)"
| "sgr [v] s = sgr_code v s"
| "sgr [] s = s"

definition apply_sgr :: "'w ansi \<Rightarrow> 'w ansi" where
  "apply_sgr s = (if params s = [] then s\<lparr>afg := 7, abg := 0, abold := False\<rparr> else sgr (params s) s)"

definition set_region :: "'w ansi \<Rightarrow> 'w ansi" where
  "set_region s =
     (let t = parameter 0 1 s - 1; b = parameter 1 (aheight s) s - 1;
          (t, b) = (if t \<ge> aheight s \<or> b \<ge> aheight s \<or> t \<ge> b then (0, aheight s - 1) else (t, b))
      in s\<lparr>scroll_top := t, scroll_bottom := b, arow := t, acol := 0\<rparr>)"

definition csi_command :: "char \<Rightarrow> 'w ansi \<Rightarrow> 'w ansi" where
  "csi_command final s =
     (if final = CHR ''m'' then apply_sgr s
      else if final = CHR ''H'' \<or> final = CHR ''f'' then s\<lparr>arow := parameter 0 1 s - 1, acol := parameter 1 1 s - 1\<rparr>
      else if final = CHR ''A'' then let n = parameter 0 1 s in s\<lparr>arow := (if arow s > n then arow s - n else 0)\<rparr>
      else if final = CHR ''B'' then s\<lparr>arow := (arow s + parameter 0 1 s) mod 2 ^ 32\<rparr>
      else if final = CHR ''C'' then s\<lparr>acol := (acol s + parameter 0 1 s) mod 2 ^ 32\<rparr>
      else if final = CHR ''D'' then let n = parameter 0 1 s in s\<lparr>acol := (if acol s > n then acol s - n else 0)\<rparr>
      else if final = CHR ''J'' then erase_screen (parameter 0 0 s) s
      else if final = CHR ''K'' then erase_line (parameter 0 0 s) s
      else if final = CHR ''s'' then s\<lparr>saved_row := arow s, saved_col := acol s\<rparr>
      else if final = CHR ''u'' then s\<lparr>arow := saved_row s, acol := saved_col s\<rparr>
      else if final = CHR ''r'' then set_region s
      else if final = CHR ''h'' then if private_mode s \<and> parameter 0 0 s = 25 then s\<lparr>acursor_visible := True\<rparr> else s
      else if final = CHR ''l'' then if private_mode s \<and> parameter 0 0 s = 25 then s\<lparr>acursor_visible := False\<rparr> else s
      else s)"

definition clamp_cursor :: "'w ansi \<Rightarrow> 'w ansi" where
  "clamp_cursor s = s\<lparr>arow := (if arow s \<ge> aheight s then aheight s - 1 else arow s),
     acol := (if acol s \<ge> awidth s then awidth s - 1 else acol s)\<rparr>"

definition push_param :: "'w ansi \<Rightarrow> 'w ansi" where
  "push_param s = (if length (params s) < 8 then s\<lparr>params := params s @ [param_value s]\<rparr> else s)"

definition csi :: "char \<Rightarrow> 'w ansi \<Rightarrow> 'w ansi" where
  "csi final s =
     (clamp_cursor (csi_command final (push_param s)))\<lparr>esc_state := 0, private_mode := False, params := [], param_value := 0\<rparr>"

section \<open>The machine\<close>

definition copy_cell :: "nat \<Rightarrow> nat \<Rightarrow> 'w ansi \<Rightarrow> 'w ansi" where
  "copy_cell x y s =
     (let v = display_cell x y (disp s); c = \<lparr>cp = ucast (cell_char v), at = cell_attr v\<rparr>
      in s\<lparr>back_cells := (back_cells s)(y * MW + x := c), front := (front s)(y * MW + x := c)\<rparr>)"

definition ansi_init :: "'w ansi \<Rightarrow> 'w ansi" where
  "ansi_init s =
     (let w = min (width (disp s)) MW; h = min (height (disp s)) MH;
          s = fold (\<lambda>y. fold (\<lambda>x. copy_cell x y) [0..<w]) [0..<h] (s\<lparr>awidth := w, aheight := h\<rparr>)
      in s\<lparr>arow := 0, acol := 0, saved_row := 0, saved_col := 0, scroll_top := 0, scroll_bottom := (if h \<noteq> 0 then h - 1 else 0),
           afg := 7, abg := 0, esc_state := 0, private_mode := False, abold := False, utf8_left := 0, acursor_visible := True,
           adirty := False, ainitialized := True\<rparr>)"

definition ansi_reset :: "'w ansi \<Rightarrow> 'w ansi" where
  "ansi_reset s = ansi_init (s\<lparr>ainitialized := False\<rparr>)"

definition escape_byte :: "char \<Rightarrow> 'w ansi \<Rightarrow> 'w ansi" where
  "escape_byte b s =
     (if b = CHR ''['' then s\<lparr>esc_state := 2, params := [], param_value := 0, private_mode := False\<rparr> else s\<lparr>esc_state := 0\<rparr>)"

definition csi_byte :: "char \<Rightarrow> 'w ansi \<Rightarrow> 'w ansi" where
  "csi_byte b s =
     (if b = CHR ''?'' then s\<lparr>private_mode := True\<rparr>
      else if between (CHR ''0'') (CHR ''9'') b then s\<lparr>param_value := (param_value s * 10 + unat (ord b - 48)) mod 2 ^ 32\<rparr>
      else if b = CHR '';'' then (push_param s)\<lparr>param_value := 0\<rparr>
      else csi b s)"

definition first_byte :: "u8 \<Rightarrow> 'w ansi \<Rightarrow> 'w ansi" where
  "first_byte b s =
     (if b < 0x80 then emit (ucast b) s
      else if b AND 0xE0 = 0xC0 then s\<lparr>utf8_cp := ucast (b AND 31), utf8_left := 1\<rparr>
      else if b AND 0xF0 = 0xE0 then s\<lparr>utf8_cp := ucast (b AND 15), utf8_left := 2\<rparr>
      else if b AND 0xF8 = 0xF0 then s\<lparr>utf8_cp := ucast (b AND 7), utf8_left := 3\<rparr>
      else emit 63 s)"

definition text_byte :: "u8 \<Rightarrow> 'w ansi \<Rightarrow> 'w ansi" where
  "text_byte b s =
     (if utf8_left s \<noteq> 0 then
        if b AND 0xC0 \<noteq> 0x80 then first_byte b (emit 63 (s\<lparr>utf8_left := 0\<rparr>))
        else let s = s\<lparr>utf8_cp := push_bit 6 (utf8_cp s) OR ucast (b AND 63), utf8_left := utf8_left s - 1\<rparr>
             in if utf8_left s = 0 then emit (utf8_cp s) s else s
      else first_byte b s)"

definition ansi_putchar :: "char \<Rightarrow> 'w ansi \<Rightarrow> 'w ansi" where
  "ansi_putchar b s =
     (let s = (if ainitialized s then s else ansi_init s) in
      if esc_state s = 1 then escape_byte b s
      else if esc_state s = 2 then csi_byte b s
      else if b = ESC then s\<lparr>esc_state := 1\<rparr>
      else text_byte (ord b) s)"

definition aflush_cell :: "'w ports \<Rightarrow> nat \<Rightarrow> nat \<Rightarrow> 'w ansi \<Rightarrow> 'w ansi" where
  "aflush_cell io x y s =
     (let i = y * MW + x; b = back_cells s i in
      if front s i \<noteq> b
      then s\<lparr>disp := display_set_cell io x y (cp437 (cp b)) (at b) (disp s), front := (front s)(i := b)\<rparr>
      else s)"

definition ansi_flush :: "'w ports \<Rightarrow> 'w ansi \<Rightarrow> 'w ansi" where
  "ansi_flush io s =
     (if \<not> ainitialized s \<or> \<not> adirty s then s
      else let s = fold (\<lambda>y. fold (\<lambda>x. aflush_cell io x y) [0..<awidth s]) [0..<aheight s] s
           in s\<lparr>disp := display_cursor_set io (acol s) (arow s) (acursor_visible s) True (disp s), adirty := False\<rparr>)"

definition ansi_write :: "'w ports \<Rightarrow> string \<Rightarrow> 'w ansi \<Rightarrow> 'w ansi" where
  "ansi_write io t s = ansi_flush io (fold ansi_putchar t s)"

section \<open>Drawing\<close>

definition ansi_set_fg :: "u8 \<Rightarrow> 'w ansi \<Rightarrow> 'w ansi" where
  "ansi_set_fg c s = s\<lparr>afg := c AND 15\<rparr>"

definition ansi_set_bg :: "u8 \<Rightarrow> 'w ansi \<Rightarrow> 'w ansi" where
  "ansi_set_bg c s = s\<lparr>abg := c AND 15\<rparr>"

definition ansi_move_cursor :: "nat \<Rightarrow> nat \<Rightarrow> 'w ansi \<Rightarrow> 'w ansi" where
  "ansi_move_cursor r c s =
     (let s = (if ainitialized s then s else ansi_init s)
      in s\<lparr>arow := (if r < aheight s then r else aheight s - 1), acol := (if c < awidth s then c else awidth s - 1)\<rparr>)"

definition ansi_clear :: "'w ansi \<Rightarrow> 'w ansi" where
  "ansi_clear s = erase_screen 2 (if ainitialized s then s else ansi_init s)"

text \<open>Positions are sums of \<open>unsigned\<close> values.\<close>

definition ansi_draw_box :: "u32 \<Rightarrow> u32 \<Rightarrow> u32 \<Rightarrow> u32 \<Rightarrow> bool \<Rightarrow> 'w ansi \<Rightarrow> 'w ansi" where
  "ansi_draw_box x y w h dbl s =
     (if w < 2 \<or> h < 2 then s
      else let hz = (if dbl then 0x2550 else 0x2500); vt = (if dbl then 0x2551 else 0x2502);
               mk = (\<lambda>x y. mark (unat x) (unat y));
               s = fold (\<lambda>i s. mk (x + of_nat i) (y + h - 1) hz (mk (x + of_nat i) y hz s)) [1..<unat w - 1] s;
               s = fold (\<lambda>i s. mk (x + w - 1) (y + of_nat i) vt (mk x (y + of_nat i) vt s)) [1..<unat h - 1] s;
               s = mk (x + w - 1) y (if dbl then 0x2557 else 0x2510) (mk x y (if dbl then 0x2554 else 0x250C) s)
           in mk (x + w - 1) (y + h - 1) (if dbl then 0x255D else 0x2518) (mk x (y + h - 1) (if dbl then 0x255A else 0x2514) s))"

definition ansi_draw_panel :: "u32 \<Rightarrow> u32 \<Rightarrow> u32 \<Rightarrow> u32 \<Rightarrow> string \<Rightarrow> 'w ansi \<Rightarrow> 'w ansi" where
  "ansi_draw_panel x y w h t s =
     fold (\<lambda>(i, c). mark (unat (x + 2 + of_nat i)) (unat y) (ucast (ord c)))
       (zip [0..<unat w - 3] t) (ansi_draw_box x y w h False s)"

definition ansi_draw_progress :: "u32 \<Rightarrow> u32 \<Rightarrow> u32 \<Rightarrow> u32 \<Rightarrow> 'w ansi \<Rightarrow> 'w ansi" where
  "ansi_draw_progress x y w percent s =
     (let filled = w * min percent 100 div 100
      in fold (\<lambda>i. mark (unat (x + of_nat i)) (unat y) (if of_nat i < filled then 0x2588 else 0x2591)) [0..<unat w] s)"

section \<open>Bounds\<close>

text \<open>Only the back buffer and the dirty flag differ.\<close>

definition marks_only :: "'w ansi \<Rightarrow> 'w ansi \<Rightarrow> bool" where
  "marks_only s s' \<longleftrightarrow> (\<exists>b d. s' = s\<lparr>back_cells := b, adirty := d\<rparr>)"

lemma marks_only_refl: "marks_only s s"
  unfolding marks_only_def by (intro exI [of _ "back_cells s"] exI [of _ "adirty s"]) simp

lemma marks_only_trans: "marks_only s s' \<Longrightarrow> marks_only s' s'' \<Longrightarrow> marks_only s s''"
  unfolding marks_only_def by (elim exE) (simp, blast)

lemma marks_only_fold: "(\<And>x s. marks_only s (f x s)) \<Longrightarrow> marks_only s (fold f xs s)"
  by (induction xs arbitrary: s) (auto intro: marks_only_refl marks_only_trans)

lemma marks_only_mark: "marks_only s (mark x y c s)"
proof -
  have "marks_only s (s\<lparr>back_cells := b, adirty := d\<rparr>)" for b d unfolding marks_only_def by blast
  then show ?thesis by (simp add: mark_def marks_only_refl)
qed

lemma marks_only_erase_cells: "marks_only s (erase_cells b e y s)"
  unfolding erase_cells_def by (rule marks_only_fold) (rule marks_only_mark)

lemma marks_only_erase_line: "marks_only s (erase_line m s)"
  by (simp add: erase_line_def Let_def marks_only_erase_cells)

lemma marks_only_erase_rows: "marks_only s (erase_rows b e s)"
  unfolding erase_rows_def by (intro marks_only_fold marks_only_mark)

lemma marks_only_fields:
  assumes "marks_only s s'"
  shows "awidth s' = awidth s \<and> aheight s' = aheight s \<and> arow s' = arow s \<and> acol s' = acol s \<and> saved_row s' = saved_row s \<and>
    saved_col s' = saved_col s \<and> scroll_top s' = scroll_top s \<and> scroll_bottom s' = scroll_bottom s \<and> params s' = params s \<and>
    esc_state s' = esc_state s \<and> utf8_left s' = utf8_left s \<and> disp s' = disp s \<and> ainitialized s' = ainitialized s \<and>
    afg s' = afg s \<and> abg s' = abg s \<and> abold s' = abold s"
proof -
  obtain b d where e: "s' = s\<lparr>back_cells := b, adirty := d\<rparr>" using assms unfolding marks_only_def by blast
  show ?thesis unfolding e by simp
qed

lemmas mark_simps [simp] = marks_only_fields [OF marks_only_mark] marks_only_fields [OF marks_only_erase_line]
  marks_only_fields [OF marks_only_erase_rows]

text \<open>The buffer is as large as the screen, the scroll region lies in it, and the cursor is in it or,
  after a tab, right behind the last column.\<close>

definition frame_ok :: "'w ansi \<Rightarrow> bool" where
  "frame_ok s \<longleftrightarrow> 0 < awidth s \<and> awidth s \<le> MW \<and> 0 < aheight s \<and> aheight s \<le> MH \<and> scroll_top s \<le> scroll_bottom s \<and>
     scroll_bottom s < aheight s \<and> length (params s) \<le> 8 \<and> esc_state s < 3 \<and> utf8_left s \<le> 3"

definition ansi_ok :: "'w ansi \<Rightarrow> bool" where
  "ansi_ok s \<longleftrightarrow> frame_ok s \<and> arow s < aheight s \<and> acol s \<le> awidth s \<and> ainitialized s"

lemmas ansi_ok_defs = ansi_ok_def frame_ok_def

lemma ascroll_simps [simp]:
  "awidth (ascroll s) = awidth s" "aheight (ascroll s) = aheight s" "acol (ascroll s) = acol s" "scroll_top (ascroll s) = scroll_top s"
  "scroll_bottom (ascroll s) = scroll_bottom s" "params (ascroll s) = params s" "esc_state (ascroll s) = esc_state s"
  "utf8_left (ascroll s) = utf8_left s" "ainitialized (ascroll s) = ainitialized s" "arow (ascroll s) = min (arow s) (scroll_bottom s)"
  "disp (ascroll s) = disp s"
  by (simp_all add: ascroll_def Let_def min_def)

lemma newline_ok: "frame_ok s \<Longrightarrow> ainitialized s \<Longrightarrow> ansi_ok (newline s)"
  by (auto simp: newline_def ansi_ok_defs)

lemma tab_cells_ok: "ansi_ok s \<Longrightarrow> ansi_ok (tab_cells k n s)"
  by (induction k arbitrary: s) (simp_all add: ansi_ok_defs)

lemma emit_ok: "ansi_ok s \<Longrightarrow> ansi_ok (emit c s)"
proof -
  assume s: "ansi_ok s"
  have "ansi_ok (newline (mark (acol s) (arow s) c s))" using s by (intro newline_ok) (simp_all add: ansi_ok_defs)
  moreover have "ansi_ok (newline s)" using s by (intro newline_ok) (simp_all add: ansi_ok_def)
  ultimately show ?thesis using s tab_cells_ok [OF s] by (auto simp: emit_def Let_def) (auto simp: ansi_ok_defs)
qed

lemma sgr_code_simps [simp]:
  "awidth (sgr_code v s) = awidth s" "aheight (sgr_code v s) = aheight s" "arow (sgr_code v s) = arow s" "acol (sgr_code v s) = acol s"
  "scroll_top (sgr_code v s) = scroll_top s" "scroll_bottom (sgr_code v s) = scroll_bottom s" "params (sgr_code v s) = params s"
  "esc_state (sgr_code v s) = esc_state s" "utf8_left (sgr_code v s) = utf8_left s" "ainitialized (sgr_code v s) = ainitialized s"
  "disp (sgr_code v s) = disp s"
  by (simp_all add: sgr_code_def)

lemma sgr_simps:
  "awidth (sgr vs s) = awidth s \<and> aheight (sgr vs s) = aheight s \<and> arow (sgr vs s) = arow s \<and> acol (sgr vs s) = acol s \<and>
   scroll_top (sgr vs s) = scroll_top s \<and> scroll_bottom (sgr vs s) = scroll_bottom s \<and> params (sgr vs s) = params s \<and>
   esc_state (sgr vs s) = esc_state s \<and> utf8_left (sgr vs s) = utf8_left s \<and> ainitialized (sgr vs s) = ainitialized s \<and>
   disp (sgr vs s) = disp s"
  by (induction vs s rule: sgr.induct) (simp_all add: sgr_indexed_def)

lemma frame_ok_cong:
  "\<lbrakk>awidth s' = awidth s; aheight s' = aheight s; scroll_top s' = scroll_top s; scroll_bottom s' = scroll_bottom s;
    params s' = params s; esc_state s' = esc_state s; utf8_left s' = utf8_left s\<rbrakk> \<Longrightarrow> frame_ok s' \<longleftrightarrow> frame_ok s"
  by (simp add: frame_ok_def)

lemma frame_ok_update [simp]:
  "frame_ok (s\<lparr>arow := r\<rparr>) = frame_ok s" "frame_ok (s\<lparr>acol := c\<rparr>) = frame_ok s" "frame_ok (s\<lparr>saved_row := r\<rparr>) = frame_ok s"
  "frame_ok (s\<lparr>saved_col := c\<rparr>) = frame_ok s" "frame_ok (s\<lparr>acursor_visible := v\<rparr>) = frame_ok s" "frame_ok (s\<lparr>abold := b\<rparr>) = frame_ok s"
  "frame_ok (s\<lparr>afg := g\<rparr>) = frame_ok s" "frame_ok (s\<lparr>abg := g\<rparr>) = frame_ok s" "frame_ok (s\<lparr>private_mode := v\<rparr>) = frame_ok s"
  "frame_ok (s\<lparr>param_value := n\<rparr>) = frame_ok s" "frame_ok (s\<lparr>utf8_cp := u\<rparr>) = frame_ok s"
  by (simp_all add: frame_ok_def)

lemma frame_ok_if: "(c \<Longrightarrow> frame_ok a) \<Longrightarrow> (\<not> c \<Longrightarrow> frame_ok b) \<Longrightarrow> frame_ok (if c then a else b)"
  by simp

lemma set_region_frame: "frame_ok s \<Longrightarrow> frame_ok (set_region s)"
  by (simp add: frame_ok_def set_region_def Let_def)

lemma erase_frame: "frame_ok s \<Longrightarrow> frame_ok (erase_screen m s)" "frame_ok s \<Longrightarrow> frame_ok (erase_line m s)"
  by (simp_all add: frame_ok_def erase_screen_def Let_def)

lemma apply_sgr_frame: "frame_ok s \<Longrightarrow> frame_ok (apply_sgr s)"
  using sgr_simps [of "params s" s] by (simp add: apply_sgr_def frame_ok_def)

lemma csi_command_frame: "frame_ok s \<Longrightarrow> frame_ok (csi_command f s)"
  unfolding csi_command_def Let_def by (intro frame_ok_if) (simp_all add: set_region_frame erase_frame apply_sgr_frame)

lemma csi_command_init: "ainitialized (csi_command f s) = ainitialized s"
  using sgr_simps [of "params s" s]
  by (simp add: csi_command_def apply_sgr_def erase_screen_def set_region_def Let_def)

lemma push_param_frame: "frame_ok s \<Longrightarrow> frame_ok (push_param s)"
  by (simp add: push_param_def frame_ok_def)

lemma clamp_ok: "frame_ok s \<Longrightarrow> ainitialized s \<Longrightarrow> ansi_ok (clamp_cursor s)"
  by (auto simp: clamp_cursor_def ansi_ok_defs)

lemma csi_ok: "ansi_ok s \<Longrightarrow> ansi_ok (csi f s)"
proof -
  assume s: "ansi_ok s"
  then have "ainitialized (push_param s)" by (simp add: push_param_def ansi_ok_def)
  then have "ansi_ok (clamp_cursor (csi_command f (push_param s)))"
    using s by (intro clamp_ok) (simp_all add: ansi_ok_def push_param_frame csi_command_frame csi_command_init)
  then show ?thesis by (simp add: csi_def ansi_ok_defs)
qed

lemma first_byte_ok: "ansi_ok s \<Longrightarrow> ansi_ok (first_byte b s)"
  using emit_ok [of s] by (simp add: first_byte_def) (simp add: ansi_ok_defs)

lemma text_byte_ok: "ansi_ok s \<Longrightarrow> ansi_ok (text_byte b s)"
proof -
  assume s: "ansi_ok s"
  have k: "ansi_ok (s\<lparr>utf8_left := 0\<rparr>)" "n \<le> utf8_left s \<Longrightarrow> ansi_ok (s\<lparr>utf8_cp := c, utf8_left := n\<rparr>)" for c n
    using s by (auto simp: ansi_ok_defs)
  show ?thesis using k(1) s k(2) [THEN emit_ok] by (simp add: text_byte_def Let_def first_byte_ok emit_ok k(2))
qed

lemma csi_byte_ok: "ansi_ok s \<Longrightarrow> ansi_ok (csi_byte b s)"
proof -
  assume s: "ansi_ok s"
  then have "ansi_ok ((push_param s)\<lparr>param_value := 0\<rparr>)" "ansi_ok (s\<lparr>private_mode := True\<rparr>)" "ansi_ok (s\<lparr>param_value := n\<rparr>)" for n
    using push_param_frame [of s] by (simp_all add: ansi_ok_def) (simp_all add: push_param_def)
  then show ?thesis using csi_ok [OF s] by (simp add: csi_byte_def)
qed

lemma fold_keeps: "(\<And>x s. F (f x s) = F s) \<Longrightarrow> F (fold f xs s) = F s"
  by (induction xs arbitrary: s) simp_all

lemma ansi_init_ok:
  assumes "geometry_ok (disp s)" and "length (params s) \<le> 8"
  shows "ansi_ok (ansi_init s)"
proof -
  let ?l = "\<lambda>w h t. fold (\<lambda>y. fold (\<lambda>x. copy_cell x y) [0..<w]) [0..<h] t"
  have "awidth (?l w h t) = awidth t" "aheight (?l w h t) = aheight t" "params (?l w h t) = params t" for w h and t :: "'a ansi"
    by (rule fold_keeps, rule fold_keeps, simp add: copy_cell_def Let_def)+
  then show ?thesis using assms by (auto simp: ansi_init_def Let_def ansi_ok_defs geometry_ok_def MW_def MH_def)
qed

text \<open>Bytes change the back buffer only; the console changes when it is flushed.\<close>

lemma newline_disp [simp]: "disp (newline s) = disp s"
  by (simp add: newline_def)

lemma tab_cells_disp [simp]: "disp (tab_cells k n s) = disp s"
  by (induction k arbitrary: s) simp_all

lemma emit_disp [simp]: "disp (emit c s) = disp s"
  by (simp add: emit_def Let_def)

lemma disp_if: "disp a = d \<Longrightarrow> disp b = d \<Longrightarrow> disp (if c then a else b) = d"
  by simp

lemma command_disp: "disp (erase_screen m s) = disp s" "disp (set_region s) = disp s" "disp (apply_sgr s) = disp s"
  using sgr_simps [of "params s" s] by (simp_all add: erase_screen_def set_region_def apply_sgr_def Let_def)

lemma csi_command_disp [simp]: "disp (csi_command f s) = disp s"
  unfolding csi_command_def Let_def by (intro disp_if) (simp_all add: command_disp)

lemma csi_disp [simp]: "disp (csi f s) = disp s"
  by (simp add: csi_def clamp_cursor_def push_param_def)

lemma ansi_init_disp [simp]: "disp (ansi_init s) = disp s"
proof -
  have "disp (fold (\<lambda>y. fold (\<lambda>x. copy_cell x y) xs) ys t) = disp t" for xs ys and t :: "'a ansi"
    by (rule fold_keeps, rule fold_keeps, simp add: copy_cell_def Let_def)
  then show ?thesis by (simp add: ansi_init_def Let_def)
qed

lemma byte_disp [simp]:
  "disp (first_byte u s) = disp s" "disp (escape_byte b s) = disp s" "disp (csi_byte b s) = disp s"
  by (simp_all add: first_byte_def escape_byte_def csi_byte_def push_param_def)

lemma text_byte_disp [simp]: "disp (text_byte u s) = disp s"
  by (simp add: text_byte_def Let_def)

lemma ansi_putchar_disp [simp]: "disp (ansi_putchar b s) = disp s"
  unfolding ansi_putchar_def Let_def by (intro disp_if) simp_all

lemma ansi_bytes_disp [simp]: "disp (fold ansi_putchar t s) = disp s"
  by (rule fold_keeps) simp

text \<open>C21: For every byte sequence sent to the terminal, control sequences with any parameters included, the
  cursor stays inside the screen or right behind its last column, the scroll region stays inside the
  screen and no more than eight parameters are stored.\<close>

theorem ansi_bytes_bounded:
  assumes "geometry_ok (disp s)" and "length (params s) \<le> 8"
  shows "ansi_ok (fold ansi_putchar t (ansi_reset s))"
proof -
  have "ansi_ok (ansi_putchar b s)" if "ansi_ok s" for b and s :: "'a ansi"
  proof -
    have "ansi_ok (escape_byte b s)" "ansi_ok (s\<lparr>esc_state := 1\<rparr>)"
      using that by (simp_all add: escape_byte_def ansi_ok_defs)
    then show ?thesis using that csi_byte_ok [OF that] text_byte_ok [OF that] by (simp add: ansi_putchar_def Let_def ansi_ok_def [of s])
  qed
  then have "ansi_ok s \<Longrightarrow> ansi_ok (fold ansi_putchar t s)" for s :: "'a ansi" by (induction t arbitrary: s) simp_all
  moreover have "ansi_ok (ansi_reset s)"
    unfolding ansi_reset_def by (rule ansi_init_ok) (use assms in simp_all)
  ultimately show ?thesis by blast
qed

definition ansi_statics :: "'w display \<Rightarrow> 'w ansi" where
  "ansi_statics d = \<lparr>disp = d, front = (\<lambda>_. \<lparr>cp = 0, at = 0\<rparr>), back_cells = (\<lambda>_. \<lparr>cp = 0, at = 0\<rparr>), awidth = 0, aheight = 0,
     arow = 0, acol = 0, saved_row = 0, saved_col = 0, scroll_top = 0, scroll_bottom = 0, params = [], param_value = 0, afg = 7, abg = 0,
     esc_state = 0, private_mode = False, abold = False, acursor_visible = True, utf8_left = 0, utf8_cp = 0, ainitialized = False,
     adirty = False\<rparr>"

theorem ansi_bytes_bounded_witness:
  "ansi_ok (fold ansi_putchar (ESC # ''[999;999H'') (ansi_reset (ansi_statics (display_statics () (\<lambda>_. 0)))))"
  by (rule ansi_bytes_bounded) (simp_all add: ansi_statics_def display_statics_def geometry_ok_def display_consts)

lemma tab_cells_end:
  "\<lbrakk>awidth s - acol s \<le> k; awidth s \<le> n; acol s \<le> awidth s\<rbrakk> \<Longrightarrow>
     acol (tab_cells k n s) = awidth s \<and> arow (tab_cells k n s) = arow s \<and> awidth (tab_cells k n s) = awidth s \<and>
     scroll_bottom (tab_cells k n s) = scroll_bottom s"
  by (induction k arbitrary: s) auto

text \<open>A tab whose stop is the right margin leaves the cursor behind the last column; the next
  character is then dropped instead of being shown at the start of the next line, where the cursor
  goes.\<close>

theorem ansi_tab_loses_character:
  assumes "acol s < awidth s" and "awidth s \<le> (acol s + 8) div 8 * 8" and "arow s < scroll_bottom s" and "scroll_bottom s < 2 ^ 31"
    and "32 \<le> c"
  shows "back_cells (emit c (emit 9 s)) = back_cells (emit 9 s) \<and> acol (emit c (emit 9 s)) = 0 \<and> arow (emit c (emit 9 s)) = arow s + 1"
proof -
  let ?t = "emit 9 s"
  have t: "acol ?t = awidth s" "arow ?t = arow s" "awidth ?t = awidth s" "scroll_bottom ?t = scroll_bottom s"
    using tab_cells_end [of s 8 "(acol s + 8) div 8 * 8"] assms by (simp_all add: emit_def)
  have c: "c \<noteq> 13" "c \<noteq> 10" "c \<noteq> 8" "c \<noteq> 9" "\<not> c < 32" using assms(5) by auto
  have "emit c ?t = newline ?t" using t by (simp add: emit_def [of c] c mark_def Let_def)
  also have "\<dots> = ?t\<lparr>acol := 0, arow := arow s + 1\<rparr>" using t assms(3,4) by (simp add: newline_def ascroll_def)
  finally show ?thesis by simp
qed

theorem ansi_tab_loses_character_witness:
  "back_cells (emit 65 (emit 9 ((ansi_statics (display_statics () (\<lambda>_. 0)))\<lparr>awidth := 80, acol := 75, scroll_bottom := 24\<rparr>))) =
   back_cells (emit 9 ((ansi_statics (display_statics () (\<lambda>_. 0)))\<lparr>awidth := 80, acol := 75, scroll_bottom := 24\<rparr>))"
  using ansi_tab_loses_character [of "(ansi_statics (display_statics () (\<lambda>_. 0)))\<lparr>awidth := 80, acol := 75, scroll_bottom := 24\<rparr>" 65]
  by (simp add: ansi_statics_def)

end
