(* ===== verification/TUI_Screen.thy ===== *)
theory TUI_Screen
  imports C_Code "HOL-Library.Signed_Division"
begin

text \<open>
  The drawing half of the text user-interface library (\<^verbatim>\<open>src/user/libtui/screen.c\<close>,
  \<^verbatim>\<open>theme.c\<close> and the types of \<^verbatim>\<open>tui.h\<close>): the two cell buffers, clipped drawing of
  rectangles, texts and frames, windows, and the flush of the changed cells to the terminal.

  The file-scope variables are the record \<open>tui\<close>. The static arrays of windows and widgets are
  lists of slots, a pointer to a window or a widget is the index of its slot. The buffers are
  functions of the cell index. The terminal behind the application interface is a record of
  operations on a world \<open>'w\<close>; the locale \<open>terminal\<close> states what writing a cell does.
  C's integer division is \<open>sdiv\<close>.
\<close>

section \<open>Data\<close>

record tui_cell =
  character :: u32
  foreground :: u8
  background :: u8
  attributes :: u8

record tui_theme =
  desktop_fg :: u8
  desktop_bg :: u8
  window_fg :: u8
  window_bg :: u8
  title_fg :: u8
  title_bg :: u8
  selected_fg :: u8
  selected_bg :: u8
  disabled_fg :: u8
  disabled_bg :: u8
  status_fg :: u8
  status_bg :: u8
  error_fg :: u8
  error_bg :: u8
  border_fg :: u8
  border_bg :: u8
  highlight_fg :: u8
  highlight_bg :: u8
  success_fg :: u8
  success_bg :: u8
  warning_fg :: u8
  warning_bg :: u8

definition tui_theme_dos :: tui_theme where
  "tui_theme_dos = \<lparr>desktop_fg = 15, desktop_bg = 1, window_fg = 15, window_bg = 1, title_fg = 15, title_bg = 1,
     selected_fg = 0, selected_bg = 7, disabled_fg = 8, disabled_bg = 1, status_fg = 0, status_bg = 7,
     error_fg = 15, error_bg = 4, border_fg = 15, border_bg = 1, highlight_fg = 0, highlight_bg = 7,
     success_fg = 10, success_bg = 1, warning_fg = 14, warning_bg = 4\<rparr>"

definition tui_theme_installer :: tui_theme where
  "tui_theme_installer = \<lparr>desktop_fg = 15, desktop_bg = 1, window_fg = 15, window_bg = 1, title_fg = 15, title_bg = 9,
     selected_fg = 15, selected_bg = 9, disabled_fg = 8, disabled_bg = 1, status_fg = 7, status_bg = 4,
     error_fg = 15, error_bg = 4, border_fg = 15, border_bg = 1, highlight_fg = 0, highlight_bg = 7,
     success_fg = 10, success_bg = 1, warning_fg = 14, warning_bg = 1\<rparr>"

datatype tui_event_type = TUI_EVENT_NONE | TUI_EVENT_KEY | TUI_EVENT_TIMER | TUI_EVENT_RESIZE
  | TUI_EVENT_COMMAND | TUI_EVENT_CLOSE

record tui_event =
  ev_type :: tui_event_type
  ev_key :: u32
  ev_modifiers :: u32
  ev_timestamp :: u64

datatype tui_widget_type = TUI_LABEL | TUI_BUTTON | TUI_TEXT_INPUT | TUI_PASSWORD_INPUT | TUI_CHECKBOX | TUI_RADIO
  | TUI_LISTBOX | TUI_TEXT_VIEW | TUI_MENU_BAR | TUI_DROPDOWN | TUI_STATUS_BAR | TUI_PROGRESS | TUI_TABS | TUI_TABLE
  | TUI_HSCROLL | TUI_VSCROLL

text \<open>A widget; \<open>wd_text\<close> is the array of 4096 characters, \<open>wd_activate\<close> the callback.\<close>

record tui_widget =
  wd_type :: tui_widget_type
  wd_x :: int
  wd_y :: int
  wd_width :: int
  wd_height :: int
  wd_visible :: bool
  wd_enabled :: bool
  wd_focused :: bool
  wd_checked :: bool
  wd_value :: int
  wd_maximum :: int
  wd_scroll :: int
  wd_cursor :: int
  wd_insert_mode :: bool
  wd_text :: "char list"
  wd_items :: "string list"
  wd_selected :: nat
  wd_parent :: nat
  wd_activate :: "nat option"
  wd_custom_fg :: u8
  wd_custom_bg :: u8

record tui_window =
  wn_x :: int
  wn_y :: int
  wn_width :: int
  wn_height :: int
  wn_title :: string
  wn_flags :: u32
  wn_visible :: bool
  wn_focused :: bool
  wn_double_border :: bool
  wn_children :: "nat list"
  wn_focus_index :: nat

record tui_application =
  app_name :: string
  running :: bool
  redraw :: bool
  app_windows :: "nat list"

definition SCREEN_STRIDE :: nat where "SCREEN_STRIDE = 216"
definition SCREEN_ROWS :: nat where "SCREEN_ROWS = 64"
definition TUI_MAX_WINDOWS :: nat where "TUI_MAX_WINDOWS = 8"
definition TUI_MAX_WIDGETS :: nat where "TUI_MAX_WIDGETS = 64"
definition TUI_WINDOW_MODAL :: u32 where "TUI_WINDOW_MODAL = 1"
definition TUI_WINDOW_CENTER :: u32 where "TUI_WINDOW_CENTER = 2"
definition TUI_WINDOW_DOUBLE_BORDER :: u32 where "TUI_WINDOW_DOUBLE_BORDER = 4"

record 'w tui =
  world :: 'w
  swidth :: nat
  sheight :: nat
  front_buffer :: "nat \<Rightarrow> tui_cell"
  back_buffer :: "nat \<Rightarrow> tui_cell"
  theme :: tui_theme
  ascii_mode :: bool
  initialized :: bool
  dirty :: bool
  application :: tui_application
  windows :: "tui_window list"
  window_used :: nat
  widgets :: "tui_widget list"
  used :: nat
  posted :: "tui_event option"

text \<open>The part of the application interface the library calls.\<close>

record 'w api =
  version :: nat
  terminal_acquire :: "'w \<Rightarrow> bool \<times> 'w"
  terminal_release :: "'w \<Rightarrow> 'w"
  terminal_read_key :: "'w \<Rightarrow> u32 \<times> 'w"
  terminal_write_cell :: "nat \<Rightarrow> nat \<Rightarrow> u32 \<Rightarrow> u8 \<Rightarrow> 'w \<Rightarrow> 'w"
  terminal_cursor :: "int \<Rightarrow> int \<Rightarrow> bool \<Rightarrow> bool \<Rightarrow> 'w \<Rightarrow> 'w"
  terminal_width :: "'w \<Rightarrow> nat"
  terminal_height :: "'w \<Rightarrow> nat"
  terminal_unicode :: "'w \<Rightarrow> bool"

text \<open>The static data before the first call, over a state of the terminal.\<close>

definition blank_cell :: tui_cell where
  "blank_cell = \<lparr>character = 0, foreground = 0, background = 0, attributes = 0\<rparr>"

definition blank_window :: tui_window where
  "blank_window = \<lparr>wn_x = 0, wn_y = 0, wn_width = 0, wn_height = 0, wn_title = [], wn_flags = 0, wn_visible = False,
     wn_focused = False, wn_double_border = False, wn_children = [], wn_focus_index = 0\<rparr>"

definition blank_widget :: tui_widget where
  "blank_widget = \<lparr>wd_type = TUI_LABEL, wd_x = 0, wd_y = 0, wd_width = 0, wd_height = 0, wd_visible = False,
     wd_enabled = False, wd_focused = False, wd_checked = False, wd_value = 0, wd_maximum = 0, wd_scroll = 0,
     wd_cursor = 0, wd_insert_mode = False, wd_text = replicate 4096 NUL, wd_items = [], wd_selected = 0, wd_parent = 0,
     wd_activate = None, wd_custom_fg = 0, wd_custom_bg = 0\<rparr>"

definition zero_theme :: tui_theme where
  "zero_theme = \<lparr>desktop_fg = 0, desktop_bg = 0, window_fg = 0, window_bg = 0, title_fg = 0, title_bg = 0,
     selected_fg = 0, selected_bg = 0, disabled_fg = 0, disabled_bg = 0, status_fg = 0, status_bg = 0,
     error_fg = 0, error_bg = 0, border_fg = 0, border_bg = 0, highlight_fg = 0, highlight_bg = 0,
     success_fg = 0, success_bg = 0, warning_fg = 0, warning_bg = 0\<rparr>"

definition tui_statics :: "'w \<Rightarrow> 'w tui" where
  "tui_statics w = \<lparr>world = w, swidth = 80, sheight = 25, front_buffer = (\<lambda>_. blank_cell), back_buffer = (\<lambda>_. blank_cell),
     theme = zero_theme, ascii_mode = False, initialized = False, dirty = False,
     application = \<lparr>app_name = [], running = False, redraw = False, app_windows = []\<rparr>,
     windows = replicate TUI_MAX_WINDOWS blank_window, window_used = 0,
     widgets = replicate TUI_MAX_WIDGETS blank_widget, used = 0, posted = None\<rparr>"

section \<open>Text\<close>

text \<open>\<open>copy_text\<close> into an array of \<open>cap\<close> characters, as the string the array then holds.\<close>

definition copy_text :: "string \<Rightarrow> nat \<Rightarrow> string" where
  "copy_text s cap = take (cap - 1) s"

definition text_len :: "string \<Rightarrow> nat" where
  "text_len s = length s"

definition attr :: "tui_cell \<Rightarrow> u8" where
  "attr c = push_bit 4 (background c) OR (foreground c AND 15)"

section \<open>Drawing\<close>

definition on_screen :: "'w tui \<Rightarrow> int \<Rightarrow> int \<Rightarrow> bool" where
  "on_screen st x y \<longleftrightarrow> 0 \<le> x \<and> 0 \<le> y \<and> x < int (swidth st) \<and> y < int (sheight st)"

definition cell_at :: "int \<Rightarrow> int \<Rightarrow> nat" where
  "cell_at x y = nat (y * int SCREEN_STRIDE + x)"

definition tui_fill :: "int \<Rightarrow> int \<Rightarrow> int \<Rightarrow> int \<Rightarrow> u32 \<Rightarrow> u8 \<Rightarrow> u8 \<Rightarrow> 'w tui \<Rightarrow> 'w tui" where
  "tui_fill x y w h ch fg bg st =
     st\<lparr>back_buffer := for_int 0 h (\<lambda>yy. for_int 0 w (\<lambda>xx b.
          if on_screen st (x + xx) (y + yy)
          then b(cell_at (x + xx) (y + yy) := \<lparr>character = ch, foreground = fg, background = bg, attributes = 0\<rparr>)
          else b)) (back_buffer st),
        dirty := True\<rparr>"

text \<open>The code point at the start of a string and the rest: two- and three-byte UTF-8 sequences are
  decoded, any other byte stands for itself.\<close>

definition cont :: "char \<Rightarrow> bool" where
  "cont c \<longleftrightarrow> ord c AND 0xC0 = 0x80"

fun next_cp :: "string \<Rightarrow> u32 \<times> string" where
  "next_cp [] = (0, [])"
| "next_cp (c # s) =
     (let cp = (ucast (ord c) :: u32) in
      if cp AND 0xE0 = 0xC0 \<and> s \<noteq> [] \<and> cont (hd s)
      then (push_bit 6 (cp AND 31) OR (ucast (ord (hd s)) AND 63), tl s)
      else if cp AND 0xF0 = 0xE0 \<and> 2 \<le> length s \<and> cont (s ! 0) \<and> cont (s ! 1)
      then (push_bit 12 (cp AND 15) OR push_bit 6 (ucast (ord (s ! 0)) AND 63) OR (ucast (ord (s ! 1)) AND 63), drop 2 s)
      else (cp, s))"

lemma length_next_cp: "s \<noteq> [] \<Longrightarrow> length (snd (next_cp s)) < length s"
  by (cases s) (auto simp: Let_def)

function text_cells :: "int \<Rightarrow> int \<Rightarrow> string \<Rightarrow> u32 list" where
  "text_cells limit cells s =
     (if s \<noteq> [] \<and> (limit < 0 \<or> cells < limit)
      then fst (next_cp s) # text_cells limit (cells + 1) (snd (next_cp s)) else [])"
  by pat_completeness auto
termination by (relation "measure (\<lambda>(l, c, s). length s)") (auto simp: length_next_cp)

declare text_cells.simps [simp del]

text \<open>The store of one code point; the attribute byte is kept.\<close>

definition put_cp :: "'w tui \<Rightarrow> int \<Rightarrow> int \<Rightarrow> u8 \<Rightarrow> u8 \<Rightarrow> u32 \<Rightarrow> (nat \<Rightarrow> tui_cell) \<Rightarrow> nat \<Rightarrow> tui_cell" where
  "put_cp st px y fg bg cp b =
     (if on_screen st px y
      then b(cell_at px y := (b (cell_at px y))\<lparr>character := cp, foreground := fg, background := bg\<rparr>) else b)"

definition tui_text :: "int \<Rightarrow> int \<Rightarrow> string \<Rightarrow> u8 \<Rightarrow> u8 \<Rightarrow> int \<Rightarrow> 'w tui \<Rightarrow> 'w tui" where
  "tui_text x y s fg bg limit st =
     st\<lparr>back_buffer := fold (\<lambda>(i, cp). put_cp st (x + int i) y fg bg cp) (enumerate 0 (text_cells limit 0 s)) (back_buffer st),
        dirty := True\<rparr>"

text \<open>A frame from its six characters, in the order of the source.\<close>

definition frame :: "u32 \<Rightarrow> u32 \<Rightarrow> u32 \<Rightarrow> u32 \<Rightarrow> u32 \<Rightarrow> u32 \<Rightarrow> int \<Rightarrow> int \<Rightarrow> int \<Rightarrow> int \<Rightarrow> u8 \<Rightarrow> u8 \<Rightarrow> 'w tui \<Rightarrow> 'w tui" where
  "frame ul ur ll lr hz vt x y w h fg bg st =
     (let st = for_int 1 (w - 1) (\<lambda>i st. tui_fill (x + i) (y + h - 1) 1 1 hz fg bg (tui_fill (x + i) y 1 1 hz fg bg st)) st;
          st = for_int 1 (h - 1) (\<lambda>i st. tui_fill (x + w - 1) (y + i) 1 1 vt fg bg (tui_fill x (y + i) 1 1 vt fg bg st)) st;
          st = tui_fill (x + w - 1) y 1 1 ur fg bg (tui_fill x y 1 1 ul fg bg st)
      in tui_fill (x + w - 1) (y + h - 1) 1 1 lr fg bg (tui_fill x (y + h - 1) 1 1 ll fg bg st))"

definition tui_box :: "int \<Rightarrow> int \<Rightarrow> int \<Rightarrow> int \<Rightarrow> bool \<Rightarrow> u8 \<Rightarrow> u8 \<Rightarrow> 'w tui \<Rightarrow> 'w tui" where
  "tui_box x y w h dbl fg bg st =
     (let st1 = tui_fill (x + 1) (y + 1) (w - 2) (h - 2) 32 fg bg st in
      if ascii_mode st then frame 43 43 43 43 45 124 x y w h fg bg st1
      else if dbl then frame 0x2554 0x2557 0x255A 0x255D 0x2550 0x2551 x y w h fg bg st1
      else frame 0x250C 0x2510 0x2514 0x2518 0x2500 0x2502 x y w h fg bg st1)"

definition tui_window_content_x :: "tui_window \<Rightarrow> int" where
  "tui_window_content_x w = wn_x w + 1"

definition tui_window_content_y :: "tui_window \<Rightarrow> int" where
  "tui_window_content_y w = (if wn_double_border w \<and> wn_title w \<noteq> [] then wn_y w + 3 else wn_y w + 1)"

text \<open>The title of a window with a double border, with the line below it.\<close>

definition double_title :: "tui_window \<Rightarrow> 'w tui \<Rightarrow> 'w tui" where
  "double_title w st =
     (let x = wn_x w; y = wn_y w; wi = wn_width w; t = theme st; n = int (text_len (wn_title w));
          st = tui_text (x + (wi - n) sdiv 2) (y + 1) (wn_title w) (title_fg t) (title_bg t) n st;
          st = tui_fill x (y + 2) 1 1 0x2560 (border_fg t) (border_bg t) st;
          st = for_int 1 (wi - 1) (\<lambda>i. tui_fill (x + i) (y + 2) 1 1 0x2550 (border_fg t) (border_bg t)) st
      in tui_fill (x + wi - 1) (y + 2) 1 1 0x2563 (border_fg t) (border_bg t) st)"

definition single_title :: "tui_window \<Rightarrow> 'w tui \<Rightarrow> 'w tui" where
  "single_title w st =
     (let t = theme st; n = int (text_len (wn_title w)); tx = wn_x w + (wn_width w - n) sdiv 2 - 1;
          st = tui_text tx (wn_y w) '' '' (title_fg t) (title_bg t) 1 st;
          st = tui_text (tx + 1) (wn_y w) (wn_title w) (title_fg t) (title_bg t) (wn_width w - 4) st
      in tui_text (tx + n + 1) (wn_y w) '' '' (title_fg t) (title_bg t) 1 st)"

definition tui_window_draw :: "tui_window \<Rightarrow> 'w tui \<Rightarrow> 'w tui" where
  "tui_window_draw w st =
     (if \<not> wn_visible w then st
      else let x = wn_x w; y = wn_y w; wi = wn_width w; he = wn_height w; t = theme st in
        if wn_double_border w then
          let st1 = frame 0x2554 0x2557 0x255A 0x255D 0x2550 0x2551 x y wi he (border_fg t) (border_bg t)
                (tui_fill (x + 1) (y + 1) (wi - 2) (he - 2) 32 (window_fg t) (window_bg t) st)
          in if wn_title w \<noteq> [] then double_title w st1 else st1
        else
          let st1 = tui_box x y wi he False (window_fg t) (window_bg t) st
          in if wn_title w \<noteq> [] then single_title w st1 else st1)"

section \<open>Starting and stopping\<close>

definition tui_widgets_reset :: "'w tui \<Rightarrow> 'w tui" where
  "tui_widgets_reset st = st\<lparr>used := 0\<rparr>"

definition tui_initialize :: "'w api \<Rightarrow> 'w tui \<Rightarrow> bool \<times> 'w tui" where
  "tui_initialize a st =
     (if version a < 3 then (False, st)
      else let (ok, w) = terminal_acquire a (world st); st = st\<lparr>world := w\<rparr> in
        if \<not> ok then (False, st)
        else let st = st\<lparr>swidth := min (terminal_width a w) SCREEN_STRIDE, sheight := min (terminal_height a w) SCREEN_ROWS\<rparr> in
          if swidth st < 40 \<or> sheight st < 15 then (False, st\<lparr>world := terminal_release a w\<rparr>)
          else (True, tui_widgets_reset (st\<lparr>ascii_mode := \<not> terminal_unicode a w, theme := tui_theme_dos,
            front_buffer := (\<lambda>i. if i < SCREEN_STRIDE * SCREEN_ROWS then (front_buffer st i)\<lparr>character := 0xFFFFFFFF\<rparr> else front_buffer st i),
            back_buffer := (\<lambda>i. if i < SCREEN_STRIDE * SCREEN_ROWS
               then \<lparr>character = 32, foreground = desktop_fg tui_theme_dos, background = desktop_bg tui_theme_dos, attributes = 0\<rparr>
               else back_buffer st i),
            window_used := 0, initialized := True, dirty := True\<rparr>)))"

definition tui_shutdown :: "'w api \<Rightarrow> 'w tui \<Rightarrow> 'w tui" where
  "tui_shutdown a st =
     (if \<not> initialized st then st
      else st\<lparr>world := terminal_release a (terminal_cursor a 0 0 False True (world st)), initialized := False\<rparr>)"

definition tui_use_ascii :: "bool \<Rightarrow> 'w tui \<Rightarrow> 'w tui" where
  "tui_use_ascii on st = st\<lparr>ascii_mode := on, dirty := True\<rparr>"

definition tui_set_theme :: "tui_theme \<Rightarrow> 'w tui \<Rightarrow> 'w tui" where
  "tui_set_theme t st = st\<lparr>theme := t, dirty := True\<rparr>"

section \<open>Windows\<close>

definition tui_app_create :: "string \<Rightarrow> 'w tui \<Rightarrow> 'w tui" where
  "tui_app_create nm st =
     st\<lparr>application := \<lparr>app_name = copy_text nm 64, running = True, redraw = True, app_windows = []\<rparr>\<rparr>"

text \<open>The clamping of a new window: at least one column and one row stay on the screen.\<close>

definition clamp_pos :: "int \<Rightarrow> int \<Rightarrow> int \<Rightarrow> int" where
  "clamp_pos x w sw = (let x = (if x + w < 1 then 1 - w else x) in if x \<ge> sw then sw - 1 else x)"

definition tui_window_create :: "int \<Rightarrow> int \<Rightarrow> int \<Rightarrow> int \<Rightarrow> string \<Rightarrow> u32 \<Rightarrow> 'w tui \<Rightarrow> nat option \<times> 'w tui" where
  "tui_window_create x y w h title flags st =
     (if window_used st \<ge> TUI_MAX_WINDOWS \<or> w < 4 \<or> h < 3 then (None, st)
      else let sw = int (swidth st); sh = int (sheight st); w = min w sw; h = min h sh;
               centred = (flags AND TUI_WINDOW_CENTER \<noteq> 0);
               x = clamp_pos (if centred then (sw - w) sdiv 2 else x) w sw;
               y = clamp_pos (if centred then (sh - h) sdiv 2 else y) h sh;
               v = window_used st; a = application st
           in (Some v, st\<lparr>windows := (windows st)[v := \<lparr>wn_x = x, wn_y = y, wn_width = w, wn_height = h,
                  wn_title = copy_text title 64, wn_flags = flags, wn_visible = True, wn_focused = True,
                  wn_double_border = (flags AND TUI_WINDOW_DOUBLE_BORDER \<noteq> 0 \<or> flags AND TUI_WINDOW_MODAL \<noteq> 0),
                  wn_children = [], wn_focus_index = 0\<rparr>],
                window_used := v + 1,
                application := (if length (app_windows a) < TUI_MAX_WINDOWS
                  then a\<lparr>app_windows := app_windows a @ [v]\<rparr> else a),
                dirty := True\<rparr>))"

definition set_visible :: "bool \<Rightarrow> nat \<Rightarrow> 'w tui \<Rightarrow> 'w tui" where
  "set_visible b v st = st\<lparr>windows := (windows st)[v := (windows st ! v)\<lparr>wn_visible := b\<rparr>], dirty := True\<rparr>"

definition tui_window_destroy :: "nat \<Rightarrow> 'w tui \<Rightarrow> 'w tui" where
  "tui_window_destroy = set_visible False"

definition tui_window_show :: "nat \<Rightarrow> 'w tui \<Rightarrow> 'w tui" where
  "tui_window_show = set_visible True"

definition tui_window_hide :: "nat \<Rightarrow> 'w tui \<Rightarrow> 'w tui" where
  "tui_window_hide = set_visible False"

definition tui_window_focus :: "nat \<Rightarrow> 'w tui \<Rightarrow> 'w tui" where
  "tui_window_focus v st =
     st\<lparr>windows := fold (\<lambda>i ws. ws[i := (ws ! i)\<lparr>wn_focused := (i = v)\<rparr>]) (app_windows (application st)) (windows st),
        dirty := True\<rparr>"

definition tui_request_redraw :: "'w tui \<Rightarrow> 'w tui" where
  "tui_request_redraw st = st\<lparr>application := (application st)\<lparr>redraw := True\<rparr>, dirty := True\<rparr>"

section \<open>Flushing the changed cells\<close>

definition flush_cell :: "'w api \<Rightarrow> nat \<Rightarrow> nat \<Rightarrow> 'w tui \<Rightarrow> 'w tui" where
  "flush_cell a x y st =
     (let i = y * SCREEN_STRIDE + x; b = back_buffer st i in
      if front_buffer st i \<noteq> b
      then st\<lparr>world := terminal_write_cell a x y (character b) (attr b) (world st), front_buffer := (front_buffer st)(i := b)\<rparr>
      else st)"

definition tui_flush :: "'w api \<Rightarrow> 'w tui \<Rightarrow> 'w tui" where
  "tui_flush a st =
     (fold (\<lambda>y. fold (\<lambda>x. flush_cell a x y) [0..<swidth st]) [0..<sheight st] st)\<lparr>dirty := False\<rparr>"

section \<open>Events\<close>

definition tui_next_event :: "'w api \<Rightarrow> 'w tui \<Rightarrow> tui_event \<times> 'w tui" where
  "tui_next_event a st =
     (case posted st of Some e \<Rightarrow> (e, st\<lparr>posted := None\<rparr>)
      | None \<Rightarrow> let (k, w) = terminal_read_key a (world st)
          in (\<lparr>ev_type = (if k = 3 then TUI_EVENT_CLOSE else TUI_EVENT_KEY), ev_key = k, ev_modifiers = 0, ev_timestamp = 0\<rparr>,
              st\<lparr>world := w\<rparr>))"

definition tui_post_event :: "tui_event \<Rightarrow> 'w tui \<Rightarrow> 'w tui" where
  "tui_post_event e st = st\<lparr>posted := Some e\<rparr>"

section \<open>Cells of the back buffer\<close>

definition screen_ok :: "'w tui \<Rightarrow> bool" where
  "screen_ok st \<longleftrightarrow> swidth st \<le> SCREEN_STRIDE \<and> sheight st \<le> SCREEN_ROWS"

text \<open>The geometry and everything but the back buffer and the dirty flag are kept by drawing, and a changed
  buffer is marked.\<close>

definition drawn :: "'w tui \<Rightarrow> 'w tui \<Rightarrow> bool" where
  "drawn st st' \<longleftrightarrow> (\<exists>b d. st' = st\<lparr>back_buffer := b, dirty := d\<rparr> \<and> (d \<or> \<not> dirty st \<and> b = back_buffer st))"

lemma drawn_refl [simp]: "drawn st st"
  unfolding drawn_def by (intro exI [of _ "back_buffer st"] exI [of _ "dirty st"]) simp

lemma drawn_trans [trans]:
  assumes "drawn st st'" and "drawn st' st''"
  shows "drawn st st''"
proof -
  obtain b d b' d' where "st' = st\<lparr>back_buffer := b, dirty := d\<rparr>" "d \<or> \<not> dirty st \<and> b = back_buffer st"
    "st'' = st'\<lparr>back_buffer := b', dirty := d'\<rparr>" "d' \<or> \<not> dirty st' \<and> b' = back_buffer st'"
    using assms unfolding drawn_def by blast
  then have "st'' = st\<lparr>back_buffer := b', dirty := d'\<rparr>" "d' \<or> \<not> dirty st \<and> b' = back_buffer st" by auto
  then show ?thesis unfolding drawn_def by blast
qed

lemma drawn_fill [simp]: "drawn st (tui_fill x y w h ch fg bg st)"
  unfolding drawn_def tui_fill_def by blast

lemma drawn_text [simp]: "drawn st (tui_text x y s fg bg l st)"
  unfolding drawn_def tui_text_def by blast

lemma drawn_fold: "(\<And>i st. drawn st (f i st)) \<Longrightarrow> drawn st (fold f xs st)"
  by (induction xs arbitrary: st) (auto intro: drawn_trans)

lemma drawn_for_int: "(\<And>i st. drawn st (f i st)) \<Longrightarrow> drawn st (for_int a b f st)"
  unfolding for_int_def by (rule drawn_fold)

lemma drawn_frame [simp]: "drawn st (frame ul ur ll lr hz vt x y w h fg bg st)"
  unfolding frame_def Let_def by (intro drawn_trans [OF _ drawn_fill] drawn_trans [OF drawn_for_int drawn_for_int] drawn_trans [OF drawn_fill drawn_fill])

lemma drawn_simps:
  assumes "drawn st st'"
  shows "swidth st' = swidth st" "sheight st' = sheight st" "theme st' = theme st" "ascii_mode st' = ascii_mode st"
    "front_buffer st' = front_buffer st" "world st' = world st" "windows st' = windows st" "widgets st' = widgets st"
    "on_screen st' = on_screen st" "screen_ok st' = screen_ok st" "application st' = application st"
  using assms by (auto simp: drawn_def on_screen_def fun_eq_iff screen_ok_def)

lemma drawn_marks: "drawn st st' \<Longrightarrow> initialized st' = initialized st \<and> (dirty st' \<or> \<not> dirty st \<and> back_buffer st' = back_buffer st)"
  by (auto simp: drawn_def)

lemma cell_at_inj:
  assumes "on_screen st x y" and "on_screen st x' y'" and "screen_ok st"
  shows "cell_at x y = cell_at x' y' \<longleftrightarrow> x = x' \<and> y = y'"
proof -
  have b: "0 \<le> x" "x < 216" "0 \<le> y" "0 \<le> x'" "x' < 216" "0 \<le> y'"
    using assms by (auto simp: on_screen_def screen_ok_def SCREEN_STRIDE_def)
  have d: "(v * 216 + u) div 216 = v" if "0 \<le> u" "u < 216" for u v :: int
    using that by (simp add: div_pos_pos_trivial)
  have "x = x' \<and> y = y'" if e: "y * 216 + x = y' * 216 + x'"
  proof -
    have "y = y'" using e d [OF b(1,2), of y] d [OF b(4,5), of y'] by metis
    with e show ?thesis by simp
  qed
  then show ?thesis using b by (auto simp: cell_at_def SCREEN_STRIDE_def)
qed

definition in_rect :: "int \<Rightarrow> int \<Rightarrow> int \<Rightarrow> int \<Rightarrow> int \<Rightarrow> int \<Rightarrow> bool" where
  "in_rect x y w h px py \<longleftrightarrow> x \<le> px \<and> px < x + w \<and> y \<le> py \<and> py < y + h"

abbreviation cell :: "u32 \<Rightarrow> u8 \<Rightarrow> u8 \<Rightarrow> tui_cell" where
  "cell ch fg bg \<equiv> \<lparr>character = ch, foreground = fg, background = bg, attributes = 0\<rparr>"

text \<open>A filled rectangle sets exactly its cells that are on the screen.\<close>

lemma fill_row:
  assumes "screen_ok st" and "on_screen st px py"
  shows "for_int 0 w (\<lambda>xx b. if on_screen st (x + xx) yy then b(cell_at (x + xx) yy := c) else b) b (cell_at px py) =
    (if x \<le> px \<and> px < x + w \<and> yy = py then c else b (cell_at px py))"
proof -
  let ?P = "\<lambda>k b'. b' (cell_at px py) = (if x \<le> px \<and> px < x + int k \<and> yy = py then c else b (cell_at px py))"
  have "?P (nat (w - 0)) (for_int 0 w (\<lambda>xx b. if on_screen st (x + xx) yy then b(cell_at (x + xx) yy := c) else b) b)"
  proof (rule for_int_invariant [where P = ?P])
    fix k :: nat and t
    assume "t (cell_at px py) = (if x \<le> px \<and> px < x + int k \<and> yy = py then c else b (cell_at px py))"
    then show "(if on_screen st (x + (0 + int k)) yy then t(cell_at (x + (0 + int k)) yy := c) else t) (cell_at px py) =
        (if x \<le> px \<and> px < x + int (Suc k) \<and> yy = py then c else b (cell_at px py))"
      using cell_at_inj [OF assms(2) _ assms(1), of "x + int k" yy] assms(2) by auto
  qed auto
  then show ?thesis by (cases "0 \<le> w") auto
qed

lemma tui_fill_cell:
  assumes "screen_ok st" and "on_screen st px py"
  shows "back_buffer (tui_fill x y w h ch fg bg st) (cell_at px py) =
    (if in_rect x y w h px py then cell ch fg bg else back_buffer st (cell_at px py))"
proof -
  let ?f = "\<lambda>yy. for_int 0 w (\<lambda>xx b. if on_screen st (x + xx) (y + yy)
      then b(cell_at (x + xx) (y + yy) := cell ch fg bg) else b)"
  let ?P = "\<lambda>k b'. b' (cell_at px py) = (if in_rect x y w (int k) px py then cell ch fg bg else back_buffer st (cell_at px py))"
  have "?P (nat (h - 0)) (for_int 0 h ?f (back_buffer st))"
  proof (rule for_int_invariant [where P = ?P])
    fix k :: nat and t
    assume "t (cell_at px py) = (if in_rect x y w (int k) px py then cell ch fg bg else back_buffer st (cell_at px py))"
    then show "?f (0 + int k) t (cell_at px py) =
        (if in_rect x y w (int (Suc k)) px py then cell ch fg bg else back_buffer st (cell_at px py))"
      unfolding fill_row [OF assms] by (auto simp: in_rect_def)
  qed (auto simp: in_rect_def)
  then show ?thesis by (cases "0 \<le> h") (auto simp: tui_fill_def in_rect_def)
qed

lemma drawn_fill_cell:
  assumes "screen_ok st" and "on_screen st px py" and "drawn st st'"
  shows "back_buffer (tui_fill x y w h ch fg bg st') (cell_at px py) =
    (if in_rect x y w h px py then cell ch fg bg else back_buffer st' (cell_at px py))"
  using assms tui_fill_cell [of st' px py] by (simp add: drawn_simps)

lemma in_rect_one [simp]: "in_rect x y 1 1 px py \<longleftrightarrow> px = x \<and> py = y"
  by (auto simp: in_rect_def)

lemma ex_int_Suc:
  "(\<exists>i. a \<le> i \<and> i < a + int (Suc k) \<and> H i) \<longleftrightarrow> (\<exists>i. a \<le> i \<and> i < a + int k \<and> H i) \<or> H (a + int k)"
proof -
  have "i < a + int (Suc k) \<longleftrightarrow> i < a + int k \<or> i = a + int k" for i by auto
  moreover have "a \<le> a + int k" by simp
  ultimately show ?thesis by blast
qed

text \<open>A loop that sets two single cells in each round.\<close>

lemma pair_loop_cell:
  fixes X Y X' Y' :: "int \<Rightarrow> int"
  assumes "screen_ok st" and "on_screen st px py" and "drawn st st0"
  shows "back_buffer (for_int a b (\<lambda>i st. tui_fill (X' i) (Y' i) 1 1 ch fg bg (tui_fill (X i) (Y i) 1 1 ch fg bg st)) st0) (cell_at px py) =
    (if \<exists>i. a \<le> i \<and> i < b \<and> (px = X i \<and> py = Y i \<or> px = X' i \<and> py = Y' i) then cell ch fg bg
     else back_buffer st0 (cell_at px py))"
proof -
  let ?f = "\<lambda>i st. tui_fill (X' i) (Y' i) 1 1 ch fg bg (tui_fill (X i) (Y i) 1 1 ch fg bg st)"
  let ?hit = "\<lambda>i. px = X i \<and> py = Y i \<or> px = X' i \<and> py = Y' i"
  let ?P = "\<lambda>k t. drawn st t \<and> back_buffer t (cell_at px py) =
    (if \<exists>i. a \<le> i \<and> i < a + int k \<and> ?hit i then cell ch fg bg else back_buffer st0 (cell_at px py))"
  have P: "?P (nat (b - a)) (for_int a b ?f st0)"
  proof (rule for_int_invariant [where P = ?P])
    fix k t
    assume t: "?P k t"
    then have d: "drawn st t" by blast
    have d1: "drawn st (tui_fill (X (a + int k)) (Y (a + int k)) 1 1 ch fg bg t)"
      by (rule drawn_trans [OF d drawn_fill])
    have e: "(\<exists>i. a \<le> i \<and> i < a + int (Suc k) \<and> ?hit i) \<longleftrightarrow> (\<exists>i. a \<le> i \<and> i < a + int k \<and> ?hit i) \<or> ?hit (a + int k)"
      by (rule ex_int_Suc)
    have u: "back_buffer (?f (a + int k) t) (cell_at px py) =
        (if ?hit (a + int k) then cell ch fg bg else back_buffer t (cell_at px py))"
      unfolding drawn_fill_cell [OF assms(1,2) d1] drawn_fill_cell [OF assms(1,2) d] in_rect_one by argo
    show "?P (Suc k) (?f (a + int k) t)"
      unfolding e u conjunct2 [OF t] by (intro conjI drawn_trans [OF d1 drawn_fill]) auto
  qed (use assms(3) in auto)
  show ?thesis
  proof (cases "a \<le> b")
    case True
    with P show ?thesis by simp
  next
    case False
    then have no: "\<not> (a \<le> i \<and> i < b \<and> ?hit i)" for i by linarith
    have h: "\<not> (\<exists>i. a \<le> i \<and> i < b \<and> ?hit i)" using no by blast
    show ?thesis using False unfolding if_not_P [OF h] by simp
  qed
qed

text \<open>The character a frame has at a position of the screen, \<open>None\<close> where it has none.\<close>

definition frame_char :: "u32 \<times> u32 \<times> u32 \<times> u32 \<times> u32 \<times> u32 \<Rightarrow> int \<Rightarrow> int \<Rightarrow> int \<Rightarrow> int \<Rightarrow> int \<Rightarrow> int \<Rightarrow> u32 option" where
  "frame_char = (\<lambda>(ul, ur, ll, lr, hz, vt) x y w h px py.
     if \<not> in_rect x y w h px py then None
     else if py = y then Some (if px = x then ul else if px = x + w - 1 then ur else hz)
     else if py = y + h - 1 then Some (if px = x then ll else if px = x + w - 1 then lr else hz)
     else if px = x \<or> px = x + w - 1 then Some vt else None)"

lemma frame_cell:
  assumes "screen_ok st" and "on_screen st px py" and "drawn st st0" and "2 \<le> w" and "2 \<le> h"
  shows "back_buffer (frame ul ur ll lr hz vt x y w h fg bg st0) (cell_at px py) =
    (case frame_char (ul, ur, ll, lr, hz, vt) x y w h px py of Some c \<Rightarrow> cell c fg bg
     | None \<Rightarrow> back_buffer st0 (cell_at px py))"
proof -
  define st1 where "st1 = for_int 1 (w - 1) (\<lambda>i st. tui_fill (x + i) (y + h - 1) 1 1 hz fg bg (tui_fill (x + i) y 1 1 hz fg bg st)) st0"
  define st2 where "st2 = for_int 1 (h - 1) (\<lambda>i st. tui_fill (x + w - 1) (y + i) 1 1 vt fg bg (tui_fill x (y + i) 1 1 vt fg bg st)) st1"
  have d1: "drawn st st1" unfolding st1_def
    by (intro drawn_trans [OF assms(3)] drawn_for_int drawn_trans [OF drawn_fill drawn_fill])
  have d2: "drawn st st2" unfolding st2_def
    by (intro drawn_trans [OF d1] drawn_for_int drawn_trans [OF drawn_fill drawn_fill])
  note d3 = drawn_trans [OF d2 drawn_fill]
  note d4 = drawn_trans [OF d3 drawn_fill]
  note d5 = drawn_trans [OF d4 drawn_fill]
  note c1 = pair_loop_cell [OF assms(1,2,3), of 1 "w - 1" "\<lambda>i. x + i" "\<lambda>i. y + h - 1" hz fg bg "\<lambda>i. x + i" "\<lambda>i. y", folded st1_def]
  note c2 = pair_loop_cell [OF assms(1,2) d1, of 1 "h - 1" "\<lambda>i. x + w - 1" "\<lambda>i. y + i" vt fg bg "\<lambda>i. x" "\<lambda>i. y + i", folded st2_def]
  have h: "(\<exists>i. 1 \<le> i \<and> i < w - 1 \<and> (px = x + i \<and> py = y \<or> px = x + i \<and> py = y + h - 1)) \<longleftrightarrow>
      x < px \<and> px < x + w - 1 \<and> (py = y \<or> py = y + h - 1)"
    by (auto intro!: exI [of _ "px - x"])
  have v: "(\<exists>i. 1 \<le> i \<and> i < h - 1 \<and> (px = x \<and> py = y + i \<or> px = x + w - 1 \<and> py = y + i)) \<longleftrightarrow>
      y < py \<and> py < y + h - 1 \<and> (px = x \<or> px = x + w - 1)"
    by (auto intro!: exI [of _ "py - y"])
  show ?thesis
    unfolding frame_def Let_def st1_def [symmetric] st2_def [symmetric]
    using assms(4,5)
    by (simp add: drawn_fill_cell [OF assms(1,2) d2] drawn_fill_cell [OF assms(1,2) d3]
        drawn_fill_cell [OF assms(1,2) d4] drawn_fill_cell [OF assms(1,2) d5] c1 c2 h v frame_char_def in_rect_def)
      auto
qed

definition box_chars :: "bool \<Rightarrow> bool \<Rightarrow> u32 \<times> u32 \<times> u32 \<times> u32 \<times> u32 \<times> u32" where
  "box_chars ascii dbl =
     (if ascii then (43, 43, 43, 43, 45, 124)
      else if dbl then (0x2554, 0x2557, 0x255A, 0x255D, 0x2550, 0x2551)
      else (0x250C, 0x2510, 0x2514, 0x2518, 0x2500, 0x2502))"

lemma tui_box_eq:
  "tui_box x y w h dbl fg bg st = (case box_chars (ascii_mode st) dbl of (ul, ur, ll, lr, hz, vt) \<Rightarrow>
     frame ul ur ll lr hz vt x y w h fg bg (tui_fill (x + 1) (y + 1) (w - 2) (h - 2) 32 fg bg st))"
  by (simp add: tui_box_def box_chars_def)

lemma frame_char_None:
  assumes "2 \<le> w" and "2 \<le> h"
  shows "in_rect (x + 1) (y + 1) (w - 2) (h - 2) px py \<longleftrightarrow>
    in_rect x y w h px py \<and> frame_char cs x y w h px py = None"
  using assms by (cases cs) (auto simp: frame_char_def in_rect_def)

text \<open>C23: A box of at least two rows and two columns, anywhere on or off the screen, sets each visible
  cell of its rectangle to the corner, edge or blank that belongs there, in the characters of the
  mode, and changes no other visible cell.\<close>

theorem tui_box_cells:
  assumes "screen_ok st" and "on_screen st px py" and "2 \<le> w" and "2 \<le> h"
  shows "back_buffer (tui_box x y w h dbl fg bg st) (cell_at px py) =
    (if in_rect x y w h px py
     then cell (case frame_char (box_chars (ascii_mode st) dbl) x y w h px py of Some c \<Rightarrow> c | None \<Rightarrow> 32) fg bg
     else back_buffer st (cell_at px py))"
proof -
  obtain ul ur ll lr hz vt where b: "box_chars (ascii_mode st) dbl = (ul, ur, ll, lr, hz, vt)"
    by (cases "box_chars (ascii_mode st) dbl") auto
  have "frame_char (ul, ur, ll, lr, hz, vt) x y w h px py = Some c \<Longrightarrow> in_rect x y w h px py" for c
    by (auto simp: frame_char_def split: if_splits)
  then show ?thesis
    by (auto simp: tui_box_eq b frame_cell [OF assms(1,2) drawn_fill assms(3,4)]
        drawn_fill_cell [OF assms(1,2) drawn_refl] frame_char_None [OF assms(3,4), of x y px py "(ul, ur, ll, lr, hz, vt)"]
        split: option.split)
qed

theorem tui_box_cells_witness:
  "back_buffer (tui_box (-1) 3 10 4 True 15 1 (tui_statics ())) (cell_at 0 6) = cell 0x2550 15 1 \<and>
   back_buffer (tui_box (-1) 3 10 4 True 15 1 (tui_statics ())) (cell_at 9 6) = blank_cell"
proof -
  have s: "screen_ok (tui_statics ())" by (simp add: screen_ok_def tui_statics_def SCREEN_STRIDE_def SCREEN_ROWS_def)
  have o: "on_screen (tui_statics ()) 0 6" "on_screen (tui_statics ()) 9 6" by (simp_all add: on_screen_def tui_statics_def)
  show ?thesis
    using tui_box_cells [OF s o(1), of 10 4 "-1" 3 True 15 1] tui_box_cells [OF s o(2), of 10 4 "-1" 3 True 15 1]
    by (simp add: in_rect_def frame_char_def box_chars_def tui_statics_def)
qed

section \<open>Window placement\<close>

lemma clamp_pos_visible:
  assumes "1 \<le> w" and "1 \<le> sw"
  shows "\<exists>p. clamp_pos x w sw \<le> p \<and> p < clamp_pos x w sw + w \<and> 0 \<le> p \<and> p < sw"
  using assms by (intro exI [of _ "max 0 (clamp_pos x w sw)"]) (auto simp: clamp_pos_def Let_def)

lemma clamp_pos_inside: "0 \<le> x \<Longrightarrow> 1 \<le> w \<Longrightarrow> x + w \<le> sw \<Longrightarrow> clamp_pos x w sw = x"
  by (simp add: clamp_pos_def)

lemma sdiv_two: "0 \<le> n \<Longrightarrow> n sdiv 2 = n div 2" for n :: int
  by (simp add: signed_divide_int_def sgn_if)

lemma clamp_pos_centre:
  assumes "w \<le> sw" and "1 \<le> w" and "clamp_pos ((sw - w) sdiv 2) w sw \<le> p" and "p < clamp_pos ((sw - w) sdiv 2) w sw + w"
  shows "0 \<le> p \<and> p < sw"
proof -
  have "clamp_pos ((sw - w) sdiv 2) w sw = (sw - w) div 2"
    using assms(1,2) by (subst sdiv_two) (simp_all add: clamp_pos_inside)
  with assms show ?thesis by auto
qed

text \<open>C24: Every window the library hands out lies in its table, is no larger than the screen and keeps
  at least one cell on the screen, wherever it was asked to be; a centred one lies entirely on it.\<close>

theorem tui_window_create_on_screen:
  assumes "tui_window_create x y w h title flags st = (Some v, st')"
    and "0 < swidth st" and "0 < sheight st" and "length (windows st) = TUI_MAX_WINDOWS" and "n = windows st' ! v"
  shows "v < TUI_MAX_WINDOWS \<and> window_used st' = v + 1 \<and> length (windows st') = TUI_MAX_WINDOWS \<and>
    wn_width n \<le> int (swidth st) \<and> wn_height n \<le> int (sheight st) \<and>
    (\<exists>px py. on_screen st px py \<and> in_rect (wn_x n) (wn_y n) (wn_width n) (wn_height n) px py) \<and>
    (flags AND TUI_WINDOW_CENTER \<noteq> 0 \<longrightarrow>
      (\<forall>px py. in_rect (wn_x n) (wn_y n) (wn_width n) (wn_height n) px py \<longrightarrow> on_screen st px py))"
proof -
  let ?w = "min w (int (swidth st))" and ?h = "min h (int (sheight st))"
  let ?c = "flags AND TUI_WINDOW_CENTER \<noteq> 0"
  let ?x = "clamp_pos (if ?c then (int (swidth st) - ?w) sdiv 2 else x) ?w (int (swidth st))"
  let ?y = "clamp_pos (if ?c then (int (sheight st) - ?h) sdiv 2 else y) ?h (int (sheight st))"
  have g: "\<not> (window_used st \<ge> TUI_MAX_WINDOWS \<or> w < 4 \<or> h < 3)"
    using assms(1) by (auto simp: tui_window_create_def split: if_splits)
  have v: "v = window_used st" and n: "wn_x n = ?x" "wn_y n = ?y" "wn_width n = ?w" "wn_height n = ?h"
    and l: "length (windows st') = TUI_MAX_WINDOWS" "window_used st' = v + 1"
    using g assms(1,4,5) by (auto simp: tui_window_create_def Let_def)
  have p: "1 \<le> ?w" "1 \<le> ?h" "1 \<le> int (swidth st)" "1 \<le> int (sheight st)" using g assms(2,3) by auto
  obtain px py where "?x \<le> px \<and> px < ?x + ?w \<and> 0 \<le> px \<and> px < int (swidth st)"
    "?y \<le> py \<and> py < ?y + ?h \<and> 0 \<le> py \<and> py < int (sheight st)"
    using clamp_pos_visible [OF p(1,3)] clamp_pos_visible [OF p(2,4)] by metis
  then have vis: "\<exists>px py. on_screen st px py \<and> in_rect ?x ?y ?w ?h px py"
    by (intro exI [of _ px] exI [of _ py]) (simp add: on_screen_def in_rect_def nat_less_iff)
  have "on_screen st px py" if c: ?c and r: "in_rect ?x ?y ?w ?h px py" for px py
    using clamp_pos_centre [OF _ p(1), of "int (swidth st)" px] clamp_pos_centre [OF _ p(2), of "int (sheight st)" py] r
    unfolding if_P [OF c] in_rect_def on_screen_def by simp
  with g v n l vis show ?thesis by simp
qed

theorem tui_window_create_on_screen_witness:
  "wn_width (windows (snd (tui_window_create 500 (-90) 200 9 ''big'' 0 (tui_statics ()))) ! 0) \<le> 80"
  using tui_window_create_on_screen [of 500 "-90" 200 9 "''big''" 0 "tui_statics ()" 0
    "snd (tui_window_create 500 (-90) 200 9 ''big'' 0 (tui_statics ()))"]
  by (simp add: tui_statics_def tui_window_create_def Let_def TUI_MAX_WINDOWS_def)

section \<open>The terminal\<close>

text \<open>
  What the library relies on in the terminal: in a usable state, a write inside the terminal's
  size sets the cell to the glyph of the character and the attribute, and changes no other cell;
  moving the cursor and waiting for a key change no cell.
\<close>

locale terminal =
  fixes a :: "'w api" and usable :: "'w \<Rightarrow> bool" and shown :: "'w \<Rightarrow> nat \<Rightarrow> nat \<Rightarrow> u8 \<times> u8" and glyph :: "u32 \<Rightarrow> u8"
  assumes usable_write: "usable w \<Longrightarrow> usable (terminal_write_cell a x y ch at w)"
    and width_write: "terminal_width a (terminal_write_cell a x y ch at w) = terminal_width a w"
    and height_write: "terminal_height a (terminal_write_cell a x y ch at w) = terminal_height a w"
    and shown_write: "usable w \<Longrightarrow> x < terminal_width a w \<Longrightarrow> y < terminal_height a w \<Longrightarrow>
      x' < terminal_width a w \<Longrightarrow> y' < terminal_height a w \<Longrightarrow>
      shown (terminal_write_cell a x y ch at w) x' y' = (if x' = x \<and> y' = y then (glyph ch, at) else shown w x' y')"
    and cursor_keeps: "usable w \<Longrightarrow> usable (terminal_cursor a i j v b w) \<and> shown (terminal_cursor a i j v b w) = shown w \<and>
      terminal_width a (terminal_cursor a i j v b w) = terminal_width a w \<and>
      terminal_height a (terminal_cursor a i j v b w) = terminal_height a w"
    and key_keeps: "usable w \<Longrightarrow> usable (snd (terminal_read_key a w)) \<and> shown (snd (terminal_read_key a w)) = shown w \<and>
      terminal_width a (snd (terminal_read_key a w)) = terminal_width a w \<and>
      terminal_height a (snd (terminal_read_key a w)) = terminal_height a w"
begin

definition shows_cell :: "'w \<Rightarrow> nat \<Rightarrow> nat \<Rightarrow> tui_cell \<Rightarrow> bool" where
  "shows_cell w x y b \<longleftrightarrow> shown w x y = (glyph (character b), attr b)"

text \<open>The screen of the library fits the terminal.\<close>

definition fits :: "'w tui \<Rightarrow> bool" where
  "fits st \<longleftrightarrow> usable (world st) \<and> swidth st \<le> terminal_width a (world st) \<and> swidth st \<le> SCREEN_STRIDE \<and>
     sheight st \<le> terminal_height a (world st)"

text \<open>The front buffer agrees with the terminal, except where \<open>tui_initialize\<close> marked it unknown.\<close>

definition in_sync :: "'w tui \<Rightarrow> bool" where
  "in_sync st \<longleftrightarrow> (\<forall>x < swidth st. \<forall>y < sheight st. let f = front_buffer st (y * SCREEN_STRIDE + x) in
     character f = 0xFFFFFFFF \<or> shows_cell (world st) x y f)"

definition flushed :: "'w tui \<Rightarrow> nat \<Rightarrow> nat \<Rightarrow> bool" where
  "flushed st x y \<longleftrightarrow> front_buffer st (y * SCREEN_STRIDE + x) = back_buffer st (y * SCREEN_STRIDE + x)"

lemma cell_index_inj:
  assumes "x < SCREEN_STRIDE" and "x' < SCREEN_STRIDE"
  shows "y * SCREEN_STRIDE + x = y' * SCREEN_STRIDE + x' \<longleftrightarrow> x = x' \<and> y = y'"
proof
  assume e: "y * SCREEN_STRIDE + x = y' * SCREEN_STRIDE + x'"
  then have "(x + SCREEN_STRIDE * y) div SCREEN_STRIDE = (x' + SCREEN_STRIDE * y') div SCREEN_STRIDE"
    by (simp add: ac_simps)
  then have "y = y'" using assms by (simp add: SCREEN_STRIDE_def)
  with e show "x = x' \<and> y = y'" by simp
qed simp

lemma flush_cell_keeps:
  "swidth (flush_cell a x y st) = swidth st" "sheight (flush_cell a x y st) = sheight st"
  "back_buffer (flush_cell a x y st) = back_buffer st"
  by (simp_all add: flush_cell_def Let_def)

lemma fits_flush_cell: "fits st \<Longrightarrow> fits (flush_cell a x y st)"
  by (auto simp: fits_def flush_cell_def Let_def usable_write width_write height_write)

lemma in_sync_flush_cell:
  assumes "in_sync st" and "fits st" and "x < swidth st" and "y < sheight st"
  shows "in_sync (flush_cell a x y st)"
  unfolding in_sync_def flush_cell_keeps
proof (intro allI impI)
  fix x' y' assume b: "x' < swidth st" "y' < sheight st"
  have s: "x' < SCREEN_STRIDE" "x < SCREEN_STRIDE" using b assms by (auto simp: fits_def)
  have "shown (terminal_write_cell a x y c at (world st)) x' y' = (if x' = x \<and> y' = y then (glyph c, at) else shown (world st) x' y')" for c at
    using assms b by (intro shown_write) (auto simp: fits_def)
  with assms(1) b show "let f = front_buffer (flush_cell a x y st) (y' * SCREEN_STRIDE + x')
     in character f = 0xFFFFFFFF \<or> shows_cell (world (flush_cell a x y st)) x' y' f"
    by (auto simp: flush_cell_def Let_def shows_cell_def in_sync_def cell_index_inj [OF s])
qed

lemma flushed_flush_cell: "flushed (flush_cell a x y st) x' y' \<longleftrightarrow> flushed st x' y' \<or> y' * SCREEN_STRIDE + x' = y * SCREEN_STRIDE + x"
  by (auto simp: flush_cell_def flushed_def Let_def)

text \<open>The cells of a list are flushed one after the other.\<close>

definition flush_cells :: "(nat \<times> nat) list \<Rightarrow> 'w tui \<Rightarrow> 'w tui" where
  "flush_cells ps = fold (\<lambda>(x, y). flush_cell a x y) ps"

lemma tui_flush_cells:
  "tui_flush a st = (flush_cells (concat (map (\<lambda>y. map (\<lambda>x. (x, y)) [0..<swidth st]) [0..<sheight st])) st)\<lparr>dirty := False\<rparr>"
proof -
  have "fold (\<lambda>y. fold (\<lambda>x. flush_cell a x y) xs) ys s = flush_cells (concat (map (\<lambda>y. map (\<lambda>x. (x, y)) xs) ys)) s" for xs ys s
    by (induction ys arbitrary: s) (simp_all add: flush_cells_def fold_map comp_def)
  then show ?thesis by (simp add: tui_flush_def)
qed

lemma flush_cells_inv:
  assumes "fits st" and "in_sync st" and "\<forall>(x, y)\<in>set ps. x < swidth st \<and> y < sheight st"
  shows "fits (flush_cells ps st) \<and> in_sync (flush_cells ps st) \<and>
    swidth (flush_cells ps st) = swidth st \<and> sheight (flush_cells ps st) = sheight st \<and>
    back_buffer (flush_cells ps st) = back_buffer st \<and>
    (\<forall>x y. flushed st x y \<or> (x, y) \<in> set ps \<longrightarrow> flushed (flush_cells ps st) x y)"
  using assms
proof (induction ps arbitrary: st)
  case Nil
  then show ?case by (simp add: flush_cells_def)
next
  case (Cons p ps)
  obtain x y where p: "p = (x, y)" by (cases p)
  have b: "x < swidth st" "y < sheight st" using Cons.prems(3) p by auto
  have "flush_cells (p # ps) st = flush_cells ps (flush_cell a x y st)" by (simp add: flush_cells_def p)
  moreover note Cons.IH [of "flush_cell a x y st"]
  moreover have "\<forall>(x', y')\<in>set ps. x' < swidth (flush_cell a x y st) \<and> y' < sheight (flush_cell a x y st)"
    using Cons.prems(3) by (simp add: flush_cell_keeps)
  moreover note fits_flush_cell [OF Cons.prems(1)] in_sync_flush_cell [OF Cons.prems(2,1) b]
  ultimately show ?case by (simp add: flush_cell_keeps flushed_flush_cell p)
qed

lemma in_sync_shows:
  assumes "in_sync st" and "flushed st x y" and "x < swidth st" and "y < sheight st"
    and "character (back_buffer st (y * SCREEN_STRIDE + x)) \<noteq> 0xFFFFFFFF"
  shows "shows_cell (world st) x y (back_buffer st (y * SCREEN_STRIDE + x))"
  using assms unfolding in_sync_def flushed_def Let_def by metis

text \<open>A flush keeps the buffers in step with the terminal and leaves no cell that differs.\<close>

definition all_flushed :: "'w tui \<Rightarrow> bool" where
  "all_flushed st \<longleftrightarrow> (\<forall>x < swidth st. \<forall>y < sheight st. flushed st x y)"

lemma tui_flush_keeps:
  assumes "fits st" and "in_sync st"
  shows "fits (tui_flush a st) \<and> in_sync (tui_flush a st) \<and> all_flushed (tui_flush a st)"
proof -
  define ps where "ps = concat (map (\<lambda>y. map (\<lambda>x. (x, y)) [0..<swidth st]) [0..<sheight st])"
  have "\<forall>(x, y)\<in>set ps. x < swidth st \<and> y < sheight st" by (auto simp: ps_def)
  moreover have c: "(x, y) \<in> set ps" if "x < swidth st" "y < sheight st" for x y using that by (auto simp: ps_def image_iff)
  ultimately have f: "fits (flush_cells ps st)" "in_sync (flush_cells ps st)" "swidth (flush_cells ps st) = swidth st"
    "sheight (flush_cells ps st) = sheight st" "\<forall>x y. (x, y) \<in> set ps \<longrightarrow> flushed (flush_cells ps st) x y"
    using flush_cells_inv [OF assms, of ps] by simp_all
  have e: "tui_flush a st = (flush_cells ps st)\<lparr>dirty := False\<rparr>" by (simp add: tui_flush_cells ps_def)
  show ?thesis using f c unfolding e by (simp add: fits_def in_sync_def all_flushed_def flushed_def)
qed

end

end
