(* ===== verification/TUI_Widgets.thy ===== *)
theory TUI_Widgets
  imports TUI_Screen
begin

text \<open>
  The widgets of the text user-interface library: \<^verbatim>\<open>src/user/libtui/widgets.c\<close> and the rendering and
  event loop of \<^verbatim>\<open>src/user/libtui/screen.c\<close>.

  A pointer to a window or a widget is the index of its slot, a null pointer \<open>None\<close>; a null text
  is treated by the code as the empty one. \<open>size_t\<close> values are natural numbers, \<open>usz\<close> converts an
  \<open>int\<close> to them and \<open>cint\<close> converts back. A callback is a number; what it does is the argument
  \<open>run\<close>. An array access out of bounds gives \<open>None\<close>.

  The results: a text box implements a text with a cursor; and every run of a program over a terminal
  that meets the locale \<open>terminal\<close> keeps the buffers in step with it, so that a rendering shows the back
  buffer. Coordinates and sizes are those of programs that stay inside the range of \<open>int\<close>.
\<close>

section \<open>Widgets\<close>

definition usz :: "int \<Rightarrow> nat" where
  "usz i = nat (i mod 2 ^ 64)"

definition cint :: "nat \<Rightarrow> int" where
  "cint n = sint (of_nat n :: u32)"

definition TUI_KEY_UP :: u32 where "TUI_KEY_UP = 0x11"
definition TUI_KEY_DOWN :: u32 where "TUI_KEY_DOWN = 0x12"
definition TUI_KEY_LEFT :: u32 where "TUI_KEY_LEFT = 0x13"
definition TUI_KEY_RIGHT :: u32 where "TUI_KEY_RIGHT = 0x14"
definition TUI_KEY_F10 :: u32 where "TUI_KEY_F10 = 0x8A"
definition TUI_KEY_BACKTAB :: u32 where "TUI_KEY_BACKTAB = 0x8F"
definition TUI_KEY_HOME :: u32 where "TUI_KEY_HOME = 0x91"
definition TUI_KEY_END :: u32 where "TUI_KEY_END = 0x92"
definition TUI_KEY_PAGEUP :: u32 where "TUI_KEY_PAGEUP = 0x93"
definition TUI_KEY_PAGEDOWN :: u32 where "TUI_KEY_PAGEDOWN = 0x94"
definition TUI_KEY_INSERT :: u32 where "TUI_KEY_INSERT = 0x95"
definition TUI_KEY_DELETE :: u32 where "TUI_KEY_DELETE = 0x96"

lemmas key_defs = TUI_KEY_UP_def TUI_KEY_DOWN_def TUI_KEY_LEFT_def TUI_KEY_RIGHT_def TUI_KEY_F10_def TUI_KEY_BACKTAB_def
  TUI_KEY_HOME_def TUI_KEY_END_def TUI_KEY_PAGEUP_def TUI_KEY_PAGEDOWN_def TUI_KEY_INSERT_def TUI_KEY_DELETE_def

definition widget :: "'w tui \<Rightarrow> nat \<Rightarrow> tui_widget" where
  "widget st i = widgets st ! i"

definition set_widget :: "nat \<Rightarrow> tui_widget \<Rightarrow> 'w tui \<Rightarrow> 'w tui" where
  "set_widget i w st = st\<lparr>widgets := (widgets st)[i := w]\<rparr>"

definition parent_of :: "'w tui \<Rightarrow> tui_widget \<Rightarrow> tui_window" where
  "parent_of st w = windows st ! wd_parent w"

text \<open>The array after \<open>text_copy\<close>: the string, cut to fit, its terminator, and the old characters.\<close>

definition text_copy :: "char list \<Rightarrow> string \<Rightarrow> nat \<Rightarrow> char list" where
  "text_copy d s cap = (let t = take (cap - 1) s in t @ NUL # drop (length t + 1) d)"

definition focusable :: "tui_widget \<Rightarrow> bool" where
  "focusable w \<longleftrightarrow> wd_visible w \<and> wd_enabled w \<and> wd_type w \<notin> {TUI_LABEL, TUI_STATUS_BAR, TUI_PROGRESS, TUI_TABS}"

definition cx :: "'w tui \<Rightarrow> tui_widget \<Rightarrow> int" where
  "cx st w = wn_x (parent_of st w) + 1 + wd_x w"

definition cy :: "'w tui \<Rightarrow> tui_widget \<Rightarrow> int" where
  "cy st w = (let p = parent_of st w in
     if wn_double_border p \<and> wn_title p \<noteq> [] then wn_y p + 3 + wd_y w else wn_y p + 1 + wd_y w)"

definition tui_widget_create :: "tui_widget_type \<Rightarrow> nat option \<Rightarrow> int \<Rightarrow> int \<Rightarrow> int \<Rightarrow> int \<Rightarrow> string \<Rightarrow> 'w tui \<Rightarrow> nat option \<times> 'w tui" where
  "tui_widget_create ty p x y width height txt st = (case p of None \<Rightarrow> (None, st) | Some p \<Rightarrow>
     if used st \<ge> TUI_MAX_WIDGETS \<or> length (wn_children (windows st ! p)) \<ge> TUI_MAX_WIDGETS then (None, st)
     else let i = used st; w = widget st i;
         w = w\<lparr>wd_type := ty, wd_parent := p, wd_x := x, wd_y := y, wd_width := width, wd_height := height,
           wd_visible := True, wd_enabled := True, wd_focused := False, wd_checked := False, wd_value := 0,
           wd_scroll := 0, wd_cursor := 0, wd_maximum := 127, wd_insert_mode := True, wd_items := [], wd_selected := 0,
           wd_activate := None, wd_custom_fg := 0, wd_custom_bg := 0, wd_text := text_copy (wd_text w) txt 4096\<rparr>;
         v = windows st ! p
       in (Some i, set_widget i w (st\<lparr>used := i + 1, windows := (windows st)[p := v\<lparr>wn_children := wn_children v @ [i]\<rparr>]\<rparr>)))"

definition tui_button_create :: "nat option \<Rightarrow> int \<Rightarrow> int \<Rightarrow> int \<Rightarrow> string \<Rightarrow> 'w tui \<Rightarrow> nat option \<times> 'w tui" where
  "tui_button_create p x y width txt = tui_widget_create TUI_BUTTON p x y width 1 txt"

definition tui_label_create :: "nat option \<Rightarrow> int \<Rightarrow> int \<Rightarrow> string \<Rightarrow> 'w tui \<Rightarrow> nat option \<times> 'w tui" where
  "tui_label_create p x y txt = tui_widget_create TUI_LABEL p x y (cint (text_len txt)) 1 txt"

definition tui_textbox_create :: "nat option \<Rightarrow> int \<Rightarrow> int \<Rightarrow> int \<Rightarrow> string \<Rightarrow> nat \<Rightarrow> bool \<Rightarrow> 'w tui \<Rightarrow> nat option \<times> 'w tui" where
  "tui_textbox_create p x y width initial maximum password st =
     (let (v, st) = tui_widget_create (if password then TUI_PASSWORD_INPUT else TUI_TEXT_INPUT) p x y width 1 initial st
      in case v of None \<Rightarrow> (None, st)
         | Some i \<Rightarrow> (Some i, set_widget i ((widget st i)\<lparr>wd_maximum := int (if maximum < 127 then maximum else 127),
             wd_cursor := cint (text_len (cstr (wd_text (widget st i))))\<rparr>) st))"

definition tui_listbox_create :: "nat option \<Rightarrow> int \<Rightarrow> int \<Rightarrow> int \<Rightarrow> int \<Rightarrow> string list \<Rightarrow> 'w tui \<Rightarrow> nat option \<times> 'w tui" where
  "tui_listbox_create p x y width height items st =
     (let (v, st) = tui_widget_create TUI_LISTBOX p x y width height [] st
      in case v of None \<Rightarrow> (None, st) | Some i \<Rightarrow> (Some i, set_widget i ((widget st i)\<lparr>wd_items := items\<rparr>) st))"

definition tui_table_create :: "nat option \<Rightarrow> int \<Rightarrow> int \<Rightarrow> int \<Rightarrow> int \<Rightarrow> string list \<Rightarrow> 'w tui \<Rightarrow> nat option \<times> 'w tui" where
  "tui_table_create p x y width height rows st =
     (let (v, st) = tui_listbox_create p x y width height rows st
      in case v of None \<Rightarrow> (None, st) | Some i \<Rightarrow> (Some i, set_widget i ((widget st i)\<lparr>wd_type := TUI_TABLE\<rparr>) st))"

definition tui_widget_set_enabled :: "nat option \<Rightarrow> bool \<Rightarrow> 'w tui \<Rightarrow> 'w tui" where
  "tui_widget_set_enabled w b st = tui_request_redraw (case w of None \<Rightarrow> st
     | Some i \<Rightarrow> set_widget i ((widget st i)\<lparr>wd_enabled := b\<rparr>) st)"

definition tui_widget_set_visible :: "nat option \<Rightarrow> bool \<Rightarrow> 'w tui \<Rightarrow> 'w tui" where
  "tui_widget_set_visible w b st = tui_request_redraw (case w of None \<Rightarrow> st
     | Some i \<Rightarrow> set_widget i ((widget st i)\<lparr>wd_visible := b\<rparr>) st)"

section \<open>Drawing a widget\<close>

definition draw_label :: "tui_widget \<Rightarrow> int \<Rightarrow> int \<Rightarrow> u8 \<Rightarrow> u8 \<Rightarrow> tui_theme \<Rightarrow> 'w tui \<Rightarrow> 'w tui" where
  "draw_label w x y fg bg t st =
     (let (lf, lb) = (if wd_type w = TUI_STATUS_BAR then (status_fg t, status_bg t)
          else if wd_type w = TUI_MENU_BAR then (title_fg t, title_bg t)
          else if wd_custom_fg w \<noteq> 0 \<or> wd_custom_bg w \<noteq> 0 then (wd_custom_fg w, wd_custom_bg w) else (fg, bg))
      in tui_text x y (cstr (wd_text w)) lf lb (wd_width w) (tui_fill x y (wd_width w) (wd_height w) 32 lf lb st))"

text \<open>The loop of a text view over the characters left, with the line, the row and the column.\<close>

fun view_text :: "tui_widget \<Rightarrow> int \<Rightarrow> int \<Rightarrow> tui_theme \<Rightarrow> string \<Rightarrow> nat \<Rightarrow> int \<Rightarrow> int \<Rightarrow> 'w tui \<Rightarrow> 'w tui" where
  "view_text w x y t [] line row col st = st"
| "view_text w x y t (c # s) line row col st =
     (if row \<ge> wd_height w then st
      else if line < nat (wd_scroll w) then view_text w x y t s (if c = LF then line + 1 else line) row col st
      else if c = LF then view_text w x y t s line (row + 1) 0 st
      else let (row, col) = (if col \<ge> wd_width w then (row + 1, 0) else (row, col)) in
        if row \<ge> wd_height w then st
        else view_text w x y t s line row (col + 1) (tui_text (x + col) (y + row) [c] (window_fg t) (window_bg t) 1 st))"

definition draw_view :: "tui_widget \<Rightarrow> int \<Rightarrow> int \<Rightarrow> tui_theme \<Rightarrow> 'w tui \<Rightarrow> 'w tui" where
  "draw_view w x y t st =
     view_text w x y t (cstr (wd_text w)) 0 0 0 (tui_fill x y (wd_width w) (wd_height w) 32 (window_fg t) (window_bg t) st)"

definition draw_button :: "tui_widget \<Rightarrow> int \<Rightarrow> int \<Rightarrow> u8 \<Rightarrow> u8 \<Rightarrow> tui_theme \<Rightarrow> 'w tui \<Rightarrow> 'w tui" where
  "draw_button w x y fg bg t st =
     (let (bfg, bbg) = (if wd_focused w then (highlight_bg t, highlight_fg t) else (fg, bg));
          st = tui_fill x y (wd_width w) 1 32 bbg bfg st; txt = int (text_len (cstr (wd_text w)));
          bx = x + (wd_width w - (txt + 4)) sdiv 2;
          st = tui_text bx y ''[  '' bfg bbg 3 st; st = tui_text (bx + 3) y (cstr (wd_text w)) bfg bbg txt st
      in tui_text (bx + 3 + txt) y ''  ]'' bfg bbg 3 st)"

definition draw_check :: "tui_widget \<Rightarrow> int \<Rightarrow> int \<Rightarrow> u8 \<Rightarrow> u8 \<Rightarrow> 'w tui \<Rightarrow> 'w tui" where
  "draw_check w x y fg bg st =
     (let st = tui_fill x y (wd_width w) 1 32 fg bg st;
          st = tui_text x y (if wd_type w = TUI_CHECKBOX then (if wd_checked w then ''[x] '' else ''[ ] '')
                 else (if wd_checked w then ''(*) '' else ''( ) '')) fg bg 4 st
      in tui_text (x + 4) y (cstr (wd_text w)) fg bg (wd_width w - 4) st)"

text \<open>The first column of a text box that is shown: the cursor stays in view.\<close>

definition input_start :: "tui_widget \<Rightarrow> int" where
  "input_start w = (let start = (if wd_cursor w < wd_scroll w then wd_cursor w else wd_scroll w) in
     if wd_cursor w \<ge> start + wd_width w then wd_cursor w - wd_width w + 1 else start)"

definition draw_input :: "nat \<Rightarrow> int \<Rightarrow> int \<Rightarrow> u8 \<Rightarrow> u8 \<Rightarrow> tui_theme \<Rightarrow> 'w tui \<Rightarrow> 'w tui" where
  "draw_input i x y fg bg t st =
     (let w = widget st i; (bfg, bbg) = (if wd_focused w then (highlight_bg t, highlight_fg t) else (fg, bg));
          st = tui_fill x y (wd_width w) 1 32 bfg bbg st; txt = cstr (wd_text w); start = input_start w;
          st = set_widget i (w\<lparr>wd_scroll := start\<rparr>) st
      in for_int 0 (min (wd_width w) (int (text_len txt) - start)) (\<lambda>k.
           let c = (if wd_type w = TUI_PASSWORD_INPUT then CHR ''*'' else txt ! nat (start + k));
               (cf, cb) = (if wd_focused w \<and> start + k = wd_cursor w then (bbg, bfg) else (bfg, bbg))
           in tui_text (x + k) y [c] cf cb 1) st)"

text \<open>The rows of a list, with the number of rows left.\<close>

fun list_rows :: "nat \<Rightarrow> int \<Rightarrow> tui_widget \<Rightarrow> int \<Rightarrow> int \<Rightarrow> u8 \<Rightarrow> u8 \<Rightarrow> tui_theme \<Rightarrow> 'w tui \<Rightarrow> 'w tui" where
  "list_rows 0 row w x y fg bg t st = st"
| "list_rows (Suc n) row w x y fg bg t st =
     (let index = usz (wd_scroll w + row) in
      if index \<ge> length (wd_items w) then st
      else let (rf, rb) = (if index = wd_selected w
               then (if wd_focused w then (selected_fg t, selected_bg t) else (highlight_bg t, highlight_fg t)) else (fg, bg));
             st = tui_fill x (y + row) (wd_width w) 1 32 rf rb st;
             st = tui_text x (y + row) (wd_items w ! index) rf rb (wd_width w) st
        in list_rows n (row + 1) w x y fg bg t st)"

definition list_scroll :: "tui_widget \<Rightarrow> int" where
  "list_scroll w = (let scroll = (if wd_selected w < usz (wd_scroll w) then cint (wd_selected w) else wd_scroll w) in
     if wd_selected w \<ge> usz (scroll + wd_height w) then cint (wd_selected w) - wd_height w + 1 else scroll)"

definition draw_list :: "nat \<Rightarrow> int \<Rightarrow> int \<Rightarrow> u8 \<Rightarrow> u8 \<Rightarrow> tui_theme \<Rightarrow> 'w tui \<Rightarrow> 'w tui" where
  "draw_list i x y fg bg t st =
     (let w = widget st i; st = tui_fill x y (wd_width w) (wd_height w) 32 fg bg st; w = w\<lparr>wd_scroll := list_scroll w\<rparr>
      in list_rows (nat (wd_height w)) 0 w x y fg bg t (set_widget i w st))"

definition draw_progress :: "tui_widget \<Rightarrow> int \<Rightarrow> int \<Rightarrow> tui_theme \<Rightarrow> 'w tui \<Rightarrow> 'w tui" where
  "draw_progress w x y t st =
     (let st = tui_fill x y (wd_width w) 1 32 (window_fg t) (window_bg t) st;
          f = (if wd_maximum w \<noteq> 0 then (wd_value w * wd_width w) sdiv wd_maximum w else 0);
          st = tui_fill x y f 1 219 (success_fg t) (success_bg t) st
      in tui_fill (x + f) y (wd_width w - f) 1 176 (disabled_fg t) (window_bg t) st)"

definition draw_scrollbar :: "tui_widget \<Rightarrow> int \<Rightarrow> int \<Rightarrow> tui_theme \<Rightarrow> 'w tui \<Rightarrow> 'w tui" where
  "draw_scrollbar w x y t st =
     (let vertical = (wd_type w = TUI_VSCROLL); len = (if vertical then wd_height w else wd_width w);
          st = tui_fill x y (wd_width w) (wd_height w) 176 (disabled_fg t) (window_bg t) st;
          pos = (if wd_maximum w \<noteq> 0 then ((len - 1) * wd_value w) sdiv wd_maximum w else 0)
      in tui_fill (x + (if vertical then 0 else pos)) (y + (if vertical then pos else 0)) 1 1 219 (window_fg t) (window_bg t) st)"

definition is_input :: "tui_widget \<Rightarrow> bool" where
  "is_input w \<longleftrightarrow> wd_type w \<in> {TUI_TEXT_INPUT, TUI_PASSWORD_INPUT}"

definition is_list :: "tui_widget \<Rightarrow> bool" where
  "is_list w \<longleftrightarrow> wd_type w \<in> {TUI_LISTBOX, TUI_TABLE, TUI_DROPDOWN}"

definition tui_draw_one :: "nat \<Rightarrow> tui_theme \<Rightarrow> 'w tui \<Rightarrow> 'w tui" where
  "tui_draw_one i t st =
     (let w = widget st i in
      if \<not> wd_visible w then st
      else let x = cx st w; y = cy st w;
          (fg, bg) = (if wd_enabled w then (if wd_focused w then (highlight_fg t, highlight_bg t) else (window_fg t, window_bg t))
                      else (disabled_fg t, window_bg t))
        in if wd_type w \<in> {TUI_LABEL, TUI_TABS, TUI_STATUS_BAR, TUI_MENU_BAR} then draw_label w x y fg bg t st
           else if wd_type w = TUI_TEXT_VIEW then draw_view w x y t st
           else if wd_type w = TUI_BUTTON then draw_button w x y fg bg t st
           else if wd_type w \<in> {TUI_CHECKBOX, TUI_RADIO} then draw_check w x y fg bg st
           else if is_input w then draw_input i x y fg bg t st
           else if is_list w then draw_list i x y fg bg t st
           else if wd_type w = TUI_PROGRESS then draw_progress w x y t st
           else if wd_type w \<in> {TUI_HSCROLL, TUI_VSCROLL} then draw_scrollbar w x y t st
           else st)"

definition tui_draw_widgets :: "nat \<Rightarrow> tui_theme \<Rightarrow> 'w tui \<Rightarrow> 'w tui" where
  "tui_draw_widgets p t st = fold (\<lambda>i. tui_draw_one i t) (wn_children (windows st ! p)) st"

definition tui_invalidate :: "nat \<Rightarrow> 'w tui \<Rightarrow> 'w tui" where
  "tui_invalidate i st = tui_request_redraw st"

definition tui_widget_repaint :: "nat \<Rightarrow> 'w tui \<Rightarrow> 'w tui" where
  "tui_widget_repaint i st =
     (if \<not> wd_visible (widget st i) \<or> \<not> wn_visible (parent_of st (widget st i)) then st
      else (tui_draw_one i (theme st) st)\<lparr>dirty := True\<rparr>)"

section \<open>The focus\<close>

definition set_focused :: "bool \<Rightarrow> nat \<Rightarrow> 'w tui \<Rightarrow> 'w tui" where
  "set_focused b i st = set_widget i ((widget st i)\<lparr>wd_focused := b\<rparr>) st"

definition tui_widget_set_focus :: "nat \<Rightarrow> 'w tui \<Rightarrow> 'w tui" where
  "tui_widget_set_focus i st =
     (let p = wd_parent (widget st i); was = wd_focused (widget st i); cs = wn_children (windows st ! p);
          st = set_focused True i (fold (set_focused False) cs st);
          at = fold (\<lambda>(k, c) at. if c = i then k else at) (enumerate 0 cs) (wn_focus_index (windows st ! p));
          st = st\<lparr>windows := (windows st)[p := (windows st ! p)\<lparr>wn_focus_index := at\<rparr>]\<rparr>
      in if \<not> was then tui_request_redraw st else tui_widget_repaint i st)"

text \<open>The search for the next widget, with the number of steps left.\<close>

fun focus_search :: "nat list \<Rightarrow> int \<Rightarrow> nat \<Rightarrow> nat \<Rightarrow> 'w tui \<Rightarrow> 'w tui" where
  "focus_search cs d 0 at st = st"
| "focus_search cs d (Suc n) at st =
     (let at = ((at + length cs + usz d) mod 2 ^ 64) mod length cs in
      if focusable (widget st (cs ! at)) then tui_widget_set_focus (cs ! at) st else focus_search cs d n at st)"

definition focus_move :: "nat \<Rightarrow> int \<Rightarrow> 'w tui \<Rightarrow> 'w tui" where
  "focus_move p d st =
     (let w = windows st ! p; cs = wn_children w in
      if cs = [] then st else focus_search cs d (length cs) (wn_focus_index w) st)"

section \<open>Text boxes\<close>

text \<open>The effect of a key on the widget; \<open>None\<close> is an access outside the text.\<close>

definition edit_key :: "u32 \<Rightarrow> tui_widget \<Rightarrow> tui_widget option" where
  "edit_key key w =
     (let n = text_len (cstr (wd_text w)); c = wd_cursor w in
      if key = TUI_KEY_LEFT \<and> c \<noteq> 0 then Some (w\<lparr>wd_cursor := c - 1\<rparr>)
      else if key = TUI_KEY_RIGHT \<and> c < int n then Some (w\<lparr>wd_cursor := c + 1\<rparr>)
      else if key = TUI_KEY_HOME then Some (w\<lparr>wd_cursor := 0\<rparr>)
      else if key = TUI_KEY_END then Some (w\<lparr>wd_cursor := int n\<rparr>)
      else if key = TUI_KEY_INSERT then Some (w\<lparr>wd_insert_mode := \<not> wd_insert_mode w\<rparr>)
      else if (key = 8 \<or> key = 127) \<and> c \<noteq> 0 then
        map_option (\<lambda>b. w\<lparr>wd_cursor := c - 1, wd_text := b\<rparr>) (shift_left (usz (c - 1)) n (wd_text w))
      else if key = TUI_KEY_DELETE \<and> c < int n then
        map_option (\<lambda>b. w\<lparr>wd_text := b\<rparr>) (shift_left (usz c) n (wd_text w))
      else if 32 \<le> key \<and> key < 127 \<and> n < usz (wd_maximum w) then
        Option.bind (if wd_insert_mode w then shift_right (usz c) (n + 1) (wd_text w) else Some (wd_text w)) (\<lambda>b.
        Option.bind (store (usz c) (chr (ucast key)) b) (\<lambda>b.
        map_option (\<lambda>b. w\<lparr>wd_cursor := c + 1, wd_text := b\<rparr>)
          (if \<not> wd_insert_mode w \<and> c + 1 > int n then store (usz (c + 1)) NUL b else Some b)))
      else Some w)"

definition edit :: "nat \<Rightarrow> u32 \<Rightarrow> 'w tui \<Rightarrow> 'w tui option" where
  "edit i key st = map_option (\<lambda>w. tui_widget_repaint i (set_widget i w st)) (edit_key key (widget st i))"

section \<open>Events\<close>

definition list_key :: "u32 \<Rightarrow> tui_widget \<Rightarrow> nat" where
  "list_key key w =
     (let s = wd_selected w; n = length (wd_items w) in
      if key = TUI_KEY_UP \<and> s \<noteq> 0 then s - 1
      else if key = TUI_KEY_DOWN \<and> s + 1 < n then s + 1
      else if key = TUI_KEY_HOME then 0
      else if key = TUI_KEY_END \<and> n \<noteq> 0 then n - 1
      else if key = TUI_KEY_PAGEUP then (if s > usz (wd_height w) then s - usz (wd_height w) else 0)
      else if key = TUI_KEY_PAGEDOWN \<and> n \<noteq> 0 then
        (let s = (s + usz (wd_height w)) mod 2 ^ 64 in if s \<ge> n then n - 1 else s)
      else s)"

text \<open>The newline key of a list runs the callback: the keys before it in the chain have other codes.\<close>

definition activate :: "(nat \<Rightarrow> nat \<Rightarrow> 'w tui \<Rightarrow> 'w tui) \<Rightarrow> nat \<Rightarrow> 'w tui \<Rightarrow> 'w tui" where
  "activate run i st = (case wd_activate (widget st i) of None \<Rightarrow> st | Some cb \<Rightarrow> run cb i st)"

definition stop :: "'w tui \<Rightarrow> 'w tui" where
  "stop st = st\<lparr>application := (application st)\<lparr>running := False\<rparr>\<rparr>"

definition widget_event :: "(nat \<Rightarrow> nat \<Rightarrow> 'w tui \<Rightarrow> 'w tui) \<Rightarrow> nat \<Rightarrow> u32 \<Rightarrow> 'w tui \<Rightarrow> 'w tui option" where
  "widget_event run i key st =
     (let v = widget st i in
      if is_input v then edit i key st
      else if is_list v then
        Some (tui_request_redraw (let st = set_widget i (v\<lparr>wd_selected := list_key key v\<rparr>) st in
          if key = 10 then activate run i st else st))
      else if wd_type v \<in> {TUI_CHECKBOX, TUI_RADIO} \<and> key \<in> {32, 10} then
        Some (tui_request_redraw (activate run i (set_widget i (v\<lparr>wd_checked := \<not> wd_checked v\<rparr>) st)))
      else if wd_type v = TUI_BUTTON \<and> key \<in> {32, 10} then Some (activate run i st)
      else Some st)"

definition focused_window :: "'w tui \<Rightarrow> nat option" where
  "focused_window st = find (\<lambda>p. wn_visible (windows st ! p) \<and> wn_focused (windows st ! p)) (rev (app_windows (application st)))"

definition tui_dispatch_event :: "(nat \<Rightarrow> nat \<Rightarrow> 'w tui \<Rightarrow> 'w tui) \<Rightarrow> tui_event \<Rightarrow> 'w tui \<Rightarrow> 'w tui option" where
  "tui_dispatch_event run e st =
     (if ev_type e = TUI_EVENT_CLOSE then Some (stop st)
      else case focused_window st of None \<Rightarrow> Some st | Some p \<Rightarrow>
        let key = ev_key e; w = windows st ! p in
        if key = TUI_KEY_F10 \<or> key = 27 then Some (stop st)
        else if key = 9 then Some (focus_move p 1 st)
        else if key = TUI_KEY_BACKTAB then Some (focus_move p (-1) st)
        else if wn_children w = [] \<or> \<not> focusable (widget st (wn_children w ! wn_focus_index w)) then Some (focus_move p 1 st)
        else widget_event run (wn_children w ! wn_focus_index w) key st)"

section \<open>Rendering and the event loop\<close>

fun first_input :: "'w tui \<Rightarrow> nat list \<Rightarrow> nat option" where
  "first_input st [] = None"
| "first_input st (i # is) = (if wd_focused (widget st i) \<and> is_input (widget st i) then Some i else first_input st is)"

fun cursor_target :: "'w tui \<Rightarrow> nat list \<Rightarrow> (nat \<times> nat) option" where
  "cursor_target st [] = None"
| "cursor_target st (p # ps) =
     (if \<not> wn_visible (windows st ! p) \<or> \<not> wn_focused (windows st ! p) then cursor_target st ps
      else case first_input st (wn_children (windows st ! p)) of Some i \<Rightarrow> Some (p, i) | None \<Rightarrow> cursor_target st ps)"

definition tui_update_cursor :: "'w api \<Rightarrow> 'w tui \<Rightarrow> 'w tui" where
  "tui_update_cursor a st =
     (case cursor_target st (rev (app_windows (application st))) of
        None \<Rightarrow> st\<lparr>world := terminal_cursor a 0 0 False True (world st)\<rparr>
      | Some (p, i) \<Rightarrow>
          let w = windows st ! p; v = widget st i; x = wn_x w + 1 + wd_x v + wd_cursor v - wd_scroll v;
              y = (if wn_double_border w \<and> wn_title w \<noteq> [] then wn_y w + 3 + wd_y v else wn_y w + 1 + wd_y v)
          in st\<lparr>world := terminal_cursor a (x mod 2 ^ 32) (y mod 2 ^ 32) True True (world st)\<rparr>)"

definition draw_window :: "nat \<Rightarrow> 'w tui \<Rightarrow> 'w tui" where
  "draw_window p st =
     (if wn_visible (windows st ! p) then tui_draw_widgets p (theme st) (tui_window_draw (windows st ! p) st) else st)"

definition draw_all :: "'w tui \<Rightarrow> 'w tui" where
  "draw_all st =
     (let st = fold draw_window (app_windows (application st))
            (tui_fill 0 0 (int (swidth st)) (int (sheight st)) 32 (desktop_fg (theme st)) (desktop_bg (theme st)) st)
      in st\<lparr>application := (application st)\<lparr>redraw := False\<rparr>\<rparr>)"

definition tui_render :: "'w api \<Rightarrow> 'w tui \<Rightarrow> 'w tui" where
  "tui_render a st =
     (if \<not> initialized st then st
      else let st = (if redraw (application st) then draw_all st else st)
        in if \<not> dirty st then st else tui_update_cursor a (tui_flush a st))"

definition tui_app_stop :: "'w tui \<Rightarrow> 'w tui" where
  "tui_app_stop = stop"

text \<open>The event loop; \<open>None\<close> when it does not end or an access is out of bounds.\<close>

partial_function (option) app_loop :: "'w api \<Rightarrow> (nat \<Rightarrow> nat \<Rightarrow> 'w tui \<Rightarrow> 'w tui) \<Rightarrow> 'w tui \<Rightarrow> 'w tui option" where
  "app_loop a run st =
     (if \<not> running (application st) then Some st
      else let (e, st) = tui_next_event a st in
        Option.bind (tui_dispatch_event run e st) (\<lambda>st. app_loop a run (tui_render a st)))"

definition tui_app_run :: "'w api \<Rightarrow> (nat \<Rightarrow> nat \<Rightarrow> 'w tui \<Rightarrow> 'w tui) \<Rightarrow> 'w tui \<Rightarrow> 'w tui option" where
  "tui_app_run a run st = app_loop a run (tui_render a st)"

section \<open>What drawing changes\<close>

text \<open>Drawing a widget changes the back buffer and nothing of the widgets but its scroll position.\<close>

definition paint_scroll :: "tui_widget \<Rightarrow> int" where
  "paint_scroll w = (if \<not> wd_visible w then wd_scroll w else if is_input w then input_start w
     else if is_list w then list_scroll w else wd_scroll w)"

definition painted :: "tui_widget \<Rightarrow> tui_widget" where
  "painted w = w\<lparr>wd_scroll := paint_scroll w\<rparr>"

lemma drawn_set_widget: "drawn st st' \<Longrightarrow> drawn (set_widget i w st) (set_widget i w st')"
  unfolding drawn_def set_widget_def by (elim exE, rule_tac x = b in exI, rule_tac x = d in exI) simp

lemma drawn_widget: "drawn st st' \<Longrightarrow> widget st' = widget st"
  by (simp add: widget_def fun_eq_iff drawn_simps)

lemma set_widget_same: "set_widget i (widget st i) st = st"
  by (simp add: set_widget_def widget_def)

lemma drawn_view: "drawn st (view_text w x y t s line row col st)"
proof (induction s arbitrary: line row col st)
  case (Cons c s)
  have "drawn st (view_text w x y t s line r c' (tui_text X Y [c] f b 1 st))" for r c' X Y f b
    by (rule drawn_trans [OF drawn_text Cons])
  then show ?case using Cons by (auto simp: Let_def)
qed simp

lemma drawn_rows: "drawn st (list_rows n row w x y fg bg t st)"
proof (induction n arbitrary: row st)
  case (Suc n)
  then have "drawn st (list_rows n r w x y fg bg t (tui_text x Y s f b l (tui_fill x Y l 1 32 f b st)))" for r Y s f b l
    by (meson drawn_trans drawn_fill drawn_text)
  then show ?case by (auto simp: Let_def split: prod.split)
qed simp

lemma drawn_input_loop: "drawn st (for_int a b (\<lambda>k. let c = g k; (cf, cb) = h k in tui_text (X k) Y [c] cf cb 1) st)"
  by (rule drawn_for_int) (simp add: Let_def split: prod.split)

lemma draw_input_scroll:
  "drawn (set_widget i ((widget st i)\<lparr>wd_scroll := input_start (widget st i)\<rparr>) st) (draw_input i x y fg bg t st)"
  unfolding draw_input_def Let_def case_prod_beta
  by (rule drawn_trans [OF drawn_set_widget [OF drawn_fill] drawn_for_int]) simp

lemma draw_list_scroll:
  "drawn (set_widget i ((widget st i)\<lparr>wd_scroll := list_scroll (widget st i)\<rparr>) st) (draw_list i x y fg bg t st)"
  unfolding draw_list_def Let_def by (rule drawn_trans [OF drawn_set_widget [OF drawn_fill] drawn_rows])

lemma draw_others:
  "drawn st (draw_label w x y fg bg t st)" "drawn st (draw_view w x y t st)" "drawn st (draw_button w x y fg bg t st)"
  "drawn st (draw_check w x y fg bg st)" "drawn st (draw_progress w x y t st)" "drawn st (draw_scrollbar w x y t st)"
  unfolding draw_label_def draw_view_def draw_button_def draw_check_def draw_progress_def draw_scrollbar_def Let_def case_prod_beta
  by (meson drawn_trans drawn_fill drawn_text drawn_view)+

lemma tui_draw_one_painted: "drawn (set_widget i (painted (widget st i)) st) (tui_draw_one i t st)"
proof -
  let ?w = "widget st i"
  consider "\<not> wd_visible ?w" | "wd_visible ?w" "is_input ?w" | "wd_visible ?w" "is_list ?w"
    | "wd_visible ?w" "\<not> is_input ?w" "\<not> is_list ?w" by blast
  then show ?thesis
  proof cases
    case 1
    then show ?thesis by (simp add: tui_draw_one_def painted_def paint_scroll_def set_widget_same)
  next
    case 2
    then show ?thesis using draw_input_scroll [of i st]
      by (auto simp: tui_draw_one_def painted_def paint_scroll_def is_input_def Let_def case_prod_beta)
  next
    case 3
    then show ?thesis using draw_list_scroll [of i st]
      by (auto simp: tui_draw_one_def painted_def paint_scroll_def is_input_def is_list_def Let_def case_prod_beta)
  next
    case 4
    then show ?thesis
      by (simp add: tui_draw_one_def painted_def paint_scroll_def set_widget_same Let_def case_prod_beta draw_others)
  qed
qed

section \<open>Text boxes implement a text with a cursor\<close>

text \<open>The text left and right of the cursor and the insert mode, for a box of at most \<open>m\<close> characters.\<close>

type_synonym box = "string \<times> string \<times> bool"

definition box_key :: "nat \<Rightarrow> u32 \<Rightarrow> box \<Rightarrow> box" where
  "box_key m key = (\<lambda>(l, r, ins).
     if key = TUI_KEY_LEFT then (if l = [] then (l, r, ins) else (butlast l, last l # r, ins))
     else if key = TUI_KEY_RIGHT then (if r = [] then (l, r, ins) else (l @ [hd r], tl r, ins))
     else if key = TUI_KEY_HOME then ([], l @ r, ins)
     else if key = TUI_KEY_END then (l @ r, [], ins)
     else if key = TUI_KEY_INSERT then (l, r, \<not> ins)
     else if key = 8 \<or> key = 127 then (butlast l, r, ins)
     else if key = TUI_KEY_DELETE then (l, tl r, ins)
     else if 32 \<le> key \<and> key < 127 \<and> length l + length r < m then
       (l @ [chr (ucast key)], if ins then r else tl r, ins)
     else (l, r, ins))"

definition shows_box :: "nat \<Rightarrow> box \<Rightarrow> tui_widget \<Rightarrow> bool" where
  "shows_box m = (\<lambda>(l, r, ins) w.
     (\<exists>zs. wd_text w = l @ r @ NUL # zs) \<and> NUL \<notin> set (l @ r) \<and> length (wd_text w) = 4096 \<and>
     wd_cursor w = int (length l) \<and> wd_insert_mode w = ins \<and> wd_maximum w = int m)"

lemma usz_nat: "n < 2 ^ 64 \<Longrightarrow> usz (int n) = n"
  by (simp add: usz_def nat_mod_as_int)

lemma usz_small [simp]: "0 \<le> i \<Longrightarrow> i < 2 ^ 64 \<Longrightarrow> usz i = nat i"
  by (simp add: usz_def)

lemma key_char:
  assumes "32 \<le> key" "key < (127::u32)"
  shows "chr (ucast key) \<noteq> NUL"
proof -
  have k: "32 \<le> unat key" "unat key < 127" using assms by (simp_all add: word_le_nat_alt word_less_nat_alt)
  then have "unat (ucast key :: u8) = unat key" by (simp add: unsigned_ucast_eq take_bit_nat_eq_self)
  then have "unat (ord (chr (ucast key))) \<noteq> unat (ord NUL)" using k by (simp add: unat_ord)
  then show ?thesis by metis
qed

lemma key_printable:
  assumes "32 \<le> key" "key < (127::u32)"
  shows "key \<noteq> TUI_KEY_LEFT" "key \<noteq> TUI_KEY_RIGHT" "key \<noteq> TUI_KEY_HOME" "key \<noteq> TUI_KEY_END" "key \<noteq> TUI_KEY_INSERT"
    "key \<noteq> TUI_KEY_DELETE" "key \<noteq> 8" "key \<noteq> 127"
  using assms by (auto simp: key_defs)

lemma shows_boxE:
  assumes "shows_box m (l, r, ins) w"
  obtains zs where "wd_text w = l @ r @ NUL # zs" "NUL \<notin> set l" "NUL \<notin> set r" "length l + length r + length zs = 4095"
    "wd_cursor w = int (length l)" "wd_insert_mode w = ins" "wd_maximum w = int m" "cstr (wd_text w) = l @ r"
proof -
  obtain zs where zs: "wd_text w = l @ r @ NUL # zs" using assms by (auto simp: shows_box_def)
  have n: "NUL \<notin> set (l @ r)" using assms by (auto simp: shows_box_def)
  have "cstr (wd_text w) = l @ r" using zs cstr_append_NUL [OF n, of zs] by simp
  with that [of zs] zs assms show thesis by (auto simp: shows_box_def)
qed

definition edited :: "nat \<Rightarrow> u32 \<Rightarrow> box \<Rightarrow> tui_widget \<Rightarrow> bool" where
  "edited m key b w \<longleftrightarrow> (\<exists>w'. edit_key key w = Some w' \<and> shows_box m (box_key m key b) w')"

lemma editedI: "edit_key key w = Some w' \<Longrightarrow> shows_box m (box_key m key b) w' \<Longrightarrow> edited m key b w"
  unfolding edited_def by blast

text \<open>The other fields of the widget are kept.\<close>

lemma if_SomeE: "(if c then a else b) = Some x \<Longrightarrow> (a = Some x \<Longrightarrow> P) \<Longrightarrow> (b = Some x \<Longrightarrow> P) \<Longrightarrow> P"
  by (cases c) auto

lemma edit_key_keeps:
  "edit_key key w = Some w' \<Longrightarrow> w' = w\<lparr>wd_cursor := wd_cursor w', wd_text := wd_text w', wd_insert_mode := wd_insert_mode w'\<rparr>"
  unfolding edit_key_def Let_def bind_eq_Some_conv by (elim if_SomeE) (auto simp: bind_eq_Some_conv)

lemma edit_moves:
  assumes "shows_box m (l, r, ins) w" "key \<in> {TUI_KEY_LEFT, TUI_KEY_RIGHT, TUI_KEY_HOME, TUI_KEY_END, TUI_KEY_INSERT}"
  shows "edited m key (l, r, ins) w"
proof -
  from assms(1) obtain zs where zs: "wd_text w = l @ r @ NUL # zs" "NUL \<notin> set l" "NUL \<notin> set r" "length l + length r + length zs = 4095"
    "wd_cursor w = int (length l)" "wd_insert_mode w = ins" "wd_maximum w = int m" "cstr (wd_text w) = l @ r"
    by (rule shows_boxE)
  note d = shows_box_def box_key_def edit_key_def text_len_def key_defs Let_def
  have "edited m TUI_KEY_LEFT (l, r, ins) w"
    using zs by (cases l rule: rev_cases) (auto simp: d edited_def)
  moreover have "edited m TUI_KEY_RIGHT (l, r, ins) w"
    using zs by (cases r) (auto simp: d edited_def)
  moreover have "edited m TUI_KEY_HOME (l, r, ins) w" "edited m TUI_KEY_END (l, r, ins) w" "edited m TUI_KEY_INSERT (l, r, ins) w"
    using zs by (auto simp: d edited_def)
  ultimately show ?thesis using assms(2) by blast
qed

lemma edit_backspace:
  assumes "shows_box m (l, r, ins) w" "key = 8 \<or> key = 127"
  shows "edited m key (l, r, ins) w"
proof -
  from assms(1) obtain zs where zs: "wd_text w = l @ r @ NUL # zs" "NUL \<notin> set l" "NUL \<notin> set r" "length l + length r + length zs = 4095"
    "wd_cursor w = int (length l)" "wd_insert_mode w = ins" "wd_maximum w = int m" "cstr (wd_text w) = l @ r"
    by (rule shows_boxE)
  note d = shows_box_def box_key_def edit_key_def text_len_def key_defs Let_def
  show ?thesis
  proof (cases l rule: rev_cases)
    case Nil
    then have "edit_key key w = Some w" using zs assms(2) by (elim disjE) (simp_all add: d del: shift_right.simps)
    moreover have "box_key m key (l, r, ins) = (l, r, ins)" using Nil assms(2) by (elim disjE) (simp_all add: box_key_def key_defs)
    ultimately show ?thesis using assms(1) by (intro editedI [of key w w]) simp_all
  next
    case (snoc k x)
    have "shift_left (length k) (length k + length (r @ [NUL])) (k @ x # (r @ [NUL]) @ zs) = Some (k @ (r @ [NUL]) @ last (x # r @ [NUL]) # zs)"
      by (rule shift_left_append)
    then have "shift_left (usz (wd_cursor w - 1)) (length l + length r) (wd_text w) = Some (k @ r @ NUL # NUL # zs)"
      using zs snoc by simp
    then have "edit_key key w = Some (w\<lparr>wd_cursor := int (length k), wd_text := k @ r @ NUL # NUL # zs\<rparr>)"
      using zs assms(2) snoc by (elim disjE) (simp_all add: d del: shift_right.simps)
    moreover have "box_key m key (l, r, ins) = (k, r, ins)" using snoc assms(2) by (elim disjE) (simp_all add: box_key_def key_defs)
    ultimately show ?thesis using zs snoc by (rule_tac editedI) (auto simp: shows_box_def)
  qed
qed

lemma edit_delete:
  assumes "shows_box m (l, r, ins) w"
  shows "edited m TUI_KEY_DELETE (l, r, ins) w"
proof -
  from assms(1) obtain zs where zs: "wd_text w = l @ r @ NUL # zs" "NUL \<notin> set l" "NUL \<notin> set r" "length l + length r + length zs = 4095"
    "wd_cursor w = int (length l)" "wd_insert_mode w = ins" "wd_maximum w = int m" "cstr (wd_text w) = l @ r"
    by (rule shows_boxE)
  note d = shows_box_def box_key_def edit_key_def text_len_def key_defs Let_def
  show ?thesis
  proof (cases r)
    case Nil
    then show ?thesis using zs by (intro editedI [of _ w w]) (auto simp: d)
  next
    case (Cons x k)
    have "shift_left (length l) (length l + length (k @ [NUL])) (l @ x # (k @ [NUL]) @ zs) = Some (l @ (k @ [NUL]) @ last (x # k @ [NUL]) # zs)"
      by (rule shift_left_append)
    then have "shift_left (usz (wd_cursor w)) (length l + length r) (wd_text w) = Some (l @ k @ NUL # NUL # zs)"
      using zs Cons by simp
    then have "edit_key TUI_KEY_DELETE w = Some (w\<lparr>wd_text := l @ k @ NUL # NUL # zs\<rparr>)"
      using zs Cons by (auto simp: d)
    then show ?thesis using zs Cons by (rule_tac editedI) (auto simp: shows_box_def box_key_def key_defs)
  qed
qed

lemma edit_print:
  assumes "shows_box m (l, r, ins) w" and m: "m \<le> 4094" and key: "32 \<le> key" "key < 127" and room: "length l + length r < m"
  shows "edited m key (l, r, ins) w"
proof -
  from assms(1) obtain zs where zs: "wd_text w = l @ r @ NUL # zs" "NUL \<notin> set l" "NUL \<notin> set r" "length l + length r + length zs = 4095"
    "wd_cursor w = int (length l)" "wd_insert_mode w = ins" "wd_maximum w = int m" "cstr (wd_text w) = l @ r"
    by (rule shows_boxE)
  obtain z zr where z: "zs = z # zr" using zs(4) room m by (cases zs) auto
  let ?c = "chr (ucast key)"
  have c: "?c \<noteq> NUL" by (rule key_char [OF key])
  have u: "usz (int (length l) + 1) = length l + 1" using zs(4) by (simp add: nat_add_distrib)
  have k: "edit_key key w = Option.bind (if ins then shift_right (length l) (length l + length r + 1) (wd_text w) else Some (wd_text w)) (\<lambda>b.
        Option.bind (store (length l) ?c b) (\<lambda>b.
        map_option (\<lambda>b. w\<lparr>wd_cursor := int (length l) + 1, wd_text := b\<rparr>)
          (if \<not> ins \<and> r = [] then store (length l + 1) NUL b else Some b)))"
    using key_printable [OF key] key zs(1,5-8) room m
    by (cases r) (simp_all add: edit_key_def text_len_def Let_def u del: shift_right.simps)
  have s: "shift_right (length l) (length l + length r + 1) (wd_text w) = Some (l @ hd (r @ [NUL]) # r @ NUL # zr)"
    using shift_right_append [of l "r @ [NUL]" z zr] zs(1) z by (simp del: shift_right.simps)
  have box: "box_key m key (l, r, ins) = (l @ [?c], if ins then r else tl r, ins)"
    using key_printable [OF key] key room by (simp add: box_key_def)
  consider "ins" | "\<not> ins" "r = []" | x k where "\<not> ins" "r = x # k" by (cases r) auto
  then show ?thesis
  proof cases
    case 1
    then have "edit_key key w = Some (w\<lparr>wd_cursor := int (length l) + 1, wd_text := l @ ?c # r @ NUL # zr\<rparr>)"
      using k s by (simp del: shift_right.simps)
    then show ?thesis by (rule editedI) (unfold box, use zs(2-7) z c c [symmetric] 1 in \<open>simp add: shows_box_def\<close>)
  next
    case 2
    have "store (length (l @ [?c])) NUL ((l @ [?c]) @ z # zr) = Some ((l @ [?c]) @ NUL # zr)" by (rule store_append)
    then have "edit_key key w = Some (w\<lparr>wd_cursor := int (length l) + 1, wd_text := l @ ?c # NUL # zr\<rparr>)"
      using k zs(1) z 2 by (simp del: shift_right.simps)
    then show ?thesis by (rule editedI) (unfold box, use zs(2-7) z c c [symmetric] 2 in \<open>simp add: shows_box_def\<close>)
  next
    case (3 x q)
    then have "edit_key key w = Some (w\<lparr>wd_cursor := int (length l) + 1, wd_text := l @ ?c # q @ NUL # zs\<rparr>)"
      using k zs(1) by (simp del: shift_right.simps)
    then show ?thesis by (rule editedI) (unfold box, use zs(2-7) z c c [symmetric] 3 in \<open>simp add: shows_box_def\<close>)
  qed
qed

lemma edit_key_box:
  assumes "shows_box m b w" "m \<le> 4094"
  shows "edited m key b w"
proof -
  obtain l r ins where b: "b = (l, r, ins)" by (metis prod_cases3)
  consider "key \<in> {TUI_KEY_LEFT, TUI_KEY_RIGHT, TUI_KEY_HOME, TUI_KEY_END, TUI_KEY_INSERT}" | "key = 8 \<or> key = 127" | "key = TUI_KEY_DELETE"
    | "32 \<le> key" "key < 127" "length l + length r < m"
    | "key \<notin> {TUI_KEY_LEFT, TUI_KEY_RIGHT, TUI_KEY_HOME, TUI_KEY_END, TUI_KEY_INSERT, TUI_KEY_DELETE, 8, 127}"
      "\<not> (32 \<le> key \<and> key < 127 \<and> length l + length r < m)" by auto
  then show ?thesis
  proof cases
    case 1
    with assms(1) show ?thesis unfolding b by (rule edit_moves)
  next
    case 2
    with assms(1) show ?thesis unfolding b by (rule edit_backspace)
  next
    case 3
    with assms(1) show ?thesis unfolding b by (simp add: edit_delete)
  next
    case 4
    with assms show ?thesis unfolding b by (blast intro: edit_print)
  next
    case 5
    from assms(1) have zs: "cstr (wd_text w) = l @ r" "wd_maximum w = int m" unfolding b by (auto elim: shows_boxE)
    have u: "usz (int m) = m" using assms(2) by simp
    have "\<not> 32 \<le> key \<or> \<not> key < 127 \<or> \<not> length l + length r < m" using 5(2) by blast
    then have "edit_key key w = Some w"
      by (elim disjE) (use 5(1) in \<open>simp_all add: edit_key_def text_len_def Let_def zs u del: shift_right.simps\<close>)
    moreover have "box_key m key b = b" using 5 by (simp add: box_key_def b)
    ultimately show ?thesis using assms(1) by (intro editedI [of _ w w]) simp_all
  qed
qed

text \<open>Painting keeps the cursor of a box in view.\<close>

lemma input_start_view: "0 < wd_width w \<Longrightarrow> input_start w \<le> wd_cursor w \<and> wd_cursor w < input_start w + wd_width w"
  by (auto simp: input_start_def Let_def)

lemma input_start_nonneg: "0 \<le> wd_scroll w \<Longrightarrow> 0 \<le> wd_cursor w \<Longrightarrow> 0 \<le> input_start w"
  by (auto simp: input_start_def Let_def)

lemma input_start_painted: "input_start (w\<lparr>wd_scroll := input_start w\<rparr>) = input_start w"
  by (auto simp: input_start_def Let_def)

definition in_view :: "tui_widget \<Rightarrow> bool" where
  "in_view w \<longleftrightarrow> wd_scroll w \<le> wd_cursor w \<and> wd_cursor w < wd_scroll w + wd_width w"

lemma shows_box_painted [simp]: "shows_box m b (painted w) = shows_box m b w"
  by (auto simp: shows_box_def painted_def)

lemma widget_set_widget: "widget (set_widget i w st) j = (if j = i \<and> i < length (widgets st) then w else widget st j)"
  by (cases "i < length (widgets st)") (auto simp: widget_def set_widget_def nth_list_update list_update_beyond)

lemma widget_draw_one:
  "i < length (widgets st) \<Longrightarrow> widget (tui_draw_one i t st) j = (if j = i then painted (widget st i) else widget st j)"
  using drawn_widget [OF tui_draw_one_painted [of i st t]] by (simp add: widget_set_widget)

lemma length_draw_one [simp]: "length (widgets (tui_draw_one i t st)) = length (widgets st)"
  using drawn_simps(8) [OF tui_draw_one_painted [of i st t]] by (simp add: set_widget_def)

lemma windows_draw_one [simp]: "windows (tui_draw_one i t st) = windows st"
  using drawn_simps(7) [OF tui_draw_one_painted [of i st t]] by (simp add: set_widget_def)

lemma repaint_visible:
  assumes "wd_visible (widget st i)" "wn_visible (parent_of st (widget st i))" "i < length (widgets st)"
  shows "widget (tui_widget_repaint i st) j = (if j = i then painted (widget st i) else widget st j)"
    "length (widgets (tui_widget_repaint i st)) = length (widgets st)" "windows (tui_widget_repaint i st) = windows st"
  using assms widget_draw_one [OF assms(3)] by (simp_all add: tui_widget_repaint_def widget_def)

text \<open>Key events sent one after the other.\<close>

definition key_event :: "u32 \<Rightarrow> tui_event" where
  "key_event k = \<lparr>ev_type = TUI_EVENT_KEY, ev_key = k, ev_modifiers = 0, ev_timestamp = 0\<rparr>"

fun press :: "(nat \<Rightarrow> nat \<Rightarrow> 'w tui \<Rightarrow> 'w tui) \<Rightarrow> u32 list \<Rightarrow> 'w tui \<Rightarrow> 'w tui option" where
  "press run [] st = Some st"
| "press run (k # ks) st = Option.bind (tui_dispatch_event run (key_event k) st) (press run ks)"

text \<open>The keys of the dispatcher: tabulator, back tabulator, escape and F10.\<close>

definition dispatcher_key :: "u32 \<Rightarrow> bool" where
  "dispatcher_key k \<longleftrightarrow> k \<in> {9, 27, TUI_KEY_BACKTAB, TUI_KEY_F10}"

text \<open>The text box \<open>i\<close> has the focus in the focused window \<open>p\<close>.\<close>

definition box_focused :: "nat \<Rightarrow> nat \<Rightarrow> 'w tui \<Rightarrow> bool" where
  "box_focused p i st \<longleftrightarrow> focused_window st = Some p \<and> wn_children (windows st ! p) \<noteq> [] \<and>
     wn_children (windows st ! p) ! wn_focus_index (windows st ! p) = i \<and> i < length (widgets st) \<and>
     wd_parent (widget st i) = p \<and> is_input (widget st i) \<and> wd_visible (widget st i) \<and> wd_enabled (widget st i) \<and>
     0 < wd_width (widget st i)"

lemma focused_visible: "focused_window st = Some p \<Longrightarrow> wn_visible (windows st ! p)"
  by (auto simp: focused_window_def find_Some_iff)

lemma application_repaint [simp]: "application (tui_widget_repaint i st) = application st"
  using drawn_simps(11) [OF tui_draw_one_painted [of i st "theme st"]] by (simp add: tui_widget_repaint_def set_widget_def)

lemma dispatch_box:
  assumes "box_focused p i st" and "\<not> dispatcher_key k"
  shows "tui_dispatch_event run (key_event k) st = edit i k st"
proof -
  have "focusable (widget st i)" using assms(1) by (auto simp: box_focused_def focusable_def is_input_def)
  then show ?thesis using assms
    by (simp add: tui_dispatch_event_def box_focused_def dispatcher_key_def key_event_def widget_event_def Let_def)
qed

lemma edit_step:
  assumes box: "shows_box m b (widget st i)" and m: "m \<le> 4094" and i: "box_focused p i st"
  shows "\<exists>st'. edit i k st = Some st' \<and> shows_box m (box_key m k b) (widget st' i) \<and> in_view (widget st' i) \<and>
    box_focused p i st' \<and> (\<forall>j. j \<noteq> i \<longrightarrow> widget st' j = widget st j)"
proof -
  obtain w where w: "edit_key k (widget st i) = Some w" "shows_box m (box_key m k b) w"
    using edit_key_box [OF box m, of k] unfolding edited_def by blast
  obtain c t ii where ww: "w = (widget st i)\<lparr>wd_cursor := c, wd_text := t, wd_insert_mode := ii\<rparr>"
    using edit_key_keeps [OF w(1)] by blast
  have same: "wd_visible w = wd_visible (widget st i)" "wd_parent w = wd_parent (widget st i)" "wd_type w = wd_type (widget st i)"
    "wd_width w = wd_width (widget st i)" "wd_enabled w = wd_enabled (widget st i)"
    unfolding ww by simp_all
  let ?st = "set_widget i w st"
  have i': "i < length (widgets st)" "wd_visible (widget st i)" "wd_parent (widget st i) = p" "wn_visible (windows st ! p)"
    "is_input (widget st i)" "0 < wd_width (widget st i)"
    using i focused_visible [of st p] by (auto simp: box_focused_def)
  have wi: "widget ?st i = w" "length (widgets ?st) = length (widgets st)" "windows ?st = windows st" "application ?st = application st"
    using i' by (simp_all add: widget_set_widget) (simp_all add: set_widget_def)
  have "wd_visible (widget ?st i)" "wn_visible (parent_of ?st (widget ?st i))" "i < length (widgets ?st)"
    using i' by (simp_all add: wi same parent_of_def)
  note r = repaint_visible [OF this]
  have p: "painted w = w\<lparr>wd_scroll := input_start w\<rparr>"
    using i' same by (simp add: painted_def paint_scroll_def is_input_def)
  have "edit i k st = Some (tui_widget_repaint i ?st)" by (simp add: edit_def w(1))
  moreover have "in_view (painted w)" using input_start_view [of w] i' same by (simp add: in_view_def p)
  moreover have "box_focused p i (tui_widget_repaint i ?st)"
    using i same by (simp add: box_focused_def focused_window_def r wi p is_input_def)
  ultimately show ?thesis using w(2) i'(1) by (simp add: r wi widget_set_widget)
qed

lemma press_box:
  assumes "shows_box m b (widget st i)" "m \<le> 4094" "box_focused p i st" "\<forall>k\<in>set ks. \<not> dispatcher_key k"
  shows "\<exists>st'. press run ks st = Some st' \<and> shows_box m (fold (box_key m) ks b) (widget st' i) \<and>
    (ks \<noteq> [] \<longrightarrow> in_view (widget st' i)) \<and> (\<forall>j. j \<noteq> i \<longrightarrow> widget st' j = widget st j)"
  using assms(1,3,4)
proof (induction ks arbitrary: b st)
  case (Cons k ks)
  obtain s1 where 1: "edit i k st = Some s1" "shows_box m (box_key m k b) (widget s1 i)" "in_view (widget s1 i)" "box_focused p i s1"
    "\<forall>j. j \<noteq> i \<longrightarrow> widget s1 j = widget st j"
    using edit_step [OF Cons.prems(1) assms(2) Cons.prems(2)] by blast
  have nk: "\<not> dispatcher_key k" "\<forall>k\<in>set ks. \<not> dispatcher_key k" using Cons.prems(3) by simp_all
  obtain s2 where 2: "press run ks s1 = Some s2" "shows_box m (fold (box_key m) ks (box_key m k b)) (widget s2 i)"
    "ks \<noteq> [] \<longrightarrow> in_view (widget s2 i)" "\<forall>j. j \<noteq> i \<longrightarrow> widget s2 j = widget s1 j"
    using Cons.IH [OF 1(2,4) nk(2)] by blast
  have e: "press run (k # ks) st = Some s2" by (simp add: dispatch_box [OF Cons.prems(2) nk(1)] 1(1) 2(1))
  have v: "in_view (widget s2 i)"
  proof (cases "ks = []")
    case True
    then show ?thesis using 2(1) 1(3) by simp
  qed (use 2(3) in blast)
  have f: "fold (box_key m) (k # ks) b = fold (box_key m) ks (box_key m k b)" by simp
  have j: "\<forall>j. j \<noteq> i \<longrightarrow> widget s2 j = widget st j" using 1(5) 2(4) by metis
  show ?case unfolding f using e 2(2) v j by blast
qed simp

text \<open>A new text box holds its initial text, with the cursor at the end.\<close>

lemma textbox_create_box:
  assumes "tui_textbox_create (Some p) x y w t maximum password st = (Some i, st')" and "NUL \<notin> set t" and "length t \<le> 4094"
    and "length (widgets st) = TUI_MAX_WIDGETS" and "length (wd_text (widget st (used st))) = 4096"
  shows "i = used st \<and> shows_box (min maximum 127) (t, [], True) (widget st' i)"
proof -
  have c: "cint (length t) = int (length t)" using assms(3) by (simp add: cint_def signed_take_bit_int_eq_self signed_of_nat)
  have cs: "cstr (t @ NUL # zs) = t" for zs using cstr_append_NUL [OF assms(2)] .
  have "used st < TUI_MAX_WIDGETS" using assms(1) by (auto simp: tui_textbox_create_def tui_widget_create_def Let_def split: if_splits)
  then show ?thesis using assms
    by (auto simp: tui_textbox_create_def tui_widget_create_def Let_def widget_def set_widget_def text_copy_def cs c text_len_def
        shows_box_def min_def split: if_splits)
qed

text \<open>C99: A focused text box implements a text with a cursor: whatever keys are sent to the window, other than
  the tabulators, escape and F10, no access leaves the array of the text, the text, the cursor and the
  insert mode are those of inserting, overtyping, deleting and moving in an ideal text of at most \<open>m\<close> characters,
  the cursor is in the visible part of the box, and no other widget changes.\<close>

theorem tui_edit_refines:
  assumes "box_focused p i st" and "shows_box m (l, r, ins) (widget st i)" and "m \<le> 4094" and "\<forall>k\<in>set ks. \<not> dispatcher_key k"
  shows "\<exists>st' l' r' ins'. press run ks st = Some st' \<and> fold (box_key m) ks (l, r, ins) = (l', r', ins') \<and>
    cstr (wd_text (widget st' i)) = l' @ r' \<and> wd_cursor (widget st' i) = int (length l') \<and> wd_insert_mode (widget st' i) = ins' \<and>
    (ks \<noteq> [] \<longrightarrow> in_view (widget st' i)) \<and> (\<forall>j. j \<noteq> i \<longrightarrow> widget st' j = widget st j)"
proof -
  obtain st' where st': "press run ks st = Some st'" "shows_box m (fold (box_key m) ks (l, r, ins)) (widget st' i)"
    "ks \<noteq> [] \<longrightarrow> in_view (widget st' i)" "\<forall>j. j \<noteq> i \<longrightarrow> widget st' j = widget st j"
    using press_box [OF assms(2,3,1,4)] by blast
  obtain l' r' ins' where b: "fold (box_key m) ks (l, r, ins) = (l', r', ins')" by (metis prod_cases3)
  have "cstr (wd_text (widget st' i)) = l' @ r'" "wd_cursor (widget st' i) = int (length l')" "wd_insert_mode (widget st' i) = ins'"
    using st'(2) unfolding b by (auto elim: shows_boxE)
  with st' b show ?thesis by blast
qed

definition demo_box :: "unit tui" where
  "demo_box = snd (tui_textbox_create (Some 0) 1 1 5 ''ab'' 6 False
     (snd (tui_window_create 2 2 20 5 ''t'' 0 (tui_app_create ''x'' (tui_statics ())))))"

theorem tui_edit_refines_witness:
  "\<exists>st'. press (\<lambda>_ _ s. s) [TUI_KEY_LEFT, 88, TUI_KEY_END, 8] demo_box = Some st' \<and>
     cstr (wd_text (widget st' 0)) = ''aX'' \<and> wd_cursor (widget st' 0) = 2 \<and> in_view (widget st' 0)"
proof -
  let ?s = "snd (tui_window_create 2 2 20 5 ''t'' 0 (tui_app_create ''x'' (tui_statics ())))"
  note d = tui_window_create_def tui_app_create_def tui_statics_def TUI_MAX_WINDOWS_def TUI_MAX_WIDGETS_def blank_window_def
    Let_def copy_text_def clamp_pos_def TUI_WINDOW_CENTER_def TUI_WINDOW_DOUBLE_BORDER_def TUI_WINDOW_MODAL_def
  have "tui_textbox_create (Some 0) 1 1 5 ''ab'' 6 False ?s = (Some 0, demo_box)"
    by (rule prod_eqI) (simp_all add: demo_box_def tui_textbox_create_def tui_widget_create_def d)
  from textbox_create_box [OF this] have box: "shows_box 6 (''ab'', [], True) (widget demo_box 0)"
    by (simp add: d widget_def blank_widget_def)
  have f: "box_focused 0 0 demo_box"
    by (simp add: demo_box_def box_focused_def tui_textbox_create_def tui_widget_create_def d focused_window_def is_input_def
        widget_def set_widget_def)
  have k: "\<forall>k\<in>set [TUI_KEY_LEFT, 88, TUI_KEY_END, 8]. \<not> dispatcher_key k" by (simp add: dispatcher_key_def key_defs)
  have x: "chr 88 = CHR ''X''" by code_simp
  have b: "fold (box_key 6) [TUI_KEY_LEFT, 88, TUI_KEY_END, 8] (''ab'', [], True) = (''aX'', [], True)"
    using x by (simp add: box_key_def key_defs)
  from tui_edit_refines [OF f box _ k, of "\<lambda>_ _ s. s"] show ?thesis unfolding b by auto
qed

section \<open>Rendering\<close>

text \<open>
  What the functions of the library other than \<open>tui_render\<close>, \<open>tui_next_event\<close>, \<open>tui_initialize\<close> and
  \<open>tui_shutdown\<close>, and the program itself, do to the screen: they leave the terminal and the front
  buffer alone, and a change of the back buffer is marked in \<open>dirty\<close>.
\<close>

definition marks :: "'w tui \<Rightarrow> 'w tui \<Rightarrow> bool" where
  "marks st st' \<longleftrightarrow> world st' = world st \<and> front_buffer st' = front_buffer st \<and> swidth st' = swidth st \<and>
     sheight st' = sheight st \<and> initialized st' = initialized st \<and>
     (dirty st' \<or> \<not> dirty st \<and> back_buffer st' = back_buffer st)"

lemma marks_refl [simp]: "marks st st"
  by (simp add: marks_def)

lemma marks_trans [trans]: "marks st st' \<Longrightarrow> marks st' st'' \<Longrightarrow> marks st st''"
  by (auto simp: marks_def)

lemma marks_drawn: "drawn st st' \<Longrightarrow> marks st st'"
  using drawn_simps [of st st'] drawn_marks [of st st'] by (simp add: marks_def)

lemma marks_fold: "(\<And>i st. marks st (f i st)) \<Longrightarrow> marks st (fold f xs st)"
  by (induction xs arbitrary: st) (auto intro: marks_trans)

lemma marks_set_widget: "marks st (set_widget i w st)"
  by (simp add: marks_def set_widget_def)

lemma marks_draw_one: "marks st (tui_draw_one i t st)"
  by (rule marks_trans [OF marks_set_widget marks_drawn [OF tui_draw_one_painted]])

lemma marks_window_draw: "marks st (tui_window_draw w st)"
proof -
  have d: "drawn st (double_title w st)" for st :: "'a tui"
    unfolding double_title_def Let_def
    by (intro drawn_trans [OF _ drawn_fill] drawn_trans [OF _ drawn_for_int] drawn_text drawn_fill)
  have s: "drawn st (single_title w st)" for st :: "'a tui"
    unfolding single_title_def Let_def by (intro drawn_trans [OF _ drawn_text] drawn_text)
  have b: "drawn st (tui_box x y wi he dbl fg bg st)" for st :: "'a tui" and x y wi he dbl fg bg
    unfolding tui_box_def Let_def by (auto intro: drawn_trans [OF drawn_fill drawn_frame])
  have "drawn st (tui_window_draw w st)"
    unfolding tui_window_draw_def Let_def
    by (auto intro: drawn_trans [OF _ d] drawn_trans [OF _ s] drawn_trans [OF drawn_fill drawn_frame] b)
  then show ?thesis by (rule marks_drawn)
qed

lemma marks_redraw: "marks st (tui_request_redraw st)"
  by (simp add: marks_def tui_request_redraw_def)

lemma marks_application: "marks st (st\<lparr>application := p\<rparr>)"
  by (simp add: marks_def)

lemma marks_draw_all: "marks st (draw_all st) \<and> dirty (draw_all st)"
proof -
  have w: "marks st (draw_window p st)" for p and st :: "'a tui"
    unfolding draw_window_def tui_draw_widgets_def by (auto intro: marks_trans [OF marks_window_draw] marks_fold marks_draw_one)
  let ?f = "tui_fill 0 0 (int (swidth st)) (int (sheight st)) 32 (desktop_fg (theme st)) (desktop_bg (theme st)) st"
  have "marks ?f (fold draw_window (app_windows (application st)) ?f)" by (intro marks_fold w)
  moreover have "marks st ?f" by (rule marks_drawn) simp
  moreover have "dirty ?f" by (simp add: tui_fill_def)
  ultimately have "marks st (fold draw_window (app_windows (application st)) ?f) \<and>
      dirty (fold draw_window (app_windows (application st)) ?f)"
    by (meson marks_def marks_trans)
  then show ?thesis by (simp add: draw_all_def Let_def marks_def)
qed

lemma marks_drawing:
  "marks st (tui_fill x y w h ch fg bg st)" "marks st (tui_text x y s fg bg l st)" "marks st (tui_window_draw v st)"
  "marks st (tui_draw_one i t st)" "marks st (tui_draw_widgets p t st)"
  by (simp_all add: marks_drawn marks_window_draw marks_draw_one tui_draw_widgets_def marks_fold)

lemma marks_windows:
  "marks st (tui_use_ascii on st)" "marks st (tui_set_theme th st)" "marks st (tui_app_create nm st)"
  "marks st (snd (tui_window_create x y w h title flags st))" "marks st (tui_window_destroy p st)"
  "marks st (tui_window_show p st)" "marks st (tui_window_hide p st)" "marks st (tui_window_focus p st)"
  "marks st (tui_post_event e st)" "marks st (tui_app_stop st)"
  by (simp_all add: marks_def tui_use_ascii_def tui_set_theme_def tui_app_create_def tui_window_create_def Let_def
      tui_window_destroy_def tui_window_show_def tui_window_hide_def set_visible_def tui_window_focus_def tui_post_event_def
      tui_app_stop_def stop_def)

lemma marks_create: "marks st (snd (tui_widget_create ty p x y w h t st))"
  by (simp add: tui_widget_create_def set_widget_def marks_def Let_def split: option.split)

lemma marks_repaint: "marks st (tui_widget_repaint i st)"
proof -
  have "marks s (s\<lparr>dirty := True\<rparr>)" for s :: "'a tui" by (simp add: marks_def)
  then show ?thesis by (auto simp: tui_widget_repaint_def intro: marks_trans [OF marks_draw_one])
qed

lemma marks_set_focus: "marks st (tui_widget_set_focus i st)"
proof -
  have "marks st (set_focused b k st)" for b k and st :: "'a tui" by (simp add: set_focused_def marks_set_widget)
  then have "marks st (set_focused True i (fold (set_focused False) cs st))" for cs by (meson marks_fold marks_trans)
  moreover have "marks s (s\<lparr>windows := ws\<rparr>)" for s :: "'a tui" and ws by (simp add: marks_def)
  ultimately have "marks st ((set_focused True i (fold (set_focused False) cs st))\<lparr>windows := ws\<rparr>)" for cs ws
    by (rule marks_trans)
  then show ?thesis unfolding tui_widget_set_focus_def Let_def
    by (auto intro: marks_trans [OF _ marks_repaint] marks_trans [OF _ marks_redraw])
qed

lemma marks_focus_move: "marks st (focus_move p d st)"
proof -
  have "marks st (focus_search cs d n at st)" for cs n at
    by (induction cs d n at st rule: focus_search.induct) (auto simp: Let_def marks_set_focus)
  then show ?thesis by (simp add: focus_move_def Let_def)
qed

lemma marks_edit: "edit i key st = Some st' \<Longrightarrow> marks st st'"
  by (auto simp: edit_def intro: marks_trans [OF marks_set_widget marks_repaint])

text \<open>The run of a program: calls of the library, waits for an event, and renderings, in any order.\<close>

inductive app_step :: "'w api \<Rightarrow> 'w tui \<Rightarrow> 'w tui \<Rightarrow> bool" for a where
  work: "marks st st' \<Longrightarrow> app_step a st st'"
| event: "app_step a st (snd (tui_next_event a st))"
| render: "app_step a st (tui_render a st)"

text \<open>The dispatch of an event and the event loop are such runs, when the callbacks are.\<close>

lemma widget_event_steps:
  assumes "widget_event run i key st = Some st'" and "\<And>cb j s. (app_step a)\<^sup>*\<^sup>* s (run cb j s)"
  shows "(app_step a)\<^sup>*\<^sup>* st st'"
proof -
  have act: "(app_step a)\<^sup>*\<^sup>* s (activate run j s)" for j s using assms(2) by (simp add: activate_def split: option.split)
  have set: "(app_step a)\<^sup>*\<^sup>* s (set_widget j w s)" for j w s by (intro r_into_rtranclp app_step.work marks_set_widget)
  have red: "(app_step a)\<^sup>*\<^sup>* s (tui_request_redraw s')" if "(app_step a)\<^sup>*\<^sup>* s s'" for s s'
    using that app_step.work [OF marks_redraw] by (rule rtranclp.rtrancl_into_rtrancl)
  have ed: "edit i key st = Some st' \<Longrightarrow> ?thesis" by (intro r_into_rtranclp app_step.work marks_edit)
  show ?thesis using assms(1) unfolding widget_event_def Let_def
    by (auto split: if_splits intro: ed red act set rtranclp_trans [OF set act])
qed

lemma dispatch_steps:
  assumes "tui_dispatch_event run e st = Some st'" and "\<And>cb j s. (app_step a)\<^sup>*\<^sup>* s (run cb j s)"
  shows "(app_step a)\<^sup>*\<^sup>* st st'"
proof -
  have "marks st (stop st)" by (simp add: stop_def marks_def)
  then have "(app_step a)\<^sup>*\<^sup>* st (stop st)" by (intro r_into_rtranclp app_step.work)
  moreover have "(app_step a)\<^sup>*\<^sup>* st (focus_move p d st)" for p d by (intro r_into_rtranclp app_step.work marks_focus_move)
  ultimately show ?thesis using assms(1) widget_event_steps [OF _ assms(2)]
    unfolding tui_dispatch_event_def Let_def by (auto split: if_splits option.splits)
qed

lemma app_loop_steps:
  assumes "app_loop a run st = Some st'" and "\<And>cb j s. (app_step a)\<^sup>*\<^sup>* s (run cb j s)"
  shows "(app_step a)\<^sup>*\<^sup>* st st'"
  using assms
proof (induction rule: app_loop.raw_induct [rotated, consumes 1])
  case (1 loop a run st st')
  show ?case
  proof (cases "running (application st)")
    case True
    obtain e s where e: "tui_next_event a st = (e, s)" by (cases "tui_next_event a st")
    obtain s' where s': "tui_dispatch_event run e s = Some s'" "loop a run (tui_render a s') = Some st'"
      using 1(2) True e by (auto simp: bind_eq_Some_conv)
    have "app_step a st s" using app_step.event [of a st] e by simp
    also have "(app_step a)\<^sup>*\<^sup>* s s'" using s'(1) 1(3) by (rule dispatch_steps)
    also have "app_step a s' (tui_render a s')" by (rule app_step.render)
    also have "(app_step a)\<^sup>*\<^sup>* (tui_render a s') st'" by (rule 1(1) [OF s'(2) 1(3)])
    finally show ?thesis by (simp add: tranclp_into_rtranclp)
  qed (use 1(2) in simp)
qed

lemma app_run_steps:
  assumes "tui_app_run a run st = Some st'" and "\<And>cb j s. (app_step a)\<^sup>*\<^sup>* s (run cb j s)"
  shows "(app_step a)\<^sup>*\<^sup>* st st'"
  using app_step.render app_loop_steps [OF assms(1) [unfolded tui_app_run_def] assms(2)] by (rule converse_rtranclp_into_rtranclp)

lemma flush_fields:
  "initialized (tui_flush a st) = initialized st" "swidth (tui_flush a st) = swidth st" "sheight (tui_flush a st) = sheight st"
  "back_buffer (tui_flush a st) = back_buffer st"
proof -
  let ?f = "\<lambda>st :: 'a tui. (initialized st, swidth st, sheight st, back_buffer st)"
  have c: "?f (flush_cell a x y st) = ?f st" for x y st by (simp add: flush_cell_def Let_def)
  have "?f (fold (\<lambda>x. flush_cell a x y) xs st) = ?f st" for y xs st
    by (induction xs arbitrary: st) (use c in auto)
  then have "?f (fold (\<lambda>y. fold (\<lambda>x. flush_cell a x y) xs) ys st) = ?f st" for xs ys st
    by (induction ys arbitrary: st) auto
  then show "initialized (tui_flush a st) = initialized st" "swidth (tui_flush a st) = swidth st"
    "sheight (tui_flush a st) = sheight st" "back_buffer (tui_flush a st) = back_buffer st"
    by (simp_all add: tui_flush_def)
qed

lemma update_cursor_fields:
  "swidth (tui_update_cursor a st) = swidth st" "sheight (tui_update_cursor a st) = sheight st"
  "back_buffer (tui_update_cursor a st) = back_buffer st"
  by (simp_all add: tui_update_cursor_def Let_def split: option.split prod.split)

context terminal
begin

text \<open>The buffers agree with the terminal, and a cell that is not yet sent is marked in \<open>dirty\<close>.\<close>

definition rendered :: "'w tui \<Rightarrow> bool" where
  "rendered st \<longleftrightarrow> initialized st \<and> fits st \<and> in_sync st \<and> (dirty st \<or> all_flushed st)"

lemma rendered_marks: "marks st st' \<Longrightarrow> rendered st \<Longrightarrow> rendered st'"
  by (auto simp: marks_def rendered_def fits_def in_sync_def all_flushed_def flushed_def)

lemma rendered_world:
  assumes "rendered st" and "usable w" and "shown w = shown (world st)" and "terminal_width a w = terminal_width a (world st)"
    and "terminal_height a w = terminal_height a (world st)"
  shows "rendered (st\<lparr>world := w\<rparr>)"
  using assms by (auto simp: rendered_def fits_def in_sync_def shows_cell_def all_flushed_def flushed_def Let_def)

lemma rendered_event:
  assumes "rendered st"
  shows "rendered (snd (tui_next_event a st))"
proof (cases "posted st")
  case None
  have "usable (world st)" using assms by (simp add: rendered_def fits_def)
  then have "rendered (st\<lparr>world := snd (terminal_read_key a (world st))\<rparr>)" using key_keeps [of "world st"] by (intro rendered_world assms) simp_all
  then show ?thesis using None by (simp add: tui_next_event_def case_prod_beta)
next
  case (Some e)
  then show ?thesis using rendered_marks [OF _ assms, of "st\<lparr>posted := None\<rparr>"] by (simp add: tui_next_event_def marks_def)
qed

lemma rendered_cursor:
  assumes "rendered st"
  shows "rendered (tui_update_cursor a st)" "all_flushed (tui_update_cursor a st) = all_flushed st"
proof -
  obtain i j v b where c: "tui_update_cursor a st = st\<lparr>world := terminal_cursor a i j v b (world st)\<rparr>"
    unfolding tui_update_cursor_def Let_def by (cases "cursor_target st (rev (app_windows (application st)))") (auto simp: case_prod_beta)
  have "usable (world st)" using assms by (simp add: rendered_def fits_def)
  then show "rendered (tui_update_cursor a st)" unfolding c using cursor_keeps [of "world st" i j v b] by (intro rendered_world assms) simp_all
  show "all_flushed (tui_update_cursor a st) = all_flushed st" by (simp add: c all_flushed_def flushed_def)
qed

lemma rendered_render:
  assumes "rendered st"
  shows "rendered (tui_render a st) \<and> all_flushed (tui_render a st)"
proof -
  define s where "s = (if redraw (application st) then draw_all st else st)"
  have r: "rendered s" using rendered_marks [OF _ assms] marks_draw_all [of st] assms by (auto simp: s_def)
  then have f: "fits s" "in_sync s" "initialized s" by (simp_all add: rendered_def)
  have "rendered (tui_flush a s)" "all_flushed (tui_flush a s)"
    using tui_flush_keeps [OF f(1,2)] f(3) by (simp_all add: rendered_def flush_fields(1))
  note c = rendered_cursor [OF this(1)] this(2)
  have "initialized st" using assms by (simp add: rendered_def)
  then have "tui_render a st = (if \<not> dirty s then s else tui_update_cursor a (tui_flush a s))" by (simp add: tui_render_def s_def Let_def)
  then show ?thesis using r c by (auto simp: rendered_def)
qed

lemma app_steps_rendered: "(app_step a)\<^sup>*\<^sup>* st st' \<Longrightarrow> rendered st \<Longrightarrow> rendered st'"
proof (induction rule: rtranclp_induct)
  case (step s s')
  from step(2) step(3) [OF step(4)] show ?case by cases (auto simp: rendered_event rendered_render elim: rendered_marks)
qed

text \<open>After a rendering the terminal shows the back buffer.\<close>

lemma render_shows:
  assumes "(app_step a)\<^sup>*\<^sup>* st st'" and "rendered st" and "x < swidth (tui_render a st')" and "y < sheight (tui_render a st')"
    and "b = back_buffer (tui_render a st') (y * SCREEN_STRIDE + x)" and "character b \<noteq> 0xFFFFFFFF"
  shows "shows_cell (world (tui_render a st')) x y b"
  using rendered_render [OF app_steps_rendered [OF assms(1,2)]] assms(3,4,6) unfolding assms(5)
  by (intro in_sync_shows) (simp_all add: rendered_def all_flushed_def)

end

end
