(* ===== verification/Terminal.thy ===== *)
theory Terminal
  imports Ansi TUI_Widgets
begin

text \<open>
  The terminal part of the application interface (\<^verbatim>\<open>src/kernel/core/kernel.c\<close>, the functions
  \<open>abi_write\<close>, \<open>abi_putc\<close> and \<open>abi_terminal_*\<close>): a full-screen program acquires the console, which saves
  its cells, draws in a centred 80 x 25 area, and gives it back with the old contents.

  \<open>kernel_api\<close> is the table of function pointers as the user-interface library sees it. What the
  keyboard, the serial line and the clock give during the wait for a key is the argument \<open>inp\<close>.
\<close>

section \<open>Operations\<close>

record 'w kterm =
  ans :: "'w ansi"
  terminal_owned :: bool
  terminal_saved :: "nat \<Rightarrow> u16"
  terminal_saved_width :: nat
  terminal_saved_height :: nat
  terminal_saved_x :: nat
  terminal_saved_y :: nat

abbreviation con :: "'w kterm \<Rightarrow> 'w display" where
  "con s \<equiv> disp (ans s)"

definition on_con :: "('w display \<Rightarrow> 'w display) \<Rightarrow> 'w kterm \<Rightarrow> 'w kterm" where
  "on_con f s = s\<lparr>ans := (ans s)\<lparr>disp := f (con s)\<rparr>\<rparr>"

definition abi_write :: "'w ports \<Rightarrow> string \<Rightarrow> 'w kterm \<Rightarrow> 'w kterm" where
  "abi_write io t s = (if terminal_owned s then s\<lparr>ans := ansi_write io t (ans s)\<rparr> else on_con (display_puts io t) s)"

definition abi_putc :: "'w ports \<Rightarrow> char \<Rightarrow> 'w kterm \<Rightarrow> 'w kterm" where
  "abi_putc io c s =
     (if terminal_owned s then s\<lparr>ans := ansi_flush io (ansi_putchar c (ans s))\<rparr> else on_con (display_putc io c) s)"

definition terminal_origin_x :: "'w kterm \<Rightarrow> nat" where
  "terminal_origin_x s = (if width (con s) > 80 then (width (con s) - 80) div 2 else 0)"

definition terminal_origin_y :: "'w kterm \<Rightarrow> nat" where
  "terminal_origin_y s = (if height (con s) > 25 then (height (con s) - 25) div 2 else 0)"

definition save_cells :: "'w kterm \<Rightarrow> nat \<Rightarrow> u16" where
  "save_cells s = fold (\<lambda>y. fold (\<lambda>x m. m(y * 216 + x := display_cell x y (con s))) [0..<width (con s)]) [0..<height (con s)] (terminal_saved s)"

definition blank_cells :: "'w ports \<Rightarrow> 'w display \<Rightarrow> 'w display" where
  "blank_cells io d = fold (\<lambda>y. fold (\<lambda>x. display_set_cell io x y 32 0x07) [0..<width d]) [0..<height d] d"

definition abi_terminal_acquire :: "'w ports \<Rightarrow> 'w kterm \<Rightarrow> bool \<times> 'w kterm" where
  "abi_terminal_acquire io s =
     (if terminal_owned s then (False, s)
      else let d = con s;
               s = s\<lparr>terminal_owned := True, terminal_saved_width := width d, terminal_saved_height := height d,
                     terminal_saved := save_cells s, terminal_saved_x := col d, terminal_saved_y := row d\<rparr>;
               s = on_con (\<lambda>d. display_serial_clear io (display_serial_cells True (blank_cells io
                     (display_serial_cells False (display_cursor_set io 0 0 False True d))))) s
           in (True, s\<lparr>ans := ansi_reset (ans s)\<rparr>))"

definition restore_cells :: "'w ports \<Rightarrow> nat \<Rightarrow> nat \<Rightarrow> (nat \<Rightarrow> u16) \<Rightarrow> 'w display \<Rightarrow> 'w display" where
  "restore_cells io w h m d = fold (\<lambda>y. fold (\<lambda>x. display_set_cell io x y (cell_char (m (y * 216 + x))) (cell_attr (m (y * 216 + x)))) [0..<w]) [0..<h] d"

definition abi_terminal_release :: "'w ports \<Rightarrow> 'w kterm \<Rightarrow> 'w kterm" where
  "abi_terminal_release io s =
     (if \<not> terminal_owned s then s
      else (on_con (\<lambda>d. display_cursor_set io (terminal_saved_x s) (terminal_saved_y s) True True
              (display_serial_clear io (display_serial_cells True
                (restore_cells io (terminal_saved_width s) (terminal_saved_height s) (terminal_saved s)
                  (display_serial_cells False (display_cursor_set io 0 0 False True d)))))) s)\<lparr>terminal_owned := False\<rparr>)"

text \<open>What a wait for a key meets in a state: the key, the times of the rounds that blink the cursor, the time of the
  key, and the hardware after the reads of the keyboard, of the serial line and of the polled services.\<close>

type_synonym 'w key_source = "'w kterm \<Rightarrow> char \<times> u64 list \<times> u64 \<times> 'w"

definition input_result :: "u64 \<Rightarrow> char \<Rightarrow> 'w kterm \<Rightarrow> char \<times> 'w kterm" where
  "input_result now c s = (c, on_con (display_cursor_activity now) s)"

definition input :: "'w key_source \<Rightarrow> 'w kterm \<Rightarrow> char \<times> 'w kterm" where
  "input inp s = (let (c, rounds, now, w) = inp s
     in input_result now c (on_con (\<lambda>d. (fold display_cursor_tick rounds d)\<lparr>hw := w\<rparr>) s))"

definition abi_terminal_key :: "'w key_source \<Rightarrow> 'w kterm \<Rightarrow> u32 \<times> 'w kterm" where
  "abi_terminal_key inp s = (if \<not> terminal_owned s then (0, s) else let (c, s) = input inp s in (ucast (ord c), s))"

definition abi_terminal_poll_key :: "'w key_source \<Rightarrow> 'w kterm \<Rightarrow> u32 \<times> 'w kterm" where
  "abi_terminal_poll_key inp s =
     (if \<not> terminal_owned s then (0, s)
      else let (c, _, now, w) = inp s; s = on_con (\<lambda>d. d\<lparr>hw := w\<rparr>) s
        in (ucast (ord c), if c \<noteq> NUL then on_con (display_cursor_activity now) s else s))"

definition abi_terminal_cell :: "'w ports \<Rightarrow> nat \<Rightarrow> nat \<Rightarrow> u32 \<Rightarrow> u8 \<Rightarrow> 'w kterm \<Rightarrow> 'w kterm" where
  "abi_terminal_cell io x y ch a s =
     (if terminal_owned s \<and> x < 80 \<and> y < 25
      then on_con (display_set_cell io (terminal_origin_x s + x) (terminal_origin_y s + y) (display_codepoint_glyph ch) a) s
      else s)"

text \<open>The coordinates are \<open>unsigned\<close>: a negative position becomes a large one.\<close>

definition abi_terminal_cursor :: "'w ports \<Rightarrow> int \<Rightarrow> int \<Rightarrow> bool \<Rightarrow> bool \<Rightarrow> 'w kterm \<Rightarrow> 'w kterm" where
  "abi_terminal_cursor io x y visible block s =
     (if terminal_owned s
      then let x = nat (x mod 2 ^ 32); y = nat (y mod 2 ^ 32)
           in on_con (display_cursor_set io (terminal_origin_x s + (if x < 80 then x else 79))
                (terminal_origin_y s + (if y < 25 then y else 24)) visible block) s
      else s)"

definition abi_terminal_width :: "'w kterm \<Rightarrow> nat" where
  "abi_terminal_width s = min (width (con s)) 80"

definition abi_terminal_height :: "'w kterm \<Rightarrow> nat" where
  "abi_terminal_height s = min (height (con s)) 25"

text \<open>The interface table; \<open>system_query\<close> answers 1 for the key \<open>terminal.unicode\<close>.\<close>

definition kernel_api :: "'w ports \<Rightarrow> 'w key_source \<Rightarrow> 'w kterm api" where
  "kernel_api io inp = \<lparr>version = 7, terminal_acquire = abi_terminal_acquire io, terminal_release = abi_terminal_release io,
     terminal_read_key = abi_terminal_key inp, terminal_write_cell = abi_terminal_cell io,
     terminal_cursor = abi_terminal_cursor io, terminal_width = abi_terminal_width, terminal_height = abi_terminal_height,
     terminal_unicode = (\<lambda>_. True)\<rparr>"

section \<open>The console under the terminal\<close>

lemma on_con_simps [simp]:
  "con (on_con f s) = f (con s)" "terminal_owned (on_con f s) = terminal_owned s" "terminal_saved (on_con f s) = terminal_saved s"
  "terminal_saved_width (on_con f s) = terminal_saved_width s" "terminal_saved_height (on_con f s) = terminal_saved_height s"
  "terminal_saved_x (on_con f s) = terminal_saved_x s" "terminal_saved_y (on_con f s) = terminal_saved_y s"
  by (simp_all add: on_con_def)

lemma display_set_cell_simps [simp]:
  "width (display_set_cell io x y ch a d) = width d" "height (display_set_cell io x y ch a d) = height d"
  "framebuffer (display_set_cell io x y ch a d) = framebuffer d" "fb_pitch (display_set_cell io x y ch a d) = fb_pitch d"
  "row (display_set_cell io x y ch a d) = row d" "col (display_set_cell io x y ch a d) = col d"
  by (simp_all add: display_set_cell_def Let_def)

lemma display_cursor_set_simps [simp]:
  "width (display_cursor_set io x y v b d) = width d" "height (display_cursor_set io x y v b d) = height d"
  "framebuffer (display_cursor_set io x y v b d) = framebuffer d" "fb_pitch (display_cursor_set io x y v b d) = fb_pitch d"
  "cells (display_cursor_set io x y v b d) = cells d"
  by (simp_all add: display_cursor_set_def Let_def)

lemma display_cell_set_cell:
  assumes "geometry_ok d"
  shows "display_cell x' y' (display_set_cell io x y ch a d) =
    (if x' = x \<and> y' = y \<and> x < width d \<and> y < height d then pack a ch else display_cell x' y' d)"
proof -
  have s: "fst (screen (render_cell x y ch a d)) x' y' = tty_store (width d) (height d) x y (pack a ch) (fst (screen d)) x' y'"
    using screen_render [OF assms] by simp
  have "cells (display_set_cell io x y ch a d) = cells (render_cell x y ch a d)"
    by (simp add: display_set_cell_def Let_def)
  then have "display_cell x' y' (display_set_cell io x y ch a d) = display_cell x' y' (render_cell x y ch a d)"
    by (simp add: display_cell_def)
  with s show ?thesis by (simp add: screen_def tty_store_def)
qed

lemma geometry_set_cell [simp]: "geometry_ok (display_set_cell io x y ch a d) = geometry_ok d"
  by (rule geometry_ok_cong) simp_all

section \<open>The contract of the user-interface library\<close>

definition kusable :: "'w kterm \<Rightarrow> bool" where
  "kusable s \<longleftrightarrow> terminal_owned s \<and> geometry_ok (con s)"

definition kshown :: "'w kterm \<Rightarrow> nat \<Rightarrow> nat \<Rightarrow> u8 \<times> u8" where
  "kshown s x y = (let v = display_cell (terminal_origin_x s + x) (terminal_origin_y s + y) (con s) in (cell_char v, cell_attr v))"

lemma origin_cell [simp]:
  "terminal_origin_x (abi_terminal_cell io x y ch a s) = terminal_origin_x s"
  "terminal_origin_y (abi_terminal_cell io x y ch a s) = terminal_origin_y s"
  by (simp_all add: abi_terminal_cell_def terminal_origin_x_def terminal_origin_y_def)

text \<open>The cursor and the wait for a key leave the cells and the size.\<close>

lemma tick_keeps [simp]:
  "width (display_cursor_tick now d) = width d" "height (display_cursor_tick now d) = height d" "cells (display_cursor_tick now d) = cells d"
  "framebuffer (display_cursor_tick now d) = framebuffer d" "fb_pitch (display_cursor_tick now d) = fb_pitch d"
  "width (display_cursor_activity now d) = width d" "height (display_cursor_activity now d) = height d"
  "cells (display_cursor_activity now d) = cells d" "framebuffer (display_cursor_activity now d) = framebuffer d"
  "fb_pitch (display_cursor_activity now d) = fb_pitch d"
  by (simp_all add: display_cursor_tick_def display_cursor_activity_def)

lemma ticks_keep [simp]:
  "width (fold display_cursor_tick ts d) = width d" "height (fold display_cursor_tick ts d) = height d"
  "cells (fold display_cursor_tick ts d) = cells d" "framebuffer (fold display_cursor_tick ts d) = framebuffer d"
  "fb_pitch (fold display_cursor_tick ts d) = fb_pitch d"
  by (induction ts arbitrary: d) simp_all

definition same_cells :: "'w kterm \<Rightarrow> 'w kterm \<Rightarrow> bool" where
  "same_cells s s' \<longleftrightarrow> terminal_owned s' = terminal_owned s \<and> width (con s') = width (con s) \<and> height (con s') = height (con s) \<and>
     cells (con s') = cells (con s) \<and> framebuffer (con s') = framebuffer (con s) \<and> fb_pitch (con s') = fb_pitch (con s)"

lemma same_cells_terminal:
  assumes "same_cells s s'" and "kusable s"
  shows "kusable s' \<and> kshown s' = kshown s \<and> abi_terminal_width s' = abi_terminal_width s \<and> abi_terminal_height s' = abi_terminal_height s"
proof -
  have "geometry_ok (con s') = geometry_ok (con s)" using assms(1) by (intro geometry_ok_cong) (simp_all add: same_cells_def)
  moreover have "display_cell x y (con s') = display_cell x y (con s)" for x y using assms(1) by (simp add: display_cell_def same_cells_def)
  ultimately show ?thesis using assms
    by (simp add: kusable_def kshown_def fun_eq_iff Let_def abi_terminal_width_def abi_terminal_height_def terminal_origin_x_def
        terminal_origin_y_def same_cells_def)
qed

lemma same_cells_key: "same_cells s (snd (abi_terminal_key inp s))"
  by (simp add: abi_terminal_key_def input_def input_result_def same_cells_def case_prod_beta Let_def)

lemma same_cells_cursor: "same_cells s (abi_terminal_cursor io x y v b s)"
  by (simp add: abi_terminal_cursor_def same_cells_def Let_def)

interpretation kt: terminal "kernel_api io inp" kusable kshown display_codepoint_glyph
proof
  fix w :: "'a kterm" and x y x' y' :: nat and ch at
  show "kusable w \<Longrightarrow> kusable (terminal_write_cell (kernel_api io inp) x y ch at w)"
    by (simp add: kernel_api_def kusable_def abi_terminal_cell_def)
  show "terminal_width (kernel_api io inp) (terminal_write_cell (kernel_api io inp) x y ch at w) = terminal_width (kernel_api io inp) w"
    "terminal_height (kernel_api io inp) (terminal_write_cell (kernel_api io inp) x y ch at w) = terminal_height (kernel_api io inp) w"
    by (simp_all add: kernel_api_def abi_terminal_cell_def abi_terminal_width_def abi_terminal_height_def)
  fix i j v b
  show "kusable w \<Longrightarrow> kusable (terminal_cursor (kernel_api io inp) i j v b w) \<and> kshown (terminal_cursor (kernel_api io inp) i j v b w) = kshown w \<and>
      terminal_width (kernel_api io inp) (terminal_cursor (kernel_api io inp) i j v b w) = terminal_width (kernel_api io inp) w \<and>
      terminal_height (kernel_api io inp) (terminal_cursor (kernel_api io inp) i j v b w) = terminal_height (kernel_api io inp) w"
    using same_cells_terminal [OF same_cells_cursor] by (simp add: kernel_api_def)
  show "kusable w \<Longrightarrow> kusable (snd (terminal_read_key (kernel_api io inp) w)) \<and> kshown (snd (terminal_read_key (kernel_api io inp) w)) = kshown w \<and>
      terminal_width (kernel_api io inp) (snd (terminal_read_key (kernel_api io inp) w)) = terminal_width (kernel_api io inp) w \<and>
      terminal_height (kernel_api io inp) (snd (terminal_read_key (kernel_api io inp) w)) = terminal_height (kernel_api io inp) w"
    using same_cells_terminal [OF same_cells_key] by (simp add: kernel_api_def)
  assume u: "kusable w" and b: "x < terminal_width (kernel_api io inp) w" "y < terminal_height (kernel_api io inp) w"
    "x' < terminal_width (kernel_api io inp) w" "y' < terminal_height (kernel_api io inp) w"
  have g: "geometry_ok (con w)" "terminal_owned w" using u by (simp_all add: kusable_def)
  have "terminal_origin_x w + x < width (con w)" "terminal_origin_y w + y < height (con w)" "x < 80" "y < 25"
    using b by (auto simp: kernel_api_def abi_terminal_width_def abi_terminal_height_def terminal_origin_x_def terminal_origin_y_def)
  then show "kshown (terminal_write_cell (kernel_api io inp) x y ch at w) x' y' =
      (if x' = x \<and> y' = y then (display_codepoint_glyph ch, at) else kshown w x' y')"
    using g by (simp add: kernel_api_def kshown_def Let_def) (simp add: abi_terminal_cell_def display_cell_set_cell [OF g(1)])
qed

section \<open>A session\<close>

text \<open>What a program does between acquiring and releasing the terminal. A command it runs through \<open>abi_dispatch\<close> does
  any sequence of console operations; it is one that leaves the screen at its size and does not itself release the
  terminal.\<close>

inductive session_step :: "'w ports \<Rightarrow> 'w kterm \<Rightarrow> 'w kterm \<Rightarrow> bool" for io where
  put_cell: "session_step io s (abi_terminal_cell io x y ch a s)"
| put_cursor: "session_step io s (abi_terminal_cursor io x y v b s)"
| put_text: "session_step io s (abi_write io t s)"
| put_char: "session_step io s (abi_putc io c s)"
| key: "session_step io s (snd (abi_terminal_key inp s))"
| poll_key: "session_step io s (snd (abi_terminal_poll_key inp s))"
| command: "(console_step io)\<^sup>*\<^sup>* (con s) d \<Longrightarrow> width d = width (con s) \<Longrightarrow> height d = height (con s) \<Longrightarrow>
    session_step io s (on_con (\<lambda>_. d) s)"

text \<open>What the steps keep.\<close>

definition saved_as :: "'w kterm \<Rightarrow> 'w kterm \<Rightarrow> bool" where
  "saved_as s s' \<longleftrightarrow> terminal_saved s' = terminal_saved s \<and> terminal_saved_width s' = terminal_saved_width s \<and>
     terminal_saved_height s' = terminal_saved_height s \<and> terminal_saved_x s' = terminal_saved_x s \<and>
     terminal_saved_y s' = terminal_saved_y s \<and> terminal_owned s' = terminal_owned s"

definition same_size :: "'w display \<Rightarrow> 'w display \<Rightarrow> bool" where
  "same_size d d' \<longleftrightarrow> width d' = width d \<and> height d' = height d \<and> (console_ok d \<longrightarrow> console_ok d')"

lemma same_size_refl: "same_size d d"
  by (simp add: same_size_def)

lemma same_size_trans: "same_size d d' \<Longrightarrow> same_size d' d'' \<Longrightarrow> same_size d d''"
  by (simp add: same_size_def)

lemma same_size_fold: "(\<And>x d. same_size d (f x d)) \<Longrightarrow> same_size d (fold f xs d)"
  by (induction xs arbitrary: d) (auto intro: same_size_refl same_size_trans)


lemma same_size_ops:
  "same_size d (display_set_cell io x y ch a d)" "same_size d (display_cursor_set io x y v b d)"
  "same_size d (display_cursor_tick now d)" "same_size d (display_cursor_activity now d)"
  "same_size d (display_serial_cells on d)" "same_size d (display_serial_clear io d)"
  using console_step_ok [OF console_step.serial_cells, of d] console_step_ok [OF console_step.serial_clear, of d]
  by (simp_all add: same_size_def display_set_cell_ok display_cursor_set_ok tick_ok activity_ok
      display_serial_cells_def display_serial_clear_def)

lemma same_size_steps: "(\<And>x s. same_size (disp s) (disp (f x s))) \<Longrightarrow> same_size (disp s) (disp (fold f xs s))"
  by (induction xs arbitrary: s) (auto intro: same_size_refl same_size_trans)

lemma same_size_flush: "same_size (disp s) (disp (ansi_flush io s))"
proof -
  have c: "same_size (disp s) (disp (aflush_cell io x y s))" for x y and s :: "'a ansi"
    by (simp add: aflush_cell_def Let_def same_size_ops same_size_refl)
  let ?f = "fold (\<lambda>y. fold (\<lambda>x. aflush_cell io x y) [0..<awidth s]) [0..<aheight s] s"
  have "same_size (disp s) (disp ?f)" by (intro same_size_steps c)
  from same_size_trans [OF this same_size_ops(2)] show ?thesis by (simp add: ansi_flush_def Let_def same_size_refl)
qed

lemma same_size_ticks: "same_size d (fold display_cursor_tick ts d)"
  by (intro same_size_fold same_size_ops)

lemma same_size_hw: "same_size d (d\<lparr>hw := w\<rparr>)"
  using console_ok_hw_only [OF hw_only_update [of d w]] by (simp add: same_size_def)

lemma same_size_console:
  assumes "(console_step io)\<^sup>*\<^sup>* d d'" and "width d' = width d" and "height d' = height d"
  shows "same_size d d'"
proof -
  have "console_ok d \<longrightarrow> console_ok d'" using assms(1) by (induction rule: rtranclp_induct) (auto intro: console_step_ok)
  with assms(2,3) show ?thesis by (simp add: same_size_def)
qed

lemma session_step_keeps:
  assumes "session_step io s s'" and "terminal_owned s"
  shows "saved_as s s' \<and> same_size (con s) (con s')"
  using assms
proof cases
  case (key inp)
  have "same_size (con s) (display_cursor_activity now ((fold display_cursor_tick ts (con s))\<lparr>hw := w\<rparr>))" for now ts w
    by (intro same_size_trans [OF _ same_size_ops(4)] same_size_trans [OF same_size_ticks same_size_hw])
  then show ?thesis unfolding key
    by (simp add: abi_terminal_key_def input_def input_result_def saved_as_def same_size_refl case_prod_beta Let_def)
next
  case (poll_key inp)
  have "same_size (con s) (display_cursor_activity now ((con s)\<lparr>hw := w\<rparr>))" for now w
    by (intro same_size_trans [OF same_size_hw same_size_ops(4)])
  then show ?thesis unfolding poll_key
    by (simp add: abi_terminal_poll_key_def saved_as_def same_size_refl same_size_hw case_prod_beta Let_def)
next
  case (command d)
  then show ?thesis using same_size_console [of io "con s" d] by (simp add: saved_as_def)
next
  case (put_text t)
  with assms(2) show ?thesis using same_size_flush [of "fold ansi_putchar t (ans s)" io] by (simp add: abi_write_def ansi_write_def saved_as_def)
next
  case (put_char c)
  with assms(2) show ?thesis using same_size_flush [of "ansi_putchar c (ans s)" io] by (simp add: abi_putc_def saved_as_def)
qed (simp_all add: abi_terminal_cell_def abi_terminal_cursor_def saved_as_def same_size_ops same_size_refl Let_def)

lemma session_keeps:
  "(session_step io)\<^sup>*\<^sup>* s s' \<Longrightarrow> terminal_owned s \<Longrightarrow> saved_as s s' \<and> same_size (con s) (con s')"
proof (induction rule: rtranclp_induct)
  case (step s' s'')
  then have "saved_as s' s'' \<and> same_size (con s') (con s'')" by (intro session_step_keeps) (auto simp: saved_as_def)
  with step show ?case by (auto simp: saved_as_def intro: same_size_trans)
qed (simp add: saved_as_def same_size_refl)

section \<open>Saving and restoring\<close>

lemma fold_store: "fold (\<lambda>p m. m(i p := v (i p))) ps m k = (if k \<in> i ` set ps then v k else m k)"
  by (induction ps arbitrary: m) auto

definition all_cells :: "nat \<Rightarrow> nat \<Rightarrow> (nat \<times> nat) list" where
  "all_cells w h = concat (map (\<lambda>y. map (\<lambda>x. (x, y)) [0..<w]) [0..<h])"

lemma set_all_cells: "(x, y) \<in> set (all_cells w h) \<longleftrightarrow> x < w \<and> y < h"
  by (auto simp: all_cells_def image_iff)

lemma save_cells_at:
  assumes "geometry_ok (con s)" and "x < width (con s)" and "y < height (con s)"
  shows "save_cells s (y * 216 + x) = display_cell x y (con s)"
proof -
  let ?w = "width (con s)" and ?h = "height (con s)"
  let ?i = "\<lambda>(x, y). y * 216 + x" and ?v = "\<lambda>k. display_cell (k mod 216) (k div 216) (con s)"
  have w: "?w \<le> 216" using assms(1) by (simp add: geometry_ok_def display_consts)
  have v: "u < ?w \<Longrightarrow> display_cell u z (con s) = ?v (z * 216 + u)" for u z using w by simp
  have "fold (\<lambda>(x, y) m. m(y * 216 + x := display_cell x y (con s))) (all_cells ?w ?h) m =
      fold (\<lambda>p m. m(?i p := ?v (?i p))) (all_cells ?w ?h) m" for m
    by (rule fold_cong) (auto simp: set_all_cells v simp del: mod_mult_self3 div_mult_self3)
  then have "save_cells s = fold (\<lambda>p m. m(?i p := ?v (?i p))) (all_cells ?w ?h) (terminal_saved s)"
    unfolding save_cells_def fold_nested all_cells_def by simp
  moreover have "y * 216 + x \<in> ?i ` set (all_cells ?w ?h)"
    using assms(2,3) by (intro image_eqI [of _ _ "(x, y)"]) (simp_all add: set_all_cells)
  ultimately show ?thesis using assms(2) w fold_store [of ?i ?v "all_cells ?w ?h" "terminal_saved s" "y * 216 + x"] by simp
qed

lemma set_cells_at:
  assumes "geometry_ok d" and "\<forall>(x, y)\<in>set ps. x < width d \<and> y < height d"
  shows "display_cell x y (fold (\<lambda>(x, y). display_set_cell io x y (ch x y) (a x y)) ps d) =
    (if (x, y) \<in> set ps then pack (a x y) (ch x y) else display_cell x y d)"
  using assms
proof (induction ps arbitrary: d)
  case (Cons p ps)
  obtain u v where p: "p = (u, v)" by (cases p)
  have "geometry_ok (display_set_cell io u v (ch u v) (a u v) d)" using Cons.prems(1) by simp
  from Cons.IH [OF this] Cons.prems p show ?case by (auto simp: display_cell_set_cell)
qed simp

lemma restore_cells_at:
  assumes "geometry_ok d" and "x < width d" and "y < height d"
  shows "display_cell x y (restore_cells io (width d) (height d) m d) = m (y * 216 + x)"
proof -
  have "restore_cells io (width d) (height d) m d = fold (\<lambda>(x, y). display_set_cell io x y (cell_char (m (y * 216 + x))) (cell_attr (m (y * 216 + x))))
      (all_cells (width d) (height d)) d"
    unfolding restore_cells_def fold_nested all_cells_def by simp
  moreover have "\<forall>(x, y)\<in>set (all_cells (width d) (height d)). x < width d \<and> y < height d" by (clarsimp simp: set_all_cells)
  ultimately show ?thesis
    using set_cells_at [OF assms(1), where ps = "all_cells (width d) (height d)" and x = x and y = y and io = io and
        ch = "\<lambda>x y. cell_char (m (y * 216 + x))" and a = "\<lambda>x y. cell_attr (m (y * 216 + x))"] assms(2,3)
    by (simp add: set_all_cells)
qed

lemma same_size_restore: "same_size d (restore_cells io w h m d)"
  unfolding restore_cells_def by (intro same_size_fold same_size_ops)

lemma same_size_blank: "same_size d (blank_cells io d)"
  unfolding blank_cells_def by (intro same_size_fold same_size_ops)

lemma cursor_set_position:
  "x < width d \<Longrightarrow> row (display_cursor_set io x y v b d) = (if y \<ge> height d then sub64 (height d) 1 else y)"
  "x < width d \<Longrightarrow> col (display_cursor_set io x y v b d) = x"
  by (simp_all add: display_cursor_set_def Let_def)

lemma display_cell_cong: "width d' = width d \<Longrightarrow> height d' = height d \<Longrightarrow> cells d' = cells d \<Longrightarrow> display_cell x y d' = display_cell x y d"
  by (simp add: display_cell_def)

lemma acquire_saves:
  assumes "\<not> terminal_owned s"
  shows "fst (abi_terminal_acquire io s)" "terminal_owned (snd (abi_terminal_acquire io s))"
    "terminal_saved (snd (abi_terminal_acquire io s)) = save_cells s"
    "terminal_saved_width (snd (abi_terminal_acquire io s)) = width (con s)"
    "terminal_saved_height (snd (abi_terminal_acquire io s)) = height (con s)"
    "terminal_saved_x (snd (abi_terminal_acquire io s)) = col (con s)"
    "terminal_saved_y (snd (abi_terminal_acquire io s)) = row (con s)"
  using assms by (simp_all add: abi_terminal_acquire_def Let_def)

lemma same_size_acquire: "same_size (con s) (con (snd (abi_terminal_acquire io s)))"
proof (cases "terminal_owned s")
  case False
  then have "con (snd (abi_terminal_acquire io s)) = display_serial_clear io (display_serial_cells True (blank_cells io
      (display_serial_cells False (display_cursor_set io 0 0 False True (con s)))))"
    by (simp add: abi_terminal_acquire_def Let_def ansi_reset_def on_con_def)
  then show ?thesis
    by (simp only:) (intro same_size_trans [OF _ same_size_ops(6)] same_size_trans [OF _ same_size_ops(5)]
        same_size_trans [OF _ same_size_blank] same_size_ops(2))
qed (simp add: abi_terminal_acquire_def same_size_refl)

definition put_back :: "'w ports \<Rightarrow> nat \<Rightarrow> nat \<Rightarrow> nat \<Rightarrow> nat \<Rightarrow> (nat \<Rightarrow> u16) \<Rightarrow> 'w display \<Rightarrow> 'w display" where
  "put_back io w h x y m d = display_cursor_set io x y True True (display_serial_clear io (display_serial_cells True
     (restore_cells io w h m (display_serial_cells False (display_cursor_set io 0 0 False True d)))))"

lemma put_back_screen:
  assumes "console_ok (con s)" and "same_size (con s) d"
  shows "screen (put_back io (width (con s)) (height (con s)) (col (con s)) (row (con s)) (save_cells s) d) = screen (con s) \<and>
    same_size (con s) (put_back io (width (con s)) (height (con s)) (col (con s)) (row (con s)) (save_cells s) d)"
proof -
  define d0 where "d0 = display_serial_cells False (display_cursor_set io 0 0 False True d)"
  define d1 where "d1 = restore_cells io (width (con s)) (height (con s)) (save_cells s) d0"
  define d2 where "d2 = display_serial_clear io (display_serial_cells True d1)"
  define d3 where "d3 = display_cursor_set io (col (con s)) (row (con s)) True True d2"
  have z0: "same_size (con s) d0" unfolding d0_def by (rule same_size_trans [OF same_size_trans [OF assms(2) same_size_ops(2)] same_size_ops(5)])
  have z1: "same_size (con s) d1" unfolding d1_def by (rule same_size_trans [OF z0 same_size_restore])
  have z2: "same_size (con s) d2" unfolding d2_def by (rule same_size_trans [OF same_size_trans [OF z1 same_size_ops(5)] same_size_ops(6)])
  have z3: "same_size (con s) d3" unfolding d3_def by (rule same_size_trans [OF z2 same_size_ops(2)])
  have g: "geometry_ok (con s)" "row (con s) < height (con s)" "col (con s) < width (con s)" using assms(1) by (simp_all add: console_ok_def)
  have g0: "geometry_ok d0" using z0 assms(1) by (simp add: same_size_def console_ok_def)
  have "cells d3 = cells d1" by (simp add: d3_def d2_def display_serial_clear_def display_serial_cells_def)
  then have c3: "display_cell x y d3 = display_cell x y d1" for x y
    using z3 z1 by (intro display_cell_cong) (simp_all add: same_size_def)
  have c1: "display_cell x y d1 = display_cell x y (con s)" for x y
  proof (cases "x < width (con s) \<and> y < height (con s)")
    case True
    then show ?thesis using restore_cells_at [OF g0, of x y io "save_cells s"] save_cells_at [OF g(1), of x y] z0
      by (simp add: same_size_def d1_def)
  next
    case False
    then show ?thesis using z1 by (auto simp: display_cell_def same_size_def)
  qed
  have p: "row d3 = row (con s)" "col d3 = col (con s)"
    using z2 g unfolding d3_def by (simp_all add: cursor_set_position same_size_def)
  have "screen d3 = screen (con s)" unfolding screen_def c3 c1 p ..
  with z3 show ?thesis by (simp add: put_back_def d0_def d1_def d2_def d3_def)
qed

lemma release_con:
  "terminal_owned s \<Longrightarrow> con (abi_terminal_release io s) =
     put_back io (terminal_saved_width s) (terminal_saved_height s) (terminal_saved_x s) (terminal_saved_y s) (terminal_saved s) (con s)"
  "\<not> terminal_owned (abi_terminal_release io s)"
  by (simp_all add: abi_terminal_release_def put_back_def on_con_def)

text \<open>The release writes at the size the console has then: a program that changed the display mode gets no
  restored screen.\<close>

lemma release_keeps_mode:
  "width (con (abi_terminal_release io s)) = width (con s)" "height (con (abi_terminal_release io s)) = height (con s)"
proof -
  have r: "width (restore_cells io w h m d) = width d" "height (restore_cells io w h m d) = height d" for w h m d
    using same_size_restore [of d io w h m] by (simp_all add: same_size_def)
  have p: "width (put_back io w h x y m d) = width d" "height (put_back io w h x y m d) = height d" for w h x y m d
    by (simp_all add: put_back_def r display_serial_clear_def display_serial_cells_def)
  have n: "\<not> terminal_owned s \<Longrightarrow> abi_terminal_release io s = s" by (simp add: abi_terminal_release_def)
  show "width (con (abi_terminal_release io s)) = width (con s)" "height (con (abi_terminal_release io s)) = height (con s)"
    by (cases "terminal_owned s"; simp add: release_con n p)+
qed

lemma cursor_set_visible: "cursor_visible (display_cursor_set io x y v b d) = v"
proof -
  have "cursor_visible (cursor_draw d) = cursor_visible d" for d :: "'a display" by (simp add: cursor_draw_def Let_def)
  then show ?thesis by (simp add: display_cursor_set_def Let_def)
qed

lemma release_shows_cursor: "terminal_owned s \<Longrightarrow> cursor_visible (con (abi_terminal_release io s))"
  by (simp add: release_con put_back_def cursor_set_visible)


definition kterm_statics :: "'w display \<Rightarrow> 'w kterm" where
  "kterm_statics d = \<lparr>ans = ansi_statics d, terminal_owned = False, terminal_saved = (\<lambda>_. 0), terminal_saved_width = 0,
     terminal_saved_height = 0, terminal_saved_x = 0, terminal_saved_y = 0\<rparr>"


section \<open>Serial mirror\<close>

lemma table_utf8: "\<forall>p\<in>set codepoints. next_cp (serial_cell_bytes (snd p)) = (fst p, [])"
  by (simp add: codepoints_def serial_cell_bytes_def serial_unicode_def cont_def)

lemma table_keys: "\<forall>p\<in>set codepoints. 128 \<le> fst p" "\<forall>p\<in>set serial_unicode. 128 \<le> fst p"
  by code_simp+

text \<open>C22: The bytes the console mirrors on the serial line for a code point the terminal supports are
  its UTF-8 encoding: decoding them with the text decoder of the user-interface library gives the code point back,
  and a question mark for every other code point.\<close>

theorem serial_mirror_roundtrip:
  "next_cp (serial_cell_bytes (display_codepoint_glyph u)) = ((if u < 128 \<or> u \<in> fst ` set codepoints then u else 63), [])"
proof (cases "map_of codepoints u")
  case (Some g)
  then have m: "(u, g) \<in> set codepoints" by (rule map_of_SomeD)
  then have "u \<in> fst ` set codepoints" by force
  then show ?thesis using table_utf8 m Some by (auto simp: display_codepoint_glyph_def)
next
  case None
  then have n: "u \<notin> fst ` set codepoints" by (simp add: map_of_eq_None_iff)
  have a: "next_cp (serial_cell_bytes c) = (ucast c, [])" if "c < 128" for c
  proof -
    have "map_of serial_unicode c = None" using table_keys(2) that by (force simp: map_of_eq_None_iff)
    then show ?thesis using that by (simp add: serial_cell_bytes_def)
  qed
  have "ucast u < (128 :: u8)" "(ucast (ucast u :: u8) :: u32) = u" if "u < 128"
    using that by (simp_all add: word_less_nat_alt unsigned_ucast_eq unsigned_take_bit_eq take_bit_nat_eq_self
        word_eq_iff_unsigned [where ?'a = nat])
  with n None show ?thesis by (auto simp: display_codepoint_glyph_def a)
qed

section \<open>Frames of the user interface\<close>

lemma kernel_initialize:
  assumes "tui_initialize (kernel_api io inp) st = (True, st')" and "console_ok (con (world st))"
  shows "kt.rendered io inp st'"
proof -
  let ?w = "snd (abi_terminal_acquire io (world st))"
  have o: "fst (abi_terminal_acquire io (world st))"
    using assms(1) by (auto simp: tui_initialize_def kernel_api_def Let_def split: prod.splits if_splits)
  have e: "world st' = ?w" "swidth st' = min (abi_terminal_width ?w) SCREEN_STRIDE" "sheight st' = min (abi_terminal_height ?w) SCREEN_ROWS"
    "\<forall>i < SCREEN_STRIDE * SCREEN_ROWS. character (front_buffer st' i) = 0xFFFFFFFF"
    using assms(1) by (auto simp: tui_initialize_def kernel_api_def Let_def tui_widgets_reset_def split: prod.splits if_splits)
  have "\<not> terminal_owned (world st)" using o by (auto simp: abi_terminal_acquire_def)
  then have u: "kusable ?w" using acquire_saves(2) same_size_acquire [of "world st" io] assms(2)
    by (simp add: kusable_def same_size_def console_ok_def)
  have "y * SCREEN_STRIDE + x < SCREEN_STRIDE * SCREEN_ROWS" if "x < swidth st'" "y < sheight st'" for x y
    using that cell_number_less [of y SCREEN_ROWS x SCREEN_STRIDE] e by simp
  with e(4) have "kt.in_sync st'" by (simp add: kt.in_sync_def)
  moreover have "initialized st'" "dirty st'"
    using assms(1) by (auto simp: tui_initialize_def kernel_api_def Let_def tui_widgets_reset_def split: prod.splits if_splits)
  ultimately show ?thesis using u e by (simp add: kt.rendered_def kt.fits_def) (simp add: kernel_api_def)
qed

text \<open>C18: After \<open>tui_initialize\<close> on the kernel's terminal, and any sequence of calls of the library, waits for
  events and renderings, \<open>tui_render\<close> leaves the console showing exactly the back buffer: although it returns at once
  when nothing is marked as changed and otherwise sends only the cells that differ from the front buffer, each character
  cell of the console in the centred area holds the glyph and attribute of the corresponding cell, as if the whole screen
  had been redrawn. The one exception is a cell with the code 0xFFFFFFFF, which the library uses for unknown contents.\<close>

theorem tui_frames_shown:
  assumes "console_ok (con (world st0))" and "tui_initialize (kernel_api io inp) st0 = (True, st1)"
    and "(app_step (kernel_api io inp))\<^sup>*\<^sup>* st1 st2" and "st = tui_render (kernel_api io inp) st2"
    and "x < swidth st" and "y < sheight st"
    and "s = world st" and "b = back_buffer st (y * SCREEN_STRIDE + x)" and "character b \<noteq> 0xFFFFFFFF"
  shows "display_cell (terminal_origin_x s + x) (terminal_origin_y s + y) (con s) = pack (attr b) (display_codepoint_glyph (character b))"
proof -
  have "kt.shows_cell s x y b" unfolding assms(7) unfolding assms(4)
    using kt.render_shows [OF assms(3) kernel_initialize [OF assms(2,1)]] assms(5,6,8,9) unfolding assms(4) by blast
  then have "kshown s x y = (display_codepoint_glyph (character b), attr b)" by (simp add: kt.shows_cell_def)
  then show ?thesis using pack_parts(3) by (metis (no_types, lifting) Pair_inject kshown_def)
qed

theorem tui_frames_shown_witness:
  "\<exists>d st s. display_init no_ports id 0 (display_statics () (\<lambda>_. 0)) = Some d \<and>
     tui_initialize (kernel_api no_ports (\<lambda>s. (CHR ''q'', [], 0, ()))) (tui_statics (kterm_statics d)) = (True, st) \<and>
     s = world (tui_render (kernel_api no_ports (\<lambda>s. (CHR ''q'', [], 0, ()))) st) \<and>
     display_cell (terminal_origin_x s + 3) (terminal_origin_y s + 4) (con s) = pack 0x1F 32"
proof -
  obtain d where d: "display_init no_ports id 0 (display_statics () (\<lambda>_. 0)) = Some d" "width d = 80" "height d = 25" "console_ok d"
    using demo_init by blast
  let ?a = "kernel_api no_ports (\<lambda>s. (CHR ''q'', [], 0, ()))" and ?t = "tui_statics (kterm_statics d)"
  have k: "con (kterm_statics d) = d" "\<not> terminal_owned (kterm_statics d)" by (simp_all add: kterm_statics_def ansi_statics_def)
  obtain w where w: "abi_terminal_acquire no_ports (kterm_statics d) = (True, w)" "width (con w) = 80" "height (con w) = 25"
    using acquire_saves(1) [OF k(2), of no_ports] same_size_acquire [of "kterm_statics d" no_ports] d(2,3)
    by (cases "abi_terminal_acquire no_ports (kterm_statics d)") (simp add: k same_size_def)
  define st where "st = snd (tui_initialize ?a ?t)"
  note init = tui_initialize_def [of ?a ?t, unfolded Let_def]
  have i: "fst (tui_initialize ?a ?t)" and z: "swidth st = 80" "sheight st = 25" "\<not> redraw (application st)" "initialized st" "dirty st"
    and b: "back_buffer st = (\<lambda>i. if i < SCREEN_STRIDE * SCREEN_ROWS then \<lparr>character = 32, foreground = 15, background = 1, attributes = 0\<rparr> else blank_cell)"
    unfolding st_def init by (simp_all add: kernel_api_def w abi_terminal_width_def abi_terminal_height_def tui_statics_def
        tui_widgets_reset_def SCREEN_STRIDE_def SCREEN_ROWS_def tui_theme_dos_def fun_eq_iff)
  have st: "tui_initialize ?a ?t = (True, st)" using i unfolding st_def by (intro prod_eqI) simp_all
  have ok: "console_ok (con (world ?t))" using d(4) k(1) by (simp add: tui_statics_def)
  have r: "tui_render ?a st = tui_update_cursor ?a (tui_flush ?a st)" using z(3-5) by (simp add: tui_render_def)
  have u: "swidth (tui_render ?a st) = 80" "sheight (tui_render ?a st) = 25" "back_buffer (tui_render ?a st) = back_buffer st"
    using update_cursor_fields [of ?a "tui_flush ?a st"] flush_fields [of ?a st] z(1,2) by (simp_all add: r)
  have b': "back_buffer st (4 * SCREEN_STRIDE + 3) = \<lparr>character = 32, foreground = 15, background = 1, attributes = 0\<rparr>"
    unfolding b by (simp add: SCREEN_STRIDE_def SCREEN_ROWS_def)
  have "3 < swidth (tui_render ?a st)" "4 < sheight (tui_render ?a st)" by (simp_all add: u)
  from tui_frames_shown [OF ok st rtranclp.rtrancl_refl refl this refl refl]
  have "display_cell (terminal_origin_x (world (tui_render ?a st)) + 3) (terminal_origin_y (world (tui_render ?a st)) + 4)
      (con (world (tui_render ?a st))) = pack 0x1F 32"
    unfolding u(3) b' by (simp add: attr_def display_codepoint_glyph_def codepoints_def)
  with d(1) st show ?thesis by blast
qed

end
