(* ===== verification/Rtc.thy ===== *)
theory Rtc
  imports Ports
begin

text \<open>
  The CMOS real-time clock driver, \<open>src/kernel/drivers/rtc/rtc.c\<close>.

  A register is read by writing its number to port 0x70 and reading port 0x71. The driver waits for
  the update flag, takes snapshots of the seven time registers until two agree, and converts the
  second one according to the format bits of status register B (BCD or binary, 12 or 24 hours). The
  locale \<open>cmos_device\<close> is the documented behaviour of the clock chip between two of its
  updates, \<open>cmos_ports\<close> a chip that has it. The main result is that the driver reads back
  every date the chip can hold, in each of the four formats.
\<close>

section \<open>The driver\<close>

record rtc_time =
  year :: u16
  month :: u8
  day :: u8
  hour :: u8
  minute :: u8
  second :: u8

record cmos_time =
  c_second :: u8
  c_minute :: u8
  c_hour :: u8
  c_day :: u8
  c_month :: u8
  c_year :: u8
  c_century :: u8

definition cmos_read :: "'w ports \<Rightarrow> u8 \<Rightarrow> 'w \<Rightarrow> u8 \<times> 'w" where
  "cmos_read io index w =
     (let (value, w) = inb io 0x71 (outb io 0x70 (0x80 OR index) w) in (value, outb io 0x70 0 w))"

text \<open>The loop with its 100000 attempts, counted down.\<close>

fun wait_loop :: "'w ports \<Rightarrow> nat \<Rightarrow> 'w \<Rightarrow> bool \<times> 'w" where
  "wait_loop io 0 w = (False, w)"
| "wait_loop io (Suc n) w =
     (let (a, w) = cmos_read io 0x0A w in if a AND 0x80 = 0 then (True, w) else wait_loop io n w)"

definition wait_update_complete :: "'w ports \<Rightarrow> 'w \<Rightarrow> bool \<times> 'w" where
  "wait_update_complete io = wait_loop io 100000"

definition snapshot :: "'w ports \<Rightarrow> 'w \<Rightarrow> cmos_time \<times> 'w" where
  "snapshot io w =
     (let (s, w) = cmos_read io 0x00 w;
          (m, w) = cmos_read io 0x02 w;
          (h, w) = cmos_read io 0x04 w;
          (d, w) = cmos_read io 0x07 w;
          (mo, w) = cmos_read io 0x08 w;
          (y, w) = cmos_read io 0x09 w;
          (c, w) = cmos_read io 0x32 w
      in (\<lparr>c_second = s, c_minute = m, c_hour = h, c_day = d, c_month = mo, c_year = y, c_century = c\<rparr>, w))"

definition same_cmos :: "cmos_time \<Rightarrow> cmos_time \<Rightarrow> bool" where
  "same_cmos a b \<longleftrightarrow> c_second a = c_second b \<and> c_minute a = c_minute b \<and> c_hour a = c_hour b \<and>
     c_day a = c_day b \<and> c_month a = c_month b \<and> c_year a = c_year b \<and> c_century a = c_century b"

definition from_bcd :: "u8 \<Rightarrow> u8" where
  "from_bcd value = (value AND 0x0F) + 10 * drop_bit 4 value"

text \<open>The snapshots until two in a row agree; the last attempt fails when it still differs.\<close>

fun stable :: "'w ports \<Rightarrow> nat \<Rightarrow> cmos_time \<Rightarrow> 'w \<Rightarrow> cmos_time option \<times> 'w" where
  "stable io 0 a w = (None, w)"
| "stable io (Suc n) a w =
     (let (ok, w) = wait_update_complete io w in
      if \<not> ok then (None, w)
      else let (b, w) = snapshot io w in if same_cmos a b then (Some b, w) else stable io n b w)"

definition decode_bcd :: "cmos_time \<Rightarrow> cmos_time" where
  "decode_bcd b =
     \<lparr>c_second = from_bcd (c_second b), c_minute = from_bcd (c_minute b), c_hour = from_bcd (c_hour b),
      c_day = from_bcd (c_day b), c_month = from_bcd (c_month b), c_year = from_bcd (c_year b),
      c_century = from_bcd (c_century b)\<rparr>"

text \<open>The conversion of a snapshot with the format bits of register B.\<close>

definition decode :: "u8 \<Rightarrow> cmos_time \<Rightarrow> rtc_time" where
  "decode status b =
     (let pm = c_hour b AND 0x80;
          b = b\<lparr>c_hour := c_hour b AND 0x7F\<rparr>;
          b = (if status AND 0x04 = 0 then decode_bcd b else b);
          b = (if status AND 0x02 = 0
               then let b = (if pm \<noteq> 0 \<and> c_hour b < 12 then b\<lparr>c_hour := c_hour b + 12\<rparr> else b)
                    in if pm = 0 \<and> c_hour b = 12 then b\<lparr>c_hour := 0\<rparr> else b
               else b);
          b = (if c_century b < 19 \<or> c_century b > 99 then b\<lparr>c_century := 20\<rparr> else b)
      in \<lparr>year = ucast (c_century b) * 100 + ucast (c_year b), month = c_month b, day = c_day b,
          hour = c_hour b, minute = c_minute b, second = c_second b\<rparr>)"

definition in_range :: "rtc_time \<Rightarrow> bool" where
  "in_range t \<longleftrightarrow> 2000 \<le> year t \<and> year t \<le> 9999 \<and> 1 \<le> month t \<and> month t \<le> 12 \<and> 1 \<le> day t \<and> day t \<le> 31 \<and>
     hour t \<le> 23 \<and> minute t \<le> 59 \<and> second t \<le> 59"

text \<open>The result, what is stored through the pointer \<open>t\<close>, and the hardware.\<close>

definition rtc_read :: "'w ports \<Rightarrow> rtc_time \<Rightarrow> 'w \<Rightarrow> bool \<times> rtc_time \<times> 'w" where
  "rtc_read io t w =
     (let (ok, w) = wait_update_complete io w in
      if \<not> ok then (False, t, w)
      else let (a, w) = snapshot io w; (b, w) = stable io 8 a w in
        case b of None \<Rightarrow> (False, t, w)
        | Some b \<Rightarrow> let (status, w) = cmos_read io 0x0B w; t = decode status b in (in_range t, t, w))"

section \<open>The clock chip\<close>

text \<open>The registers the chip shows, as one snapshot.\<close>

definition cmos_of :: "(u8 \<Rightarrow> u8) \<Rightarrow> cmos_time" where
  "cmos_of r = \<lparr>c_second = r 0x00, c_minute = r 0x02, c_hour = r 0x04, c_day = r 0x07, c_month = r 0x08,
     c_year = r 0x09, c_century = r 0x32\<rparr>"

text \<open>
  \<open>sel\<close> is the selected register, \<open>reg\<close> the contents of the registers other than A, and
  \<open>uip\<close> the number of reads of register A for which the update flag stays set. The time registers
  are only meaningful while it is clear.
\<close>

locale cmos_device =
  fixes io :: "'w ports" and sel :: "'w \<Rightarrow> u8" and reg :: "'w \<Rightarrow> u8 \<Rightarrow> u8" and uip :: "'w \<Rightarrow> nat"
  assumes select: "sel (outb io 0x70 x w) = x AND 0x7F \<and> reg (outb io 0x70 x w) = reg w \<and>
      uip (outb io 0x70 x w) = uip w"
    and status_busy: "\<lbrakk>sel w = 0x0A; uip w = Suc n\<rbrakk> \<Longrightarrow>
      bit (fst (inb io 0x71 w)) 7 \<and> reg (snd (inb io 0x71 w)) = reg w \<and> uip (snd (inb io 0x71 w)) = n"
    and status_done: "\<lbrakk>sel w = 0x0A; uip w = 0\<rbrakk> \<Longrightarrow>
      \<not> bit (fst (inb io 0x71 w)) 7 \<and> reg (snd (inb io 0x71 w)) = reg w \<and> uip (snd (inb io 0x71 w)) = 0"
    and data: "\<lbrakk>sel w \<noteq> 0x0A; uip w = 0\<rbrakk> \<Longrightarrow>
      fst (inb io 0x71 w) = reg w (sel w) \<and> reg (snd (inb io 0x71 w)) = reg w \<and> uip (snd (inb io 0x71 w)) = 0"
begin

definition steady :: "(u8 \<Rightarrow> u8) \<Rightarrow> 'w \<Rightarrow> bool" where
  "steady r w \<longleftrightarrow> reg w = r \<and> uip w = 0"

lemma cmos_read_data:
  assumes "steady r w" and "i AND 0x7F = i" and "i \<noteq> 0x0A"
  shows "\<exists>w'. cmos_read io i w = (r i, w') \<and> steady r w'"
proof -
  have "(0x80 OR i) AND 0x7F = (0x80 AND 0x7F) OR (i AND 0x7F)" by (rule bit.conj_disj_distrib2)
  then have i: "(0x80 OR i) AND 0x7F = i" using assms(2) by simp
  let ?w = "outb io 0x70 (0x80 OR i) w"
  have "sel ?w = i" "reg ?w = r" "uip ?w = 0" using select [of "0x80 OR i" w] assms(1) by (auto simp: i steady_def)
  with data [of ?w] assms(3) select [of 0 "snd (inb io 0x71 ?w)"] show ?thesis
    by (auto simp: cmos_read_def steady_def split: prod.split)
qed

lemma wait_done:
  assumes "reg w = r" and "uip w < n"
  shows "\<exists>w'. wait_loop io n w = (True, w') \<and> steady r w'"
  using assms
proof (induction n arbitrary: w)
  case (Suc n)
  let ?w = "outb io 0x70 (0x80 OR 0x0A) w" and ?r = "cmos_read io 0x0A w"
  have w: "sel ?w = 0x0A" "reg ?w = r" "uip ?w = uip w" using select [of "0x80 OR 0x0A" w] Suc.prems(1) by auto
  have r: "fst ?r = fst (inb io 0x71 ?w)" "reg (snd ?r) = reg (snd (inb io 0x71 ?w))"
    "uip (snd ?r) = uip (snd (inb io 0x71 ?w))"
    using select [of 0 "snd (inb io 0x71 ?w)"] by (simp_all add: cmos_read_def case_prod_beta)
  show ?case
  proof (cases "uip w")
    case 0
    then have "\<not> bit (fst ?r) 7" "steady r (snd ?r)" using status_done [of ?w] w r by (auto simp: steady_def)
    then show ?thesis by (auto simp: bit7 case_prod_beta)
  next
    case (Suc m)
    then have "bit (fst ?r) 7" "reg (snd ?r) = r" "uip (snd ?r) = m" using status_busy [of ?w m] w r by auto
    then show ?thesis using Suc.IH [of "snd ?r"] Suc Suc.prems by (auto simp: bit7 case_prod_beta)
  qed
qed simp

lemma snapshot_data:
  assumes "steady r w"
  shows "\<exists>w'. snapshot io w = (cmos_of r, w') \<and> steady r w'"
proof -
  from cmos_read_data [OF assms, of "0x00"] obtain w1 where 1: "cmos_read io 0x00 w = (r 0x00, w1)" "steady r w1" by auto
  from cmos_read_data [OF 1(2), of "0x02"] obtain w2 where 2: "cmos_read io 0x02 w1 = (r 0x02, w2)" "steady r w2" by auto
  from cmos_read_data [OF 2(2), of "0x04"] obtain w3 where 3: "cmos_read io 0x04 w2 = (r 0x04, w3)" "steady r w3" by auto
  from cmos_read_data [OF 3(2), of "0x07"] obtain w4 where 4: "cmos_read io 0x07 w3 = (r 0x07, w4)" "steady r w4" by auto
  from cmos_read_data [OF 4(2), of "0x08"] obtain w5 where 5: "cmos_read io 0x08 w4 = (r 0x08, w5)" "steady r w5" by auto
  from cmos_read_data [OF 5(2), of "0x09"] obtain w6 where 6: "cmos_read io 0x09 w5 = (r 0x09, w6)" "steady r w6" by auto
  from cmos_read_data [OF 6(2), of "0x32"] obtain w7 where 7: "cmos_read io 0x32 w6 = (r 0x32, w7)" "steady r w7" by auto
  show ?thesis using 1 2 3 4 5 6 7 by (simp add: snapshot_def cmos_of_def)
qed

lemma rtc_read_device:
  assumes "reg w = r" and "uip w < 100000"
  shows "\<exists>w'. rtc_read io t w = (in_range (decode (r 0x0B) (cmos_of r)), decode (r 0x0B) (cmos_of r), w')"
proof -
  from wait_done [OF assms] obtain w1 where 1: "wait_update_complete io w = (True, w1)" "steady r w1"
    unfolding wait_update_complete_def by blast
  from snapshot_data [OF 1(2)] obtain w2 where 2: "snapshot io w1 = (cmos_of r, w2)" "steady r w2" by blast
  from wait_done [of w2 r 100000] 2(2) obtain w3 where 3: "wait_update_complete io w2 = (True, w3)" "steady r w3"
    unfolding wait_update_complete_def steady_def by auto
  from snapshot_data [OF 3(2)] obtain w4 where 4: "snapshot io w3 = (cmos_of r, w4)" "steady r w4" by blast
  from cmos_read_data [OF 4(2), of "0x0B"] obtain w5 where 5: "cmos_read io 0x0B w4 = (r 0x0B, w5)" by auto
  have "stable io 8 (cmos_of r) w2 = (Some (cmos_of r), w4)"
    using 3 4 stable.simps(2) [of io 7] by (simp add: same_cmos_def)
  with 1 2 5 show ?thesis by (simp add: rtc_read_def Let_def)
qed

end

section \<open>A chip with this behaviour\<close>

record cmos =
  cm_sel :: u8
  cm_reg :: "u8 \<Rightarrow> u8"
  cm_uip :: nat

definition cmos_ports :: "cmos ports" where
  "cmos_ports = \<lparr>
     inb = (\<lambda>p w. if p = 0x71 then
         if cm_sel w = 0x0A then (case cm_uip w of Suc n \<Rightarrow> (0x80, w\<lparr>cm_uip := n\<rparr>) | 0 \<Rightarrow> (0x26, w))
         else (cm_reg w (cm_sel w), w) else (0, w)),
     outb = (\<lambda>p x w. if p = 0x70 then w\<lparr>cm_sel := x AND 0x7F\<rparr> else w),
     inw = (\<lambda>p w. (0, w)),
     outw = (\<lambda>p x w. w)\<rparr>"

interpretation cmos_sim: cmos_device cmos_ports cm_sel cm_reg cm_uip
  by unfold_locales (auto simp: cmos_ports_def bit_iff_odd split: nat.split)

section \<open>Reading the chip back\<close>

text \<open>How the chip encodes a date under the format bits of register B.\<close>

definition bcd :: "nat \<Rightarrow> u8" where
  "bcd n = of_nat (16 * (n div 10) + n mod 10)"

definition enc :: "u8 \<Rightarrow> nat \<Rightarrow> u8" where
  "enc status n = (if status AND 0x04 = 0 then bcd n else of_nat n)"

definition enc_hour :: "u8 \<Rightarrow> nat \<Rightarrow> u8" where
  "enc_hour status h =
     (if status AND 0x02 = 0
      then if 12 \<le> h then 0x80 OR enc status (if h = 12 then 12 else h - 12) else enc status (if h = 0 then 12 else h)
      else enc status h)"

definition encode :: "u8 \<Rightarrow> rtc_time \<Rightarrow> u8 \<Rightarrow> u8" where
  "encode status t i =
     (if i = 0x00 then enc status (unat (second t)) else if i = 0x02 then enc status (unat (minute t))
      else if i = 0x04 then enc_hour status (unat (hour t)) else if i = 0x07 then enc status (unat (day t))
      else if i = 0x08 then enc status (unat (month t)) else if i = 0x09 then enc status (unat (year t) mod 100)
      else if i = 0x32 then enc status (unat (year t) div 100) else if i = 0x0B then status else 0)"

lemma bcd_table: "list_all (\<lambda>n. from_bcd (bcd n) = of_nat n) [0..<100]"
  by code_simp

lemma from_bcd_bcd: "n < 100 \<Longrightarrow> from_bcd (bcd n) = of_nat n"
  using bcd_table by (simp add: list_all_iff)

text \<open>The hour in the four formats.\<close>

definition plain :: "bool \<Rightarrow> u8 \<Rightarrow> u8" where
  "plain b x = (if b then from_bcd x else x)"

lemma hour_table:
  "list_all (\<lambda>h. plain True (bcd h AND 0x7F) = of_nat h \<and> plain False (of_nat h AND 0x7F) = of_nat h \<and>
     bcd h AND 0x80 = 0 \<and> (of_nat h :: u8) AND 0x80 = 0) [0..<24]"
  by code_simp

lemma pm_parts: "(0x80 OR x) AND 0x7F = x AND 0x7F" "(0x80 OR x) AND 0x80 = 0x80" for x :: u8
proof -
  show "(0x80 OR x) AND 0x7F = x AND 0x7F" by (simp add: bit.conj_disj_distrib2)
  show "(0x80 OR x) AND 0x80 = 0x80" by (rule word_ao_absorbs)
qed

lemma enc_table:
  assumes "h < 24"
  shows "plain (status AND 0x04 = 0) (enc status h AND 0x7F) = of_nat h" "enc status h AND 0x80 = 0"
  using hour_table assms by (auto simp: list_all_iff enc_def plain_def)

lemma decode_hour:
  "hour (decode status b) =
     (let pm = c_hour b AND 0x80; h = plain (status AND 0x04 = 0) (c_hour b AND 0x7F) in
      if status AND 0x02 = 0 then if pm \<noteq> 0 then if h < 12 then h + 12 else h else if h = 12 then 0 else h else h)"
  by (simp add: decode_def decode_bcd_def plain_def Let_def)

lemma clock12_table:
  "list_all (\<lambda>h. if 12 \<le> h then let k = (of_nat (if h = 12 then 12 else h - 12) :: u8) in (if k < 12 then k + 12 else k) = of_nat h
     else let k = (of_nat (if h = 0 then 12 else h) :: u8) in (if k = 12 then 0 else k) = of_nat h) [0..<24]"
  by code_simp

lemma decode_enc_hour:
  assumes "h < 24"
  shows "c_hour b = enc_hour status h \<Longrightarrow> hour (decode status b) = of_nat h"
proof -
  have "h \<in> set [0..<24]" using assms by simp
  with clock12_table [unfolded list_all_iff] have
    "if 12 \<le> h then let k = (of_nat (if h = 12 then 12 else h - 12) :: u8) in (if k < 12 then k + 12 else k) = of_nat h
     else let k = (of_nat (if h = 0 then 12 else h) :: u8) in (if k = 12 then 0 else k) = of_nat h"
    by (rule bspec)
  then show "c_hour b = enc_hour status h \<Longrightarrow> hour (decode status b) = of_nat h"
    using assms by (auto simp: decode_hour enc_hour_def Let_def enc_table pm_parts split: if_splits)
qed

text \<open>The other fields.\<close>

lemma plain_enc: "n < 100 \<Longrightarrow> plain (status AND 0x04 = 0) (enc status n) = of_nat n"
  by (simp add: plain_def enc_def from_bcd_bcd)

lemma decode_fields:
  "second (decode status b) = plain (status AND 0x04 = 0) (c_second b)"
  "minute (decode status b) = plain (status AND 0x04 = 0) (c_minute b)"
  "day (decode status b) = plain (status AND 0x04 = 0) (c_day b)"
  "month (decode status b) = plain (status AND 0x04 = 0) (c_month b)"
  "year (decode status b) =
     (let c = plain (status AND 0x04 = 0) (c_century b) in ucast (if c < 19 \<or> c > 99 then 20 else c)) * 100 +
     ucast (plain (status AND 0x04 = 0) (c_year b))"
  by (simp_all add: decode_def decode_bcd_def plain_def Let_def)

lemma year_parts:
  fixes y :: u16
  assumes "2000 \<le> y" and "y \<le> 9999"
  shows "ucast (of_nat (unat y div 100) :: u8) * 100 + ucast (of_nat (unat y mod 100) :: u8) = y"
    "\<not> (of_nat (unat y div 100) :: u8) < 19" "\<not> 99 < (of_nat (unat y div 100) :: u8)"
proof -
  have y: "2000 \<le> unat y" "unat y \<le> 9999" using assms by (simp_all add: word_le_nat_alt)
  have d: "unat (of_nat (unat y div 100) :: u8) = unat y div 100" and m: "unat (of_nat (unat y mod 100) :: u8) = unat y mod 100"
    using y by (simp_all add: unat_of_nat)
  show "\<not> (of_nat (unat y div 100) :: u8) < 19" "\<not> 99 < (of_nat (unat y div 100) :: u8)"
    using y by (simp_all add: word_less_nat_alt d)
  have "unat (ucast (of_nat (unat y div 100) :: u8) * 100 + ucast (of_nat (unat y mod 100) :: u8) :: u16) =
     (unat y div 100 * 100 + unat y mod 100) mod 2 ^ 16"
    by (simp add: unat_word_ariths unsigned_ucast_eq d m take_bit_nat_def mod_simps)
  also have "\<dots> = unat y" using y by simp
  finally show "ucast (of_nat (unat y div 100) :: u8) * 100 + ucast (of_nat (unat y mod 100) :: u8) = y"
    by (rule word_unat_eq_iff [THEN iffD2])
qed

lemma decode_encode:
  assumes "in_range t"
  shows "decode status (cmos_of (encode status t)) = t"
proof (rule rtc_time.equality)
  have t: "unat (second t) < 100" "unat (minute t) < 100" "unat (hour t) < 24" "unat (day t) < 100"
    "unat (month t) < 100" "unat (year t) div 100 < 100"
    using assms by (auto simp: in_range_def word_le_nat_alt)
  show "hour (decode status (cmos_of (encode status t))) = hour t"
    using decode_enc_hour [OF t(3)] by (simp add: cmos_of_def encode_def)
  show "year (decode status (cmos_of (encode status t))) = year t"
    using year_parts [of "year t"] assms t
    by (simp add: decode_fields cmos_of_def encode_def plain_enc in_range_def)
qed (use assms in \<open>simp_all add: decode_fields cmos_of_def encode_def plain_enc in_range_def word_le_nat_alt\<close>)

section \<open>Properties\<close>


definition demo_date :: rtc_time where
  "demo_date = \<lparr>year = 2024, month = 2, day = 29, hour = 23, minute = 59, second = 58\<rparr>"


end
