(* ===== verification/Calendar.thy ===== *)
theory Calendar
  imports Rtc
begin

text \<open>
  Calendar arithmetic of the time service, \<open>src/kernel/core/timed.c\<close>: leap years, the length of
  the months, and the conversions \<open>to_epoch\<close> and \<open>from_epoch\<close> between a date and the seconds since
  1970. The loops over the years and months are recursions; the year counter is a 32-bit
  \<open>unsigned\<close>, and an index outside the table of months is \<open>None\<close>. The main result is that
  the conversions are inverse to each other.
\<close>

section \<open>The conversions\<close>

definition leap :: "nat \<Rightarrow> bool" where
  "leap y \<longleftrightarrow> y mod 4 = 0 \<and> (y mod 100 \<noteq> 0 \<or> y mod 400 = 0)"

definition month_table :: "nat list" where
  "month_table = [31, 28, 31, 30, 31, 30, 31, 31, 30, 31, 30, 31]"

definition month_days :: "nat \<Rightarrow> nat \<Rightarrow> nat option" where
  "month_days y m =
     (if 1 \<le> m \<and> m \<le> 12 then Some (month_table ! (m - 1) + (if m = 2 \<and> leap y then 1 else 0)) else None)"

text \<open>The loops of \<open>to_epoch\<close>: the days of the years from 1970 and of the first \<open>k\<close> months.\<close>

definition year_days :: "nat \<Rightarrow> nat" where
  "year_days y = (if leap y then 366 else 365)"

definition year_sum :: "nat \<Rightarrow> nat \<Rightarrow> nat" where
  "year_sum a y = sum_list (map year_days [a..<y])"

fun month_sum :: "nat \<Rightarrow> nat \<Rightarrow> nat option" where
  "month_sum y 0 = Some 0"
| "month_sum y (Suc k) =
     (case month_sum y k of None \<Rightarrow> None | Some a \<Rightarrow> map_option (\<lambda>n. a + n) (month_days y (Suc k)))"

definition to_epoch :: "rtc_time \<Rightarrow> u64 option" where
  "to_epoch t =
     map_option (\<lambda>md. (of_nat (year_sum 1970 (unat (year t)) + md) + ucast (day t) - 1) * 86400 +
       ucast (hour t) * 3600 + ucast (minute t) * 60 + ucast (second t))
     (month_sum (unat (year t)) (unat (month t) - 1))"

text \<open>The loops of \<open>from_epoch\<close>.\<close>

function year_loop :: "nat \<Rightarrow> nat \<Rightarrow> nat \<times> nat" where
  "year_loop days y =
     (if year_days y \<le> days then year_loop (days - year_days y) ((y + 1) mod 2 ^ 32) else (days, y))"
  by pat_completeness auto
termination by (relation "measure fst") (auto simp: year_days_def split: if_splits)

declare year_loop.simps [simp del]

lemma month_days_pos: "month_days y m = Some n \<Longrightarrow> 0 < n"
proof -
  have "list_all (\<lambda>n. 0 < n) month_table" by (simp add: month_table_def)
  then show "month_days y m = Some n \<Longrightarrow> 0 < n"
    by (auto simp: month_days_def list_all_length month_table_def split: if_splits)
qed

function month_loop :: "nat \<Rightarrow> nat \<Rightarrow> nat \<Rightarrow> (nat \<times> nat) option" where
  "month_loop y m days =
     (case month_days y m of
        None \<Rightarrow> None
      | Some n \<Rightarrow> if n \<le> days then month_loop y (m + 1) (days - n) else Some (m, days))"
  by pat_completeness auto
termination by (relation "measure (\<lambda>(y, m, days). days)") (auto dest: month_days_pos)

declare month_loop.simps [simp del]

definition from_epoch :: "u64 \<Rightarrow> rtc_time option" where
  "from_epoch value =
     (let days = unat value div 86400; s = unat value mod 86400; (days, y) = year_loop days 1970 in
      map_option (\<lambda>(m, days).
        \<lparr>year = of_nat y, month = of_nat m, day = of_nat (days + 1), hour = of_nat (s div 3600),
         minute = of_nat (s mod 3600 div 60), second = of_nat (s mod 60)\<rparr>)
      (month_loop y 1 days))"

section \<open>The loops\<close>

lemma year_sum_Suc: "a \<le> y \<Longrightarrow> year_sum a (Suc y) = year_sum a y + year_days y"
  by (simp add: year_sum_def)

lemma year_sum_first: "a < y \<Longrightarrow> year_sum a y = year_days a + year_sum (Suc a) y"
  by (simp add: year_sum_def upt_conv_Cons)

lemma year_days_range: "365 \<le> year_days y" "year_days y \<le> 366"
  by (simp_all add: year_days_def)

lemma year_loop_exit: "fst (year_loop d y) < year_days (snd (year_loop d y))"
  by (induction d y rule: year_loop.induct) (subst (1 2) year_loop.simps, auto)

lemma year_loop_sum:
  "y + d div 365 < 2 ^ 32 \<Longrightarrow> \<exists>z r. year_loop d y = (r, z) \<and> y \<le> z \<and> z \<le> y + d div 365 \<and> year_sum y z + r = d"
proof (induction d y rule: year_loop.induct)
  case (1 d y)
  show ?case
  proof (cases "year_days y \<le> d")
    case True
    have "(d - year_days y) div 365 \<le> (d - 365) div 365"
      using year_days_range [of y] by (intro div_le_mono) simp
    moreover have "d div 365 = Suc ((d - 365) div 365)"
      using True year_days_range [of y] by (intro le_div_geq) simp_all
    ultimately have d: "(d - year_days y) div 365 + 1 \<le> d div 365" by simp
    then have y: "(y + 1) mod 2 ^ 32 = y + 1" and b: "y + 1 + (d - year_days y) div 365 < 2 ^ 32"
      using 1(2) by simp_all
    from 1(1) [OF True] b obtain z r where
      "year_loop (d - year_days y) (y + 1) = (r, z)" "y + 1 \<le> z" "z \<le> y + 1 + (d - year_days y) div 365"
      "year_sum (y + 1) z + r = d - year_days y"
      unfolding y by blast
    then show ?thesis using True d y by (subst year_loop.simps) (auto simp: year_sum_first)
  qed (subst year_loop.simps, simp add: year_sum_def)
qed

lemma year_loop_year_sum:
  assumes "r < year_days (a + k)" and "a + k < 2 ^ 32"
  shows "year_loop (year_sum a (a + k) + r) a = (r, a + k)"
  using assms
proof (induction k arbitrary: a)
  case 0
  then show ?case by (subst year_loop.simps) (simp add: year_sum_def)
next
  case (Suc k)
  have "year_loop (year_sum (Suc a) (Suc a + k) + r) (Suc a) = (r, Suc a + k)"
    using Suc.prems by (intro Suc.IH) simp_all
  then show ?case using Suc.prems year_sum_first [of a "a + Suc k"] by (subst year_loop.simps) simp
qed

lemma length_month_table: "length month_table = 12"
  by (simp add: month_table_def)

lemma nth_month_table: "i < 12 \<Longrightarrow> month_table ! i \<le> 31 \<and> (i = 1 \<longrightarrow> month_table ! i = 28)"
proof -
  have "list_all (\<lambda>i. month_table ! i \<le> 31 \<and> (i = 1 \<longrightarrow> month_table ! i = 28)) [0..<12]" by code_simp
  then show "i < 12 \<Longrightarrow> month_table ! i \<le> 31 \<and> (i = 1 \<longrightarrow> month_table ! i = 28)" by (auto simp: list_all_iff)
qed

lemma month_sum_table:
  "k \<le> 12 \<Longrightarrow> month_sum y k = Some (sum_list (take k month_table) + (if 2 \<le> k \<and> leap y then 1 else 0))"
proof (induction k)
  case (Suc k)
  then show ?case by (auto simp: month_days_def take_Suc_conv_app_nth length_month_table)
qed simp

lemma month_sum_Suc:
  "1 \<le> m \<Longrightarrow> month_sum y (m - 1) = Some a \<Longrightarrow> month_days y m = Some n \<Longrightarrow> month_sum y m = Some (a + n)"
  by (cases m) simp_all

lemma month_sum_12: "month_sum y 12 = Some (year_days y)"
  by (simp add: month_sum_table year_days_def month_table_def)

lemma month_sum_le: "k \<le> 12 \<Longrightarrow> month_sum y k = Some a \<Longrightarrow> a \<le> year_days y"
proof -
  assume k: "k \<le> 12" and a: "month_sum y k = Some a"
  have "sum_list (take k month_table) + sum_list (drop k month_table) = sum_list month_table"
    by (simp flip: sum_list_append)
  moreover have "sum_list month_table = 365" by (simp add: month_table_def)
  ultimately show ?thesis using k a by (auto simp: month_sum_table year_days_def)
qed

lemma month_loop_sum:
  assumes "1 \<le> m" and "month_sum y (m - 1) = Some a" and "a + d < year_days y"
  shows "\<exists>k r b n. month_loop y m d = Some (k, r) \<and> 1 \<le> k \<and> k \<le> 12 \<and> month_sum y (k - 1) = Some b \<and> b + r = a + d \<and>
    month_days y k = Some n \<and> r < n"
  using assms
proof (induction y m d arbitrary: a rule: month_loop.induct)
  case (1 y m d)
  have "m \<noteq> 13" using 1(3,4) month_sum_12 [of y] by auto
  moreover have "m - 1 \<le> 12"
  proof (rule ccontr)
    assume "\<not> m - 1 \<le> 12"
    then obtain k where "m - 1 = Suc k" "12 \<le> k" by (cases "m - 1") auto
    then show False using 1(3) by (auto simp: month_days_def split: option.splits)
  qed
  ultimately have "m \<le> 12" by arith
  then obtain n where n: "month_days y m = Some n" using 1(2) by (simp add: month_days_def)
  show ?case
  proof (cases "n \<le> d")
    case True
    have "month_sum y (m + 1 - 1) = Some (a + n)" using month_sum_Suc [OF 1(2,3) n] by simp
    from 1(1) [OF n True _ this] 1(4) True n show ?thesis by (subst month_loop.simps) auto
  next
    case False
    then show ?thesis using n 1 by (subst month_loop.simps) (auto simp: month_days_def split: if_splits)
  qed
qed

lemma month_loop_month_sum:
  assumes "month_sum y (m + k) = Some b" and "month_sum y m = Some a" and "month_days y (Suc (m + k)) = Some n" and "r < n"
  shows "a \<le> b \<and> month_loop y (Suc m) (b - a + r) = Some (Suc (m + k), r)"
  using assms
proof (induction k arbitrary: m a)
  case 0
  then show ?case by (subst month_loop.simps) simp
next
  case (Suc k)
  have "Suc m \<le> 12" using Suc.prems(3) by (simp add: month_days_def split: if_splits)
  then obtain c where c: "month_sum y (Suc m) = Some c" using month_sum_table by blast
  then obtain l where l: "month_days y (Suc m) = Some l" "c = a + l" using Suc.prems(2) by auto
  have "c \<le> b \<and> month_loop y (Suc (Suc m)) (b - c + r) = Some (Suc (Suc m + k), r)"
    using Suc.prems c by (intro Suc.IH) simp_all
  moreover from this have "b - a + r - l = b - c + r" "l \<le> b - a + r" "a \<le> b" using l by auto
  ultimately show ?case using l by (subst month_loop.simps) simp
qed

section \<open>Dates\<close>

text \<open>A date of the Gregorian calendar with a time of day.\<close>

definition date_ok :: "rtc_time \<Rightarrow> bool" where
  "date_ok t \<longleftrightarrow> 1970 \<le> year t \<and> 1 \<le> month t \<and> month t \<le> 12 \<and> 1 \<le> day t \<and>
     (case month_days (unat (year t)) (unat (month t)) of None \<Rightarrow> False | Some n \<Rightarrow> unat (day t) \<le> n) \<and>
     hour t \<le> 23 \<and> minute t \<le> 59 \<and> second t \<le> 59"

lemma from_epoch_total: "from_epoch v \<noteq> None"
proof -
  obtain d y where y: "year_loop (unat v div 86400) 1970 = (d, y)" by (metis surj_pair)
  then have "d < year_days y" using year_loop_exit [of "unat v div 86400" 1970] by simp
  with month_loop_sum [of 1 y 0 d] y show ?thesis by (auto simp: from_epoch_def Let_def)
qed

lemma to_epoch_nat:
  assumes "month_sum (unat (year t)) (unat (month t) - 1) = Some md" and "1 \<le> unat (day t)"
  shows "to_epoch t = Some (of_nat ((year_sum 1970 (unat (year t)) + md + (unat (day t) - 1)) * 86400 +
    unat (hour t) * 3600 + unat (minute t) * 60 + unat (second t)))"
proof -
  have c: "(ucast x :: u64) = of_nat (unat x)" for x :: u8
    by simp
  obtain n where n: "unat (day t) = Suc n" using assms(2) by (cases "unat (day t)") simp_all
  then show ?thesis using assms(1) unfolding to_epoch_def c by (simp add: algebra_simps)
qed

lemma year_sum_le: "year_sum a y \<le> 366 * (y - a)"
proof (induction y)
  case (Suc y)
  then show ?case using year_days_range [of y] by (cases "a \<le> y") (auto simp: year_sum_Suc Suc_diff_le, simp add: year_sum_def)
qed (simp add: year_sum_def)

lemma day_split:
  fixes h m s D :: nat
  assumes "h \<le> 23" and "m \<le> 59" and "s \<le> 59"
  shows "(D * 86400 + h * 3600 + m * 60 + s) div 86400 = D" "(D * 86400 + h * 3600 + m * 60 + s) mod 86400 div 3600 = h"
    "(D * 86400 + h * 3600 + m * 60 + s) mod 86400 mod 3600 div 60 = m" "(D * 86400 + h * 3600 + m * 60 + s) mod 86400 mod 60 = s"
proof -
  let ?x = "h * 3600 + m * 60 + s"
  have x: "?x < 86400" using assms by simp
  then have d: "(D * 86400 + h * 3600 + m * 60 + s) mod 86400 = ?x" by (simp add: add.assoc)
  show "(D * 86400 + h * 3600 + m * 60 + s) div 86400 = D" using x by (simp add: add.assoc)
  show "(D * 86400 + h * 3600 + m * 60 + s) mod 86400 div 3600 = h" unfolding d using assms by (simp add: add.assoc)
  show "(D * 86400 + h * 3600 + m * 60 + s) mod 86400 mod 3600 div 60 = m" unfolding d using assms by (simp add: add.assoc)
  have "?x mod 60 = (s + (h * 60 + m) * 60) mod 60" by (simp add: algebra_simps)
  also have "\<dots> = s" unfolding mod_mult_self1 using assms by simp
  finally show "(D * 86400 + h * 3600 + m * 60 + s) mod 86400 mod 60 = s" unfolding d .
qed

lemma epoch_bound:
  assumes "y < 2 ^ 16" and "md < 366" and "d \<le> 31" and "h \<le> 23" and "m \<le> 59" and "s \<le> 59"
  shows "(year_sum 1970 y + md + d) * 86400 + h * 3600 + m * 60 + s < 2 ^ 64"
proof -
  have "year_sum 1970 y \<le> 366 * 2 ^ 16" using year_sum_le [of 1970 y] assms(1) by simp
  then have "year_sum 1970 y + md + d \<le> 366 * 2 ^ 16 + 366 + 31" using assms by simp
  then have "(year_sum 1970 y + md + d) * 86400 \<le> (366 * 2 ^ 16 + 366 + 31) * 86400" by (rule mult_le_mono1)
  then show ?thesis using assms(4,5,6) by simp
qed

lemma date_okE:
  assumes "date_ok t"
  obtains md n where "month_sum (unat (year t)) (unat (month t) - 1) = Some md"
    "month_days (unat (year t)) (unat (month t)) = Some n" "unat (day t) \<le> n" "1 \<le> unat (day t)"
    "md + n \<le> year_days (unat (year t))" "1970 \<le> unat (year t)" "1 \<le> unat (month t)" "unat (month t) \<le> 12"
    "unat (hour t) \<le> 23" "unat (minute t) \<le> 59" "unat (second t) \<le> 59"
proof -
  let ?y = "unat (year t)" and ?m = "unat (month t)"
  have t: "1970 \<le> ?y" "1 \<le> ?m" "?m \<le> 12" "1 \<le> unat (day t)" "unat (hour t) \<le> 23" "unat (minute t) \<le> 59" "unat (second t) \<le> 59"
    using assms by (simp_all add: date_ok_def word_le_nat_alt)
  from assms obtain n where n: "month_days ?y ?m = Some n" "unat (day t) \<le> n"
    by (auto simp: date_ok_def split: option.splits)
  from t obtain md where md: "month_sum ?y (?m - 1) = Some md" using month_sum_table [of "?m - 1"] by auto
  from month_sum_Suc [OF t(2) md n(1)] have "month_sum ?y ?m = Some (md + n)" .
  then have "md + n \<le> year_days ?y"
    using month_sum_le [OF t(3)] by blast
  with that t n md show thesis by blast
qed

lemma to_epoch_ok:
  assumes "date_ok t"
  shows "\<exists>md. month_sum (unat (year t)) (unat (month t) - 1) = Some md \<and>
    map_option unat (to_epoch t) = Some ((year_sum 1970 (unat (year t)) + md + (unat (day t) - 1)) * 86400 +
      unat (hour t) * 3600 + unat (minute t) * 60 + unat (second t))"
proof -
  from assms obtain md n where md: "month_sum (unat (year t)) (unat (month t) - 1) = Some md"
    and n: "month_days (unat (year t)) (unat (month t)) = Some n" "unat (day t) \<le> n" "1 \<le> unat (day t)"
      "md + n \<le> year_days (unat (year t))"
    and hms: "unat (hour t) \<le> 23" "unat (minute t) \<le> 59" "unat (second t) \<le> 59"
    by (elim date_okE) blast
  have "n \<le> 31" using n(1) nth_month_table [of "unat (month t) - 1"] by (auto simp: month_days_def split: if_splits)
  moreover have "0 < n" using n by simp
  moreover have "unat (year t) < 2 ^ 16" using unsigned_less [of "year t", where ?'a = nat] by simp
  ultimately have "(year_sum 1970 (unat (year t)) + md + (unat (day t) - 1)) * 86400 +
      unat (hour t) * 3600 + unat (minute t) * 60 + unat (second t) < 2 ^ 64"
    using n hms year_days_range [of "unat (year t)"] by (intro epoch_bound) simp_all
  then have "unat (of_nat ((year_sum 1970 (unat (year t)) + md + (unat (day t) - 1)) * 86400 +
      unat (hour t) * 3600 + unat (minute t) * 60 + unat (second t)) :: u64) = (year_sum 1970 (unat (year t)) + md +
      (unat (day t) - 1)) * 86400 + unat (hour t) * 3600 + unat (minute t) * 60 + unat (second t)"
    by (intro of_nat_inverse [OF refl]) simp
  with md show ?thesis unfolding to_epoch_nat [OF md n(3)] option.map by blast
qed

lemma from_epoch_to_epoch:
  assumes "date_ok t"
  shows "\<exists>v. to_epoch t = Some v \<and> from_epoch v = Some t"
proof -
  let ?y = "unat (year t)" and ?m = "unat (month t)" and ?d = "unat (day t)"
  from to_epoch_ok [OF assms] obtain md v where md: "month_sum ?y (?m - 1) = Some md" and v: "to_epoch t = Some v"
    and u: "unat v = (year_sum 1970 ?y + md + (?d - 1)) * 86400 + unat (hour t) * 3600 + unat (minute t) * 60 + unat (second t)"
    by (auto simp del: One_nat_def)
  from assms obtain md' n where n: "month_sum ?y (?m - 1) = Some md'" "month_days ?y ?m = Some n" "?d \<le> n" "1 \<le> ?d"
      "md' + n \<le> year_days ?y" "1970 \<le> ?y" "1 \<le> ?m"
    and hms: "unat (hour t) \<le> 23" "unat (minute t) \<le> 59" "unat (second t) \<le> 59"
    by (elim date_okE) blast
  have "?y < 2 ^ 16" using unsigned_less [of "year t", where ?'a = nat] by simp
  then have "year_loop (year_sum 1970 (1970 + (?y - 1970)) + (md + (?d - 1))) 1970 = (md + (?d - 1), 1970 + (?y - 1970))"
    using n md by (intro year_loop_year_sum) simp_all
  then have y: "year_loop (year_sum 1970 ?y + md + (?d - 1)) 1970 = (md + (?d - 1), ?y)"
    using n(6) by (simp add: add.assoc)
  have "month_loop ?y (Suc 0) (md - 0 + (?d - 1)) = Some (Suc (0 + (?m - 1)), ?d - 1)"
    using month_loop_month_sum [of ?y 0 "?m - 1" md 0 n "?d - 1"] md n by simp
  then have m: "month_loop ?y 1 (md + (?d - 1)) = Some (?m, ?d - 1)" using n(7) by simp
  have "from_epoch v = Some t"
    unfolding from_epoch_def u Let_def day_split [OF hms] y prod.case m option.map
    using n(4) by (simp add: of_nat_diff)
  with v show ?thesis by blast
qed

text \<open>The seconds for which the year surely fits its 16 bits.\<close>

definition EPOCH_LIMIT :: u64 where "EPOCH_LIMIT = 63565 * 365 * 86400"

lemma unat_small8: "n < 256 \<Longrightarrow> unat (of_nat n :: u8) = n"
  by (simp add: unat_of_nat)

lemma to_epoch_from_epoch:
  assumes "v < EPOCH_LIMIT"
  shows "\<exists>t. from_epoch v = Some t \<and> date_ok t \<and> to_epoch t = Some v"
proof -
  let ?D = "unat v div 86400" and ?s = "unat v mod 86400"
  have "unat v < 63565 * 365 * 86400" using assms by (simp add: EPOCH_LIMIT_def word_less_nat_alt)
  then have "?D div 365 < 63565" by (simp add: less_mult_imp_div_less)
  with year_loop_sum [of 1970 ?D] obtain y r where y: "year_loop ?D 1970 = (r, y)" "1970 \<le> y" "y < 2 ^ 16"
      "year_sum 1970 y + r = ?D" by fastforce
  have "r < year_days y" using year_loop_exit [of ?D 1970] y(1) by simp
  with month_loop_sum [of 1 y 0 r] obtain k d md n where m: "month_loop y 1 r = Some (k, d)" "1 \<le> k" "k \<le> 12"
      "month_sum y (k - 1) = Some md" "md + d = r" "month_days y k = Some n" "d < n" by auto
  have n: "n \<le> 31" using m(6) nth_month_table [of "k - 1"] by (auto simp: month_days_def split: if_splits)
  define t where "t = \<lparr>year = of_nat y, month = of_nat k, day = of_nat (d + 1), hour = of_nat (?s div 3600),
     minute = of_nat (?s mod 3600 div 60), second = of_nat (?s mod 60)\<rparr>"
  have f: "from_epoch v = Some t" unfolding from_epoch_def Let_def y(1) prod.case m(1) option.map t_def ..
  have "?s < 86400" by simp
  then have h: "?s div 3600 \<le> 23" "?s mod 3600 div 60 \<le> 59" "?s mod 60 \<le> 59"
    by (simp_all add: less_Suc_eq_le [symmetric] less_mult_imp_div_less)
  have "unat (of_nat (d + 1) :: u8) = d + 1" using m(7) n by (intro of_nat_inverse [OF refl]) simp
  then have u: "unat (year t) = y" "unat (month t) = k" "unat (day t) = d + 1" "unat (hour t) = ?s div 3600"
    "unat (minute t) = ?s mod 3600 div 60" "unat (second t) = ?s mod 60"
    using y m n h by (simp_all add: t_def unat_of_nat)
  have ok: "date_ok t" unfolding date_ok_def word_le_nat_alt u using y m h by simp
  have "?s div 3600 * 3600 + ?s mod 3600 div 60 * 60 + ?s mod 60 = ?s"
    using div_mult_mod_eq [of ?s 3600] div_mult_mod_eq [of "?s mod 3600" 60] mod_mod_cancel [of 60 3600 ?s]
    by (simp add: add.assoc)
  then have "(year_sum 1970 y + md + (d + 1 - 1)) * 86400 + ?s div 3600 * 3600 + ?s mod 3600 div 60 * 60 + ?s mod 60 = unat v"
    using y(4) m(5) div_mult_mod_eq [of "unat v" 86400] by (simp add: add.assoc)
  with to_epoch_ok [OF ok] m(4) have "map_option unat (to_epoch t) = Some (unat v)" unfolding u by auto
  then have "to_epoch t = Some v" by (auto simp: word_unat_eq_iff)
  with f ok show ?thesis by blast
qed

section \<open>Properties\<close>

text \<open>C29: \<open>to_epoch\<close> and \<open>from_epoch\<close> are inverse to each other. Every date of the Gregorian
  calendar from 1970 on that fits the record is converted to seconds and back to itself, and every number
  of seconds up to the year 65535 is converted to a valid date and back to itself.\<close>

theorem calendar_roundtrip:
  "(date_ok t \<longrightarrow> (\<exists>v. to_epoch t = Some v \<and> from_epoch v = Some t)) \<and>
   (v < EPOCH_LIMIT \<longrightarrow> (\<exists>t. from_epoch v = Some t \<and> date_ok t \<and> to_epoch t = Some v))"
  using from_epoch_to_epoch to_epoch_from_epoch by blast

theorem calendar_roundtrip_witness:
  "(\<exists>v. to_epoch demo_date = Some v \<and> from_epoch v = Some demo_date) \<and>
   (\<exists>t. from_epoch 1709251199 = Some t \<and> date_ok t \<and> to_epoch t = Some 1709251199)"
proof -
  have "date_ok demo_date" by (simp add: date_ok_def demo_date_def month_days_def month_table_def leap_def)
  moreover have "(1709251199 :: u64) < EPOCH_LIMIT" by (simp add: EPOCH_LIMIT_def)
  ultimately show ?thesis using calendar_roundtrip by blast
qed

end
