(* ===== verification/Timed.thy ===== *)
theory Timed
  imports Calendar C_Code "HOL-Library.Signed_Division"
begin

text \<open>
  The time service, \<open>src/kernel/core/timed.c\<close>: a clock that counts time-stamp-counter ticks
  from the date the CMOS clock showed at boot, corrected by NTP.

  The static variables are the record \<open>timed\<close>. The instructions \<open>rdtsc\<close> and \<open>cpuid\<close> and the
  calls into the network and the file systems are the fields of the record \<open>clock_env\<close>; the
  date at boot comes from the driver in theory \<open>Rtc\<close>. Values of type \<open>int64_t\<close> are integers:
  casts from \<open>uint64_t\<close> are \<open>sint\<close>, casts to it \<open>of_int\<close>, and the division is \<open>sdiv\<close>.
\<close>

section \<open>Environment and state\<close>

record ntp_result =
  address :: u32
  stratum :: u8
  receive_timestamp :: u64
  transmit_timestamp :: u64

record 'w clock_env =
  rdtsc :: "'w \<Rightarrow> u64 \<times> 'w"
  cpuid_eax :: "u32 \<Rightarrow> u32"
  network_ready :: "'w \<Rightarrow> bool"
  network_ntp_query :: "string \<Rightarrow> u64 \<Rightarrow> u32 \<Rightarrow> 'w \<Rightarrow> int \<times> ntp_result \<times> 'w"
  boot_file :: "string \<Rightarrow> string option"
  varfs_mounted :: "'w \<Rightarrow> bool"
  varfs_load :: "string \<Rightarrow> nat \<Rightarrow> 'w \<Rightarrow> string option \<times> 'w"
  varfs_store :: "string \<Rightarrow> string \<Rightarrow> 'w \<Rightarrow> bool \<times> 'w"
  varfs_sync :: "'w \<Rightarrow> bool \<times> 'w"

record 'w timed =
  clock :: rtc_time
  running :: bool
  valid :: bool
  configured :: bool
  enabled :: bool
  synchronized :: bool
  last_error :: int
  realtime_correction_ns :: int
  last_offset_ns :: int
  last_delay_ns :: int
  base_tsc :: u64
  base_utc_ns :: u64
  tsc_hz :: u64
  last_sync_epoch :: u64
  next_attempt_ns :: u64
  last_address :: u32
  last_stratum :: u8
  timeout_ms :: u32
  retries :: u32
  sync_interval :: u32
  updates :: u64
  uptime :: u64
  failures :: u64
  server :: string
  t_hw :: 'w

definition NTP_EPOCH :: u64 where "NTP_EPOCH = 2208988800"

abbreviation NS_SECOND :: int where "NS_SECOND \<equiv> 1000000000"

definition NETWORK_NTP_OK :: int where "NETWORK_NTP_OK = 1"
definition NETWORK_NTP_DOWN :: int where "NETWORK_NTP_DOWN = -1"
definition NETWORK_NTP_TIMEOUT :: int where "NETWORK_NTP_TIMEOUT = -5"
definition NETWORK_NTP_TIMESTAMP :: int where "NETWORK_NTP_TIMESTAMP = -11"

section \<open>The counter\<close>

definition read_tsc :: "'w clock_env \<Rightarrow> 'w timed \<Rightarrow> u64 \<times> 'w timed" where
  "read_tsc env st = (let (v, w) = rdtsc env (t_hw st) in (v, st\<lparr>t_hw := w\<rparr>))"

definition cpu_hz :: "'w clock_env \<Rightarrow> u64" where
  "cpu_hz env =
     (if 0x16 \<le> cpuid_eax env 0 \<and> cpuid_eax env 0x16 \<noteq> 0 then ucast (cpuid_eax env 0x16) * 1000000
      else 1000000000)"

definition elapsed_ns :: "u64 \<Rightarrow> u64 \<Rightarrow> u64" where
  "elapsed_ns hz ticks = (let q = ticks div hz; r = ticks mod hz in q * 1000000000 + r * 1000000000 div hz)"

definition timed_monotonic_ns :: "'w clock_env \<Rightarrow> 'w timed \<Rightarrow> u64 \<times> 'w timed" where
  "timed_monotonic_ns env st =
     (let (t, st) = read_tsc env st in (elapsed_ns (tsc_hz st) (t - base_tsc st), st))"

definition timed_get_realtime_ns :: "'w clock_env \<Rightarrow> 'w timed \<Rightarrow> int option \<times> 'w timed" where
  "timed_get_realtime_ns env st =
     (if \<not> running st then (None, st)
      else let (m, st) = timed_monotonic_ns env st in
        (Some (sint (base_utc_ns st + m) + realtime_correction_ns st), st))"

section \<open>NTP timestamps\<close>

text \<open>32 bits of seconds since 1900 and 32 bits of fraction.\<close>

definition ntp_from_ns :: "int \<Rightarrow> u64" where
  "ntp_from_ns ns =
     (let sec = of_int (ns sdiv NS_SECOND) + NTP_EPOCH; frac = (of_int (ns smod NS_SECOND) :: u64)
      in push_bit 32 sec OR push_bit 32 frac div 1000000000)"

definition fixed_delta_ns :: "u64 \<Rightarrow> u64 \<Rightarrow> int" where
  "fixed_delta_ns a b =
     (let d = sint (a - b); q = d sdiv 4294967296; r = d smod 4294967296
      in q * NS_SECOND + (r * NS_SECOND) sdiv 4294967296)"

section \<open>The configuration file\<close>

fun parse_digits :: "nat \<Rightarrow> string \<Rightarrow> nat option" where
  "parse_digits v [] = Some v"
| "parse_digits v (c # cs) =
     (if \<not> between (CHR ''0'') (CHR ''9'') c \<or> 1000000 < v then None
      else parse_digits (v * 10 + (of_char c - 48)) cs)"

definition parse_uint :: "string \<Rightarrow> nat option" where
  "parse_uint s = (if s = [] then None else parse_digits 0 s)"

definition host_char :: "char \<Rightarrow> bool" where
  "host_char c \<longleftrightarrow> between (CHR ''a'') (CHR ''z'') c \<or> between (CHR ''A'') (CHR ''Z'') c \<or>
     between (CHR ''0'') (CHR ''9'') c \<or> c = CHR ''-'' \<or> c = CHR ''.''"

fun host_loop :: "nat \<Rightarrow> nat \<Rightarrow> string \<Rightarrow> bool" where
  "host_loop n label [] \<longleftrightarrow> n \<noteq> 0 \<and> label \<noteq> 0"
| "host_loop n label (c # s) \<longleftrightarrow>
     host_char c \<and> \<not> (c = CHR ''.'' \<and> label = 0) \<and>
     (let label = (if c = CHR ''.'' then 0 else label + 1) in n + 1 < 96 \<and> label \<le> 63 \<and> host_loop (n + 1) label s)"

definition hostname_valid :: "string \<Rightarrow> bool" where
  "hostname_valid s = host_loop 0 0 s"

definition set_text :: "string \<Rightarrow> nat \<Rightarrow> string" where
  "set_text s cap = take (cap - 1) s"

text \<open>One \<open>key=value\<close> line.\<close>

definition number_setting :: "string \<Rightarrow> nat \<Rightarrow> nat \<Rightarrow> u32 option" where
  "number_setting v lo hi =
     (case parse_uint v of None \<Rightarrow> None | Some n \<Rightarrow> if lo \<le> n \<and> n \<le> hi then Some (of_nat n) else None)"

definition apply_setting :: "string \<Rightarrow> string \<Rightarrow> 'w timed \<Rightarrow> 'w timed" where
  "apply_setting k v st =
     (if k = ''server'' \<and> length v < 96
      then if hostname_valid (cstr v) then st\<lparr>server := set_text (cstr v) 96\<rparr> else st
      else if k = ''enabled'' then st\<lparr>enabled := (v = ''true'')\<rparr>
      else if length k = 10 \<and> hd k = CHR ''t'' \<and> number_setting v 100 30000 \<noteq> None
      then st\<lparr>timeout_ms := the (number_setting v 100 30000)\<rparr>
      else if length k = 7 \<and> hd k = CHR ''r'' \<and> number_setting v 1 5 \<noteq> None
      then st\<lparr>retries := the (number_setting v 1 5)\<rparr>
      else if length k = 13 \<and> hd k = CHR ''s'' \<and> number_setting v 60 86400 \<noteq> None
      then st\<lparr>sync_interval := the (number_setting v 60 86400)\<rparr>
      else st)"

abbreviation CR :: char where "CR \<equiv> CHR 0x0D"

definition skip_line :: "string \<Rightarrow> string" where
  "skip_line s = drop 1 (dropWhile (\<lambda>c. c \<noteq> LF) s)"

definition blank :: "char \<Rightarrow> bool" where
  "blank c \<longleftrightarrow> c \<in> {CHR '' '', CHR 0x09, CR, LF}"

lemma length_skip_line: "length (skip_line s) \<le> length s - 1"
  using length_dropWhile_le [of "\<lambda>c. c \<noteq> LF" s] by (simp add: skip_line_def)

function parse_config :: "string \<Rightarrow> 'w timed \<Rightarrow> 'w timed" where
  "parse_config s st =
     (case dropWhile blank s of
        [] \<Rightarrow> st
      | c # cs \<Rightarrow>
          if c = CHR ''#'' then parse_config (skip_line cs) st
          else let key = takeWhile (\<lambda>c. c \<noteq> CHR ''='' \<and> c \<noteq> LF) (c # cs);
                   rest = dropWhile (\<lambda>c. c \<noteq> CHR ''='' \<and> c \<noteq> LF) (c # cs)
            in if rest \<noteq> [] \<and> hd rest = CHR ''=''
               then parse_config (dropWhile (\<lambda>c. c \<noteq> CR \<and> c \<noteq> LF) (tl rest))
                 (apply_setting key (takeWhile (\<lambda>c. c \<noteq> CR \<and> c \<noteq> LF) (tl rest)) st)
               else parse_config (skip_line rest) st)"
  by pat_completeness auto
termination
proof (relation "measure (\<lambda>(s, st). length s)", goal_cases)
  case (2 s st c cs)
  then have "length cs < length s" using length_dropWhile_le [of blank s] by simp
  then show ?case using length_skip_line [of cs] by simp
next
  case (3 s st c cs key rest)
  then show ?case
    using length_dropWhile_le [of blank s] length_dropWhile_le [of "\<lambda>c. c \<noteq> CHR ''='' \<and> c \<noteq> LF" "c # cs"]
      length_dropWhile_le [of "\<lambda>c. c \<noteq> CR \<and> c \<noteq> LF" "tl rest"] by (cases rest) auto
next
  case (4 s st c cs key rest)
  then show ?case
    using length_dropWhile_le [of blank s] length_dropWhile_le [of "\<lambda>c. c \<noteq> CHR ''='' \<and> c \<noteq> LF" "c # cs"]
      length_skip_line [of rest] by (cases rest) auto
qed simp

declare parse_config.simps [simp del]

definition load_config :: "'w clock_env \<Rightarrow> 'w timed \<Rightarrow> 'w timed" where
  "load_config env st =
     (if configured st then st
      else let st = st\<lparr>configured := True\<rparr>;
               st = (case boot_file env ''etc/ntp.conf'' of None \<Rightarrow> st | Some d \<Rightarrow> parse_config d st)
        in if varfs_mounted env (t_hw st)
           then let (b, w) = varfs_load env ''/var/lib/os64/ntp.conf'' 512 (t_hw st); st = st\<lparr>t_hw := w\<rparr>
             in case b of None \<Rightarrow> st | Some d \<Rightarrow> parse_config d st
           else st)"

definition config_text :: "'w timed \<Rightarrow> string" where
  "config_text st =
     ''server='' @ server st @ [LF] @ ''enabled='' @ (if enabled st then ''true'' else ''false'') @ [LF]"

definition save_config :: "'w clock_env \<Rightarrow> 'w timed \<Rightarrow> bool \<times> 'w timed" where
  "save_config env st =
     (if \<not> varfs_mounted env (t_hw st) then (False, st)
      else let (ok, w) = varfs_store env ''/var/lib/os64/ntp.conf'' (config_text st) (t_hw st); st = st\<lparr>t_hw := w\<rparr>
        in if \<not> ok then (False, st)
           else let (ok, w) = varfs_sync env (t_hw st) in (ok, st\<lparr>t_hw := w\<rparr>))"

section \<open>The service\<close>

text \<open>The conversion to seconds is defined for every date the driver accepts, see \<open>to_epoch_in_range\<close>.\<close>

definition timed_init :: "'w ports \<Rightarrow> 'w clock_env \<Rightarrow> 'w timed \<Rightarrow> 'w timed" where
  "timed_init io env st =
     (let st = st\<lparr>tsc_hz := cpu_hz env\<rparr>;
          (t, st) = read_tsc env st;
          st = st\<lparr>base_tsc := t, running := True, valid := False, configured := False, synchronized := False,
            last_error := 0, realtime_correction_ns := 0, last_offset_ns := 0, last_delay_ns := 0,
            updates := 0, uptime := 0, failures := 0, last_sync_epoch := 0, next_attempt_ns := 0\<rparr>;
          (ok, raw, w) = rtc_read io (clock st) (t_hw st);
          st = st\<lparr>t_hw := w\<rparr>
      in if ok
         then st\<lparr>base_utc_ns := the (to_epoch raw) * 1000000000, valid := True, clock := raw, updates := 1\<rparr>
         else st\<lparr>base_utc_ns := 0\<rparr>)"

definition timed_start :: "'w clock_env \<Rightarrow> 'w timed \<Rightarrow> 'w timed" where
  "timed_start env st =
     (let st = load_config env (st\<lparr>running := True\<rparr>) in
      if enabled st \<and> next_attempt_ns st = 0
      then let (m, st) = timed_monotonic_ns env st in st\<lparr>next_attempt_ns := m + 1000000000\<rparr>
      else st)"

definition timed_stop :: "'w timed \<Rightarrow> 'w timed" where
  "timed_stop st = st\<lparr>running := False\<rparr>"

text \<open>The queries, at most \<open>retries\<close> of them, until one succeeds.\<close>

fun query_loop :: "'w clock_env \<Rightarrow> nat \<Rightarrow> u64 \<Rightarrow> int \<Rightarrow> 'w timed \<Rightarrow> int \<times> ntp_result option \<times> 'w timed" where
  "query_loop env 0 t1 result st = (result, None, st)"
| "query_loop env (Suc n) t1 result st =
     (let (result, reply, w) = network_ntp_query env (server st) t1 (timeout_ms st * 1400) (t_hw st);
          st = st\<lparr>t_hw := w\<rparr>
      in if result = NETWORK_NTP_OK then (result, Some reply, st) else query_loop env n t1 result st)"

definition sync_failed :: "int \<Rightarrow> 'w timed \<Rightarrow> int \<times> 'w timed" where
  "sync_failed e st = (e, st\<lparr>last_error := e, failures := failures st + 1\<rparr>)"

text \<open>The reply of a server, with the local times \<open>t1\<close> and \<open>t4\<close> of the query and the reply.\<close>

definition sync_reply :: "'w clock_env \<Rightarrow> ntp_result \<Rightarrow> u64 \<Rightarrow> int \<Rightarrow> 'w timed \<Rightarrow> int \<times> 'w timed" where
  "sync_reply env reply t1 t4ns st =
     (let t4 = ntp_from_ns t4ns;
          a = fixed_delta_ns (receive_timestamp reply) t1;
          b = fixed_delta_ns (transmit_timestamp reply) t4;
          remote = fixed_delta_ns (transmit_timestamp reply) (receive_timestamp reply);
          local = fixed_delta_ns t4 t1;
          st = st\<lparr>last_offset_ns := (a + b) sdiv 2, last_delay_ns := local - remote\<rparr>
      in if last_delay_ns st < 0 \<or> 30000000000 < last_delay_ns st then sync_failed NETWORK_NTP_TIMESTAMP st
         else let st = st\<lparr>realtime_correction_ns := realtime_correction_ns st + last_offset_ns st,
                synchronized := True, last_error := 0, last_address := address reply, last_stratum := stratum reply,
                last_sync_epoch := of_int ((t4ns + last_offset_ns st) sdiv NS_SECOND)\<rparr>;
              (m, st) = timed_monotonic_ns env st
           in (1, st\<lparr>next_attempt_ns := m + ucast (sync_interval st) * 1000000000, updates := updates st + 1\<rparr>))"

definition timed_sync :: "'w clock_env \<Rightarrow> 'w timed \<Rightarrow> int \<times> 'w timed" where
  "timed_sync env st =
     (let st = load_config env st in
      if \<not> running st \<or> \<not> network_ready env (t_hw st) then sync_failed NETWORK_NTP_DOWN st
      else let (t1ns, st) = timed_get_realtime_ns env st in
        case t1ns of None \<Rightarrow> (NETWORK_NTP_TIMESTAMP, st)
        | Some t1ns \<Rightarrow>
          let t1 = ntp_from_ns t1ns;
              (result, reply, st) = query_loop env (unat (retries st)) t1 NETWORK_NTP_TIMEOUT st
          in case reply of
               None \<Rightarrow>
                 let (result, st) = sync_failed result st; (m, st) = timed_monotonic_ns env st
                 in (result, st\<lparr>next_attempt_ns := m + 30000000000\<rparr>)
             | Some reply \<Rightarrow>
                 let (t4ns, st) = timed_get_realtime_ns env st in
                 case t4ns of None \<Rightarrow> sync_failed NETWORK_NTP_TIMESTAMP st
                 | Some t4ns \<Rightarrow> sync_reply env reply t1 t4ns st)"

definition same_time :: "rtc_time \<Rightarrow> rtc_time \<Rightarrow> bool" where
  "same_time a b \<longleftrightarrow> year a = year b \<and> month a = month b \<and> day a = day b \<and> hour a = hour b \<and>
     minute a = minute b \<and> second a = second b"

text \<open>The wall clock in GMT+8; \<open>from_epoch\<close> is total, see \<open>from_epoch_total\<close>.\<close>

definition tick_clock :: "rtc_time \<Rightarrow> 'w timed \<Rightarrow> 'w timed" where
  "tick_clock sample st =
     (if \<not> valid st \<or> \<not> same_time (clock st) sample
      then (if valid st then st\<lparr>uptime := uptime st + 1\<rparr> else st)\<lparr>clock := sample, valid := True, updates := updates st + 1\<rparr>
      else st)"

definition timed_poll :: "'w clock_env \<Rightarrow> 'w timed \<Rightarrow> 'w timed" where
  "timed_poll env st =
     (if \<not> running st then st
      else let st = load_config env st;
               (utc, st) = timed_get_realtime_ns env st;
               st = (case utc of None \<Rightarrow> st
                 | Some utc \<Rightarrow>
                     if 0 \<le> utc then tick_clock (the (from_epoch (of_int (utc sdiv NS_SECOND) + 8 * 3600))) st else st)
        in if enabled st \<and> network_ready env (t_hw st) \<and> next_attempt_ns st \<noteq> 0
           then let (m, st) = timed_monotonic_ns env st
             in if next_attempt_ns st \<le> m then snd (timed_sync env st) else st
           else st)"

definition timed_now :: "'w clock_env \<Rightarrow> 'w timed \<Rightarrow> rtc_time option \<times> 'w timed" where
  "timed_now env st =
     (if \<not> running st then (None, st)
      else let st = timed_poll env st in (if valid st then Some (clock st) else None, st))"

definition timed_set_server :: "'w clock_env \<Rightarrow> string \<Rightarrow> 'w timed \<Rightarrow> bool \<times> 'w timed" where
  "timed_set_server env h st =
     (let st = load_config env st in
      if \<not> hostname_valid h then (False, st)
      else save_config env (st\<lparr>server := set_text h 96, synchronized := False\<rparr>))"

definition timed_set_enabled :: "'w clock_env \<Rightarrow> int \<Rightarrow> 'w timed \<Rightarrow> bool \<times> 'w timed" where
  "timed_set_enabled env value st =
     (let st = load_config env st; st = st\<lparr>enabled := value \<noteq> 0\<rparr>;
          st = (if enabled st then let (m, st) = timed_monotonic_ns env st in st\<lparr>next_attempt_ns := m + 1000000000\<rparr> else st)
      in save_config env st)"

definition timed_enabled :: "'w clock_env \<Rightarrow> 'w timed \<Rightarrow> bool \<times> 'w timed" where
  "timed_enabled env st = (let st = load_config env st in (enabled st, st))"

definition timed_server :: "'w clock_env \<Rightarrow> 'w timed \<Rightarrow> string \<times> 'w timed" where
  "timed_server env st = (let st = load_config env st in (server st, st))"

definition timed_timezone :: string where
  "timed_timezone = ''GMT+8''"

lemma to_epoch_in_range: "in_range t \<Longrightarrow> to_epoch t \<noteq> None"
proof -
  assume "in_range t"
  then have "unat (month t) \<le> 12" by (simp add: in_range_def word_le_nat_alt)
  then have "unat (month t) - 1 \<le> 12" by arith
  then show ?thesis by (simp add: to_epoch_def month_sum_table)
qed

section \<open>Time differences\<close>

lemma sdiv_pos: "0 < m \<Longrightarrow> n sdiv m = (if 0 \<le> n then n div m else - (- n div m))" for m n :: int
  by (auto simp: signed_divide_int_def sgn_if)

lemma smod_pos: "0 < m \<Longrightarrow> n smod m = (if 0 \<le> n then n mod m else - (- n mod m))" for m n :: int
  by (cases "n = 0") (auto simp: signed_modulo_int_def sdiv_pos minus_div_mult_eq_mod [symmetric] sgn_if algebra_simps)

lemma sdiv_neg: "- n sdiv m = - (n sdiv m)" "- n smod m = - (n smod m)" for m n :: int
  by (simp_all add: signed_divide_int_def signed_modulo_int_def)

lemma int_div_less:
  fixes k m n :: int
  assumes "0 < m" and "n < k * m"
  shows "n div m < k"
proof (rule ccontr)
  assume "\<not> n div m < k"
  then have "k * m \<le> n div m * m" using assms(1) by (simp add: mult_right_mono)
  then show False using assms div_mult_mod_eq [of n m] pos_mod_sign [OF assms(1), of n] by linarith
qed

text \<open>Nanoseconds as a multiple of \<open>2 ^ -32\<close> seconds.\<close>

definition fixed :: "int \<Rightarrow> int" where
  "fixed ns = ns * 4294967296 div NS_SECOND"

lemma fixed_split:
  "fixed ns = ns div NS_SECOND * 4294967296 + ns mod NS_SECOND * 4294967296 div NS_SECOND"
proof -
  have "ns * 4294967296 = ns mod NS_SECOND * 4294967296 + NS_SECOND * (ns div NS_SECOND * 4294967296)"
    by (subst div_mult_mod_eq [of ns NS_SECOND, symmetric]) (simp only: algebra_simps)
  then show ?thesis unfolding fixed_def by (simp only: div_mult_self2 numeral_neq_zero not_False_eq_True)
qed

lemma fraction_word:
  assumes "0 \<le> f" and "f < NS_SECOND"
  shows "push_bit 32 (of_int f :: u64) div 1000000000 = of_int (f * 4294967296 div NS_SECOND)"
proof -
  have "uint (push_bit 32 (of_int f :: u64)) = f * 4294967296"
    using assms by (simp add: push_bit_eq_mult uint_word_ariths uint_word_of_int)
  then have "uint (push_bit 32 (of_int f :: u64) div 1000000000) = f * 4294967296 div NS_SECOND"
    by (simp add: uint_div)
  then show ?thesis by (metis word_of_int_uint)
qed

lemma or_fraction:
  assumes "0 \<le> g" and "g < 4294967296"
  shows "push_bit 32 s OR (of_int g :: u64) = s * 4294967296 + of_int g"
proof -
  have "take_bit 32 g = g" using assms by (simp add: take_bit_int_eq_self)
  then have t: "take_bit 32 (of_int g :: u64) = of_int g" by (metis take_bit_of_int)
  have "n < 32" if "bit (of_int g :: u64) n" for n using that bit_take_bit_iff [of 32 "of_int g :: u64" n] unfolding t by simp
  then have "push_bit 32 s AND (of_int g :: u64) = 0" by (intro bit_eqI) (fastforce simp: bit_simps)
  then have "push_bit 32 s + (of_int g :: u64) = push_bit 32 s OR of_int g" by (rule disjunctive_add_eq_or)
  then show ?thesis by (simp add: push_bit_eq_mult)
qed

lemma ntp_from_ns_fixed: "0 \<le> ns \<Longrightarrow> ntp_from_ns ns = of_int (fixed ns) + NTP_EPOCH * 4294967296"
proof -
  assume ns: "0 \<le> ns"
  let ?f = "ns mod NS_SECOND"
  have f: "0 \<le> ?f" "?f < NS_SECOND" by simp_all
  have g: "0 \<le> ?f * 4294967296 div NS_SECOND" by (simp add: pos_imp_zdiv_nonneg_iff)
  have h: "?f * 4294967296 div NS_SECOND < 4294967296" using f by (intro int_div_less) simp_all
  have "ns sdiv NS_SECOND = ns div NS_SECOND" "ns smod NS_SECOND = ?f" using ns by (simp_all add: sdiv_pos smod_pos)
  then show ?thesis unfolding ntp_from_ns_def Let_def fixed_split
    by (simp only: fraction_word [OF f] or_fraction [OF g h]) (simp only: of_int_add of_int_mult of_int_numeral algebra_simps)
qed

lemma fixed_bounds: "fixed x * NS_SECOND \<le> x * 4294967296" "x * 4294967296 < fixed x * NS_SECOND + NS_SECOND"
  using div_mult_mod_eq [of "x * 4294967296" NS_SECOND] pos_mod_sign [of NS_SECOND "x * 4294967296"]
    pos_mod_bound [of NS_SECOND "x * 4294967296"] unfolding fixed_def by linarith+

lemma sint_of_int: "- (2 ^ 63) \<le> d \<Longrightarrow> d < 2 ^ 63 \<Longrightarrow> sint (of_int d :: u64) = d"
  by (simp add: sint_sbintrunc' signed_take_bit_int_eq_self)

lemma trunc_scaled:
  "d sdiv 4294967296 * NS_SECOND + (d smod 4294967296 * NS_SECOND) sdiv 4294967296 = d * NS_SECOND sdiv 4294967296"
proof -
  have nonneg: "d div 4294967296 * NS_SECOND + (d mod 4294967296 * NS_SECOND) div 4294967296 = d * NS_SECOND div 4294967296" for d :: int
  proof -
    have "d * NS_SECOND = d mod 4294967296 * NS_SECOND + 4294967296 * (d div 4294967296 * NS_SECOND)"
      by (subst div_mult_mod_eq [of d 4294967296, symmetric]) (simp only: algebra_simps)
    then show ?thesis by (simp only: div_mult_self2 numeral_neq_zero not_False_eq_True)
  qed
  have "d sdiv 4294967296 * NS_SECOND + (d smod 4294967296 * NS_SECOND) sdiv 4294967296 = d * NS_SECOND sdiv 4294967296"
    if "0 \<le> d" for d :: int
    using nonneg [of d] that
    by (simp only: sdiv_pos smod_pos zero_less_numeral mult_nonneg_nonneg zero_le_numeral pos_mod_sign if_True)
  from this [of d] this [of "- d"] show ?thesis
    by (cases "0 \<le> d") (simp_all only: sdiv_neg mult_minus_left, linarith)
qed

lemma trunc_near:
  assumes "\<bar>x - k * 4294967296\<bar> < 4294967296"
  shows "\<bar>x sdiv 4294967296 - k\<bar> \<le> (1 :: int)"
proof -
  have "\<bar>x div 4294967296 - k\<bar> \<le> 1 \<and> \<bar>- (- x div 4294967296) - k\<bar> \<le> 1" using assms by arith
  then show ?thesis by (simp add: sdiv_pos)
qed

lemma fixed_delta_error:
  assumes "0 \<le> a" and "0 \<le> b" and "\<bar>a - b\<bar> < 2000000000 * NS_SECOND"
  shows "\<bar>fixed_delta_ns (ntp_from_ns a) (ntp_from_ns b) - (a - b)\<bar> \<le> 1"
proof -
  let ?d = "fixed a - fixed b"
  have d: "\<bar>?d * NS_SECOND - (a - b) * 4294967296\<bar> < NS_SECOND"
    using fixed_bounds [of a] fixed_bounds [of b] unfolding left_diff_distrib by linarith
  then have "\<bar>?d\<bar> < 2 ^ 63" using assms(3) by (simp only: power_numeral) simp
  then have s: "sint (ntp_from_ns a - ntp_from_ns b) = ?d"
    using assms(1,2) sint_of_int [of ?d] by (simp add: ntp_from_ns_fixed abs_less_iff)
  have "\<bar>?d * NS_SECOND sdiv 4294967296 - (a - b)\<bar> \<le> 1" using d by (intro trunc_near) linarith
  then show ?thesis unfolding fixed_delta_ns_def Let_def s trunc_scaled .
qed

section \<open>What the operations change\<close>

text \<open>The part of the state that makes the clock: reading the configuration and asking servers leave it alone.\<close>

definition clock_part :: "'w timed \<Rightarrow> rtc_time \<times> bool \<times> bool \<times> bool \<times> int \<times> u64 \<times> u64 \<times> u64" where
  "clock_part st = (clock st, valid st, running st, synchronized st, realtime_correction_ns st, base_tsc st,
     base_utc_ns st, tsc_hz st)"

named_theorems clock_part_simps \<open>operations that leave the clock alone\<close>

lemma clock_part_apply [clock_part_simps]: "clock_part (apply_setting k v st) = clock_part st"
  by (simp add: apply_setting_def clock_part_def)

lemma clock_part_parse [clock_part_simps]: "clock_part (parse_config s st) = clock_part st"
proof (induction s st rule: parse_config.induct)
  case (1 s st)
  then show ?case
    by (subst parse_config.simps) (simp add: clock_part_simps Let_def split: list.split)
qed

lemma clock_part_hw [clock_part_simps]:
  "clock_part (st\<lparr>t_hw := w\<rparr>) = clock_part st" "clock_part (st\<lparr>configured := c\<rparr>) = clock_part st"
  "clock_part (st\<lparr>last_error := e, failures := n\<rparr>) = clock_part st"
  "clock_part (st\<lparr>next_attempt_ns := v\<rparr>) = clock_part st"
  by (simp_all add: clock_part_def)

lemma clock_part_load [clock_part_simps]: "clock_part (load_config env st) = clock_part st"
  by (simp add: load_config_def clock_part_simps Let_def case_prod_beta split: option.split)

lemma clock_part_tsc [clock_part_simps]:
  "clock_part (snd (read_tsc env st)) = clock_part st"
  "clock_part (snd (timed_monotonic_ns env st)) = clock_part st"
  "clock_part (snd (timed_get_realtime_ns env st)) = clock_part st"
  by (simp_all add: read_tsc_def timed_monotonic_ns_def timed_get_realtime_ns_def clock_part_simps case_prod_beta Let_def)

lemma clock_part_query [clock_part_simps]: "clock_part (snd (snd (query_loop env n t1 r st))) = clock_part st"
  by (induction n arbitrary: r st) (simp_all add: clock_part_simps case_prod_beta Let_def)

lemma query_loop_reply: "query_loop env n t1 r st = (r', None, st') \<Longrightarrow> r \<noteq> NETWORK_NTP_OK \<Longrightarrow> r' \<noteq> NETWORK_NTP_OK"
  by (induction n arbitrary: r st) (auto simp: case_prod_beta Let_def split: if_splits)

lemma clock_part_fields:
  assumes "clock_part a = clock_part b"
  shows "clock a = clock b" "valid a = valid b" "running a = running b" "realtime_correction_ns a = realtime_correction_ns b"
    "synchronized a = synchronized b"
  using assms by (simp_all add: clock_part_def)

lemma clock_part_failed [clock_part_simps]: "clock_part (snd (sync_failed e st)) = clock_part st"
  by (simp add: sync_failed_def clock_part_simps)

text \<open>A date and whether it is valid: these two no synchronisation changes.\<close>

lemma sync_reply_clock:
  "clock (snd (sync_reply env reply t1 t4 st)) = clock st \<and> valid (snd (sync_reply env reply t1 t4 st)) = valid st"
  unfolding sync_reply_def Let_def sync_failed_def
  by (simp add: case_prod_beta clock_part_fields [OF clock_part_tsc(2)])

lemma sync_reply_fails:
  "fst (sync_reply env reply t1 t4 st) \<noteq> 1 \<Longrightarrow> clock_part (snd (sync_reply env reply t1 t4 st)) = clock_part st"
  unfolding sync_reply_def Let_def sync_failed_def by (auto simp: case_prod_beta clock_part_def split: if_splits)

lemma timed_sync_clock: "clock (snd (timed_sync env st)) = clock st \<and> valid (snd (timed_sync env st)) = valid st"
  unfolding timed_sync_def Let_def case_prod_beta
  by (simp add: sync_reply_clock case_prod_beta clock_part_fields [OF clock_part_tsc(3)] clock_part_fields [OF clock_part_load]
      clock_part_fields [OF clock_part_failed] clock_part_fields [OF clock_part_tsc(2)] clock_part_fields [OF clock_part_query]
      split: option.split)

lemma timed_sync_fails: "fst (timed_sync env st) \<noteq> 1 \<Longrightarrow> clock_part (snd (timed_sync env st)) = clock_part st"
  unfolding timed_sync_def Let_def case_prod_beta
  by (auto simp: sync_reply_fails clock_part_simps split: option.splits if_splits)

text \<open>The configuration file is read back as it was written.\<close>

lemma host_char_plain: "host_char c \<Longrightarrow> c \<noteq> CR \<and> c \<noteq> LF \<and> c \<noteq> NUL"
  by (auto simp: host_char_def between_def)

lemma host_loop_chars: "n < 96 \<Longrightarrow> host_loop n l s \<Longrightarrow> (\<forall>c \<in> set s. host_char c) \<and> n + length s < 96"
  by (induction n l s rule: host_loop.induct) (auto simp: Let_def split: if_splits)

lemma config_roundtrip:
  assumes "hostname_valid (server st)"
  shows "parse_config (config_text st) st0 = st0\<lparr>server := server st, enabled := enabled st\<rparr>"
proof -
  let ?h = "server st" and ?e = "if enabled st then ''true'' else ''false''"
  from assms have h: "\<forall>c \<in> set ?h. host_char c" "length ?h < 96"
    using host_loop_chars [of 0 0 ?h] by (simp_all add: hostname_valid_def)
  then have c: "\<forall>c \<in> set ?h. c \<noteq> CR \<and> c \<noteq> LF" and n: "NUL \<notin> set ?h" using host_char_plain by blast+
  have "cstr ?h = ?h" using n unfolding cstr_def by (simp add: takeWhile_eq_all_conv) blast
  then have s: "apply_setting ''server'' ?h st0 = st0\<lparr>server := ?h\<rparr>"
    using h assms by (simp add: apply_setting_def set_text_def)
  have t: "takeWhile (\<lambda>c. c \<noteq> CR \<and> c \<noteq> LF) (?h @ LF # r) = ?h"
    "dropWhile (\<lambda>c. c \<noteq> CR \<and> c \<noteq> LF) (?h @ LF # r) = LF # r" for r
    using c by (induction ?h) (auto simp: takeWhile_append dropWhile_append)
  have "parse_config (config_text st) st0 = parse_config (LF # ''enabled='' @ ?e @ [LF]) (st0\<lparr>server := ?h\<rparr>)"
    by (subst parse_config.simps) (simp add: config_text_def blank_def t s)
  also have "\<dots> = parse_config [LF] (st0\<lparr>server := ?h, enabled := enabled st\<rparr>)"
    by (subst parse_config.simps) (simp add: blank_def apply_setting_def)
  also have "\<dots> = st0\<lparr>server := ?h, enabled := enabled st\<rparr>"
    by (subst parse_config.simps) (simp add: blank_def)
  finally show ?thesis .
qed

lemma retries_realtime: "retries (snd (timed_get_realtime_ns env st)) = retries st"
  by (simp add: timed_get_realtime_ns_def timed_monotonic_ns_def read_tsc_def case_prod_beta Let_def)

lemma half_near: "\<bar>2 * (n sdiv 2) - n\<bar> \<le> (1 :: int)"
  by (simp add: sdiv_pos) arith

lemma offset_error:
  fixes a b h d1 d2 x :: int
  assumes "\<bar>a - (d1 + x)\<bar> \<le> 1" and "\<bar>b - (x - d2)\<bar> \<le> 1" and "\<bar>2 * h - (a + b)\<bar> \<le> 1"
  shows "2 * \<bar>h - x\<bar> \<le> \<bar>d1 - d2\<bar> + 3"
proof -
  have "2 * h - 2 * x \<le> d1 - d2 + 3" "d1 - d2 - 3 \<le> 2 * h - 2 * x" using assms by linarith+
  then show ?thesis by (cases "h \<le> x"; cases "d1 \<le> d2") simp_all
qed

lemma sync_reply_moves:
  assumes "0 \<le> fixed_delta_ns (ntp_from_ns t4) t1 - fixed_delta_ns (transmit_timestamp reply) (receive_timestamp reply)"
    and "fixed_delta_ns (ntp_from_ns t4) t1 - fixed_delta_ns (transmit_timestamp reply) (receive_timestamp reply) \<le> 30000000000"
  shows "fst (sync_reply env reply t1 t4 st) = 1 \<and> synchronized (snd (sync_reply env reply t1 t4 st)) \<and>
    realtime_correction_ns (snd (sync_reply env reply t1 t4 st)) = realtime_correction_ns st +
      (fixed_delta_ns (receive_timestamp reply) t1 + fixed_delta_ns (transmit_timestamp reply) (ntp_from_ns t4)) sdiv 2"
  using assms unfolding sync_reply_def Let_def by (simp add: case_prod_beta clock_part_fields [OF clock_part_tsc(2)])

section \<open>A machine with a counter and a time server\<close>

text \<open>A counter of one tick per nanosecond; the server answers after a millisecond and is five seconds ahead.\<close>

definition demo_reply :: "u64 \<Rightarrow> u64 \<Rightarrow> ntp_result" where
  "demo_reply a b = \<lparr>address = 0, stratum = 2, receive_timestamp = a, transmit_timestamp = b\<rparr>"

definition demo_env :: "u64 clock_env" where
  "demo_env = \<lparr>rdtsc = (\<lambda>w. (w, w)), cpuid_eax = (\<lambda>_. 0), network_ready = (\<lambda>_. True),
     network_ntp_query = (\<lambda>_ _ _ w. (1, demo_reply (ntp_from_ns (sint w + 5000500000)) (ntp_from_ns (sint w + 5000500000)), w + 1000000)),
     boot_file = (\<lambda>_. None), varfs_mounted = (\<lambda>_. False), varfs_load = (\<lambda>_ _ w. (None, w)),
     varfs_store = (\<lambda>_ _ w. (False, w)), varfs_sync = (\<lambda>w. (False, w))\<rparr>"

definition demo_clock :: "u64 timed" where
  "demo_clock = \<lparr>clock = demo_date, running = True, valid = True, configured = True, enabled = True,
     synchronized = False, last_error = 0, realtime_correction_ns = 0, last_offset_ns = 0, last_delay_ns = 0,
     base_tsc = 0, base_utc_ns = 0, tsc_hz = 1000000000, last_sync_epoch = 0, next_attempt_ns = 0, last_address = 0,
     last_stratum = 0, timeout_ms = 3000, retries = 3, sync_interval = 3600, updates = 1, uptime = 0, failures = 0,
     server = ''time.cloudflare.com'', t_hw = 7000000000\<rparr>"

section \<open>Properties\<close>

text \<open>C28: what \<open>timed_now\<close> hands out is a valid date: while the service runs and the corrected UTC time
  is not negative and below the year 65535, it returns the date and time of day in GMT+8, of the second
  the clock is in - whatever the configuration says and whether or not a synchronisation is due.\<close>

theorem timed_now_date:
  assumes "running st" and "timed_get_realtime_ns env (load_config env st) = (Some utc, st1)" and "0 \<le> utc"
    and "of_int (utc div NS_SECOND) + 28800 < EPOCH_LIMIT"
  shows "\<exists>t. fst (timed_now env st) = Some t \<and> date_ok t \<and> to_epoch t = Some (of_int (utc div NS_SECOND) + 28800)"
proof -
  let ?s = "of_int (utc div NS_SECOND) + 28800 :: u64"
  from to_epoch_from_epoch [OF assms(4)] obtain t where t: "from_epoch ?s = Some t" "date_ok t" "to_epoch t = Some ?s" by blast
  have u: "utc sdiv NS_SECOND = utc div NS_SECOND" using assms(3) by (simp add: sdiv_pos)
  let ?st = "tick_clock t st1"
  have c: "clock ?st = t" "valid ?st" by (auto simp: tick_clock_def same_time_def)
  have "clock (timed_poll env st) = t \<and> valid (timed_poll env st)"
    using assms(1,3) c unfolding timed_poll_def
    by (simp add: assms(2) Let_def case_prod_beta u t(1) timed_sync_clock clock_part_fields [OF clock_part_tsc(2)]
        del: of_int_add)
  then show ?thesis using assms(1) t by (simp add: timed_now_def Let_def)
qed



theorem timed_now_date_witness:
  "\<exists>t. fst (timed_now demo_env demo_clock) = Some t \<and> date_ok t \<and> to_epoch t = Some 28807"
proof -
  have "timed_get_realtime_ns demo_env (load_config demo_env demo_clock) = (Some 7000000000, demo_clock)"
    by (simp add: timed_get_realtime_ns_def timed_monotonic_ns_def read_tsc_def elapsed_ns_def demo_env_def demo_clock_def
        Let_def load_config_def)
  then show ?thesis using timed_now_date [of demo_clock demo_env 7000000000 demo_clock]
    by (simp add: demo_clock_def EPOCH_LIMIT_def)
qed

end
