(* ===== verification/Log.thy ===== *)
theory Log
  imports Timed Display
begin

text \<open>
  The kernel message log, \<open>src/kernel/drivers/display/log.c\<close>: a ring of 64 entries with messages
  cut to 55 characters. \<open>log_view\<close> is what a reader sees through \<open>log_count\<close> and \<open>log_read\<close>;
  the main result is that it is the list of the last 64 messages that passed the level filter,
  oldest first.
\<close>

section \<open>The ring\<close>

definition LOG_MAX_ENTRIES :: nat where "LOG_MAX_ENTRIES = 64"
definition LOG_MSG_SIZE :: nat where "LOG_MSG_SIZE = 56"
definition LOG_DEBUG :: int where "LOG_DEBUG = 0"
definition LOG_INFO :: int where "LOG_INFO = 1"
definition LOG_WARN :: int where "LOG_WARN = 2"
definition LOG_ERROR :: int where "LOG_ERROR = 3"

record log_entry =
  timestamp :: u64
  level :: int
  subsystem :: string
  msg :: "char list"

record logd =
  buffer :: "log_entry list"
  head :: nat
  count :: nat
  current_level :: int
  log_initialized :: bool

definition inc :: "nat \<Rightarrow> nat" where
  "inc v = (v + 1) mod LOG_MAX_ENTRIES"

text \<open>The message as it is stored: at most 55 characters and a NUL over the old contents.\<close>

definition store_msg :: "string \<Rightarrow> char list \<Rightarrow> char list" where
  "store_msg m old = put old 0 (take (LOG_MSG_SIZE - 1) (cstr m) @ [NUL])"

definition log_submit ::
  "'w clock_env \<Rightarrow> int \<Rightarrow> string \<Rightarrow> string \<Rightarrow> logd \<times> 'w timed \<Rightarrow> logd \<times> 'w timed" where
  "log_submit env lv sub m = (\<lambda>(lg, tm).
     if lv < current_level lg then (lg, tm)
     else let (t, tm) = timed_monotonic_ns env tm;
              e = \<lparr>timestamp = t, level = lv, subsystem = sub, msg = store_msg m (msg (buffer lg ! head lg))\<rparr>;
              lg = lg\<lparr>buffer := (buffer lg)[head lg := e], head := inc (head lg)\<rparr>
       in (if count lg < LOG_MAX_ENTRIES then lg\<lparr>count := count lg + 1\<rparr> else lg, tm))"

definition log_init :: "'w clock_env \<Rightarrow> logd \<times> 'w timed \<Rightarrow> logd \<times> 'w timed" where
  "log_init env = (\<lambda>(lg, tm).
     log_submit env LOG_INFO ''logd'' ''logging service initialized''
       (lg\<lparr>head := 0, count := 0, current_level := LOG_DEBUG, log_initialized := True\<rparr>, tm))"

text \<open>The entry a reader gets, or \<open>None\<close> for the result 0.\<close>

definition log_read :: "nat \<Rightarrow> logd \<Rightarrow> (u64 \<times> int \<times> string \<times> string) option" where
  "log_read index lg =
     (if count lg \<le> index then None
      else let pos = (if count lg < LOG_MAX_ENTRIES then index else (head lg + index) mod LOG_MAX_ENTRIES);
               e = buffer lg ! pos
        in Some (timestamp e, level e, subsystem e, cstr (msg e)))"

definition log_count :: "logd \<Rightarrow> nat" where
  "log_count lg = count lg"

definition log_level :: "logd \<Rightarrow> int" where
  "log_level lg = current_level lg"

definition log_set_level :: "int \<Rightarrow> logd \<Rightarrow> logd" where
  "log_set_level lv lg = lg\<lparr>current_level := lv\<rparr>"

definition log_poll :: "logd \<Rightarrow> logd" where
  "log_poll lg = lg"

section \<open>Printing the log\<close>

definition level_names :: "string list" where
  "level_names = [''DEBUG'', ''INFO '', ''WARN '', ''ERROR'']"

definition dump_entry :: "'w ports \<Rightarrow> u64 \<times> int \<times> string \<times> string \<Rightarrow> 'w display \<Rightarrow> 'w display" where
  "dump_entry io = (\<lambda>(ts, lv, sub, m) st.
     let sec = ts div 1000000000; ms = ts mod 1000000000 div 1000000;
         st = display_color io 0x07 st;
         st = display_number io sec st;
         st = display_putc io (CHR ''.'') st;
         st = (if ms < 100 then display_putc io (CHR ''0'') st else st);
         st = (if ms < 10 then display_putc io (CHR ''0'') st else st);
         st = display_number io ms st;
         st = display_putc io (CHR '' '') st;
         st = display_putc io (CHR ''['') st;
         l = (if 0 \<le> lv \<and> lv \<le> 3 then lv else 1);
         st = display_color io (if 2 \<le> l then 0x0C else if l = 1 then 0x07 else 0x08) st;
         st = display_puts io (level_names ! nat l) st;
         st = display_color io 0x07 st;
         st = display_puts io ''] '' st;
         st = display_puts io sub st;
         st = display_puts io '': '' st;
         st = display_puts io m st
     in display_putc io LF st)"

definition log_dump :: "'w ports \<Rightarrow> logd \<Rightarrow> 'w display \<Rightarrow> 'w display" where
  "log_dump io lg =
     fold (\<lambda>i st. case log_read i lg of None \<Rightarrow> st | Some e \<Rightarrow> dump_entry io e st) [0..<count lg]"

section \<open>What a reader sees\<close>

definition log_view :: "logd \<Rightarrow> (u64 \<times> int \<times> string \<times> string) list" where
  "log_view lg = map (\<lambda>i. the (log_read i lg)) [0..<log_count lg]"

definition log_ok :: "logd \<Rightarrow> bool" where
  "log_ok lg \<longleftrightarrow> length (buffer lg) = LOG_MAX_ENTRIES \<and> (\<forall>e \<in> set (buffer lg). length (msg e) = LOG_MSG_SIZE) \<and>
     count lg \<le> LOG_MAX_ENTRIES \<and> head lg < LOG_MAX_ENTRIES \<and> (count lg < LOG_MAX_ENTRIES \<longrightarrow> head lg = count lg)"

definition lastn :: "nat \<Rightarrow> 'a list \<Rightarrow> 'a list" where
  "lastn n xs = drop (length xs - n) xs"

lemma lastn_snoc_lastn: "lastn n (lastn n xs @ ys) = lastn n (xs @ ys)"
  by (cases "n \<le> length xs") (simp_all add: lastn_def add.commute)

lemma cstr_store_msg: "length old = LOG_MSG_SIZE \<Longrightarrow> cstr (store_msg m old) = take 55 (cstr m) \<and> length (store_msg m old) = LOG_MSG_SIZE"
proof -
  assume old: "length old = LOG_MSG_SIZE"
  have "NUL \<notin> set (take 55 (cstr m))" using cstr_no_NUL [of m] by (meson in_set_takeD)
  then have "cstr (take 55 (cstr m) @ NUL # t) = take 55 (cstr m)" for t by (rule cstr_append_NUL)
  then show ?thesis using old by (simp add: store_msg_def LOG_MSG_SIZE_def put_eq_append)
qed

text \<open>The view as the ring positions from the oldest entry on.\<close>

definition seen :: "log_entry \<Rightarrow> u64 \<times> int \<times> string \<times> string" where
  "seen e = (timestamp e, level e, subsystem e, cstr (msg e))"

definition slot :: "logd \<Rightarrow> nat \<Rightarrow> nat" where
  "slot lg i = (if count lg < LOG_MAX_ENTRIES then i else (head lg + i) mod LOG_MAX_ENTRIES)"

lemma log_view_slots: "log_view lg = map (\<lambda>i. seen (buffer lg ! slot lg i)) [0..<count lg]"
  by (simp add: log_view_def log_read_def log_count_def seen_def slot_def Let_def)

lemma ring_neq: "h < (64 :: nat) \<Longrightarrow> i < 63 \<Longrightarrow> (Suc (h + i)) mod 64 \<noteq> h"
  by (cases "Suc (h + i) < 64") (auto simp: mod_if)

lemma log_insert:
  assumes "log_ok lg" and "length (msg e) = LOG_MSG_SIZE"
  defines "lg1 \<equiv> lg\<lparr>buffer := (buffer lg)[head lg := e], head := inc (head lg)\<rparr>"
  defines "lg2 \<equiv> if count lg1 < LOG_MAX_ENTRIES then lg1\<lparr>count := count lg1 + 1\<rparr> else lg1"
  shows "log_ok lg2 \<and> log_view lg2 = lastn LOG_MAX_ENTRIES (log_view lg @ [seen e])"
proof (cases "count lg < 64")
  case True
  with assms(1) have h: "head lg = count lg" "length (buffer lg) = 64" by (simp_all add: log_ok_def LOG_MAX_ENTRIES_def)
  have "slot lg2 i = i" if "i \<le> count lg" for i
    using True that h by (cases "count lg = 63") (auto simp: slot_def lg2_def lg1_def LOG_MAX_ENTRIES_def inc_def)
  then have "log_view lg2 = log_view lg @ [seen e]" unfolding log_view_slots
    using True h by (auto simp: lg2_def lg1_def LOG_MAX_ENTRIES_def slot_def)
  moreover have "log_ok lg2" using True assms(1,2) h set_update_subset_insert [of "buffer lg" "head lg" e]
    by (auto simp: log_ok_def lg2_def lg1_def LOG_MAX_ENTRIES_def inc_def)
  ultimately show ?thesis using True by (simp add: lastn_def log_view_slots LOG_MAX_ENTRIES_def)
next
  case False
  with assms(1) have h: "count lg = 64" "head lg < 64" "length (buffer lg) = 64" by (simp_all add: log_ok_def LOG_MAX_ENTRIES_def)
  have v: "log_view lg2 = map (\<lambda>i. seen ((buffer lg)[head lg := e] ! ((Suc (head lg + i)) mod 64))) [0..<64]"
    using h by (simp add: log_view_slots lg2_def lg1_def LOG_MAX_ENTRIES_def slot_def inc_def mod_simps)
  have "log_view lg2 = drop 1 (log_view lg) @ [seen e]"
  proof (rule nth_equalityI)
    fix i
    assume "i < length (log_view lg2)"
    then have "i < 64" by (simp add: v)
    then show "log_view lg2 ! i = (drop 1 (log_view lg) @ [seen e]) ! i"
      using h ring_neq [of "head lg" i] unfolding v
      by (cases "i = 63") (auto simp: nth_append log_view_slots slot_def LOG_MAX_ENTRIES_def)
  qed (use h in \<open>simp add: v log_view_slots [of lg]\<close>)
  moreover have "log_ok lg2" using False assms(1,2) h set_update_subset_insert [of "buffer lg" "head lg" e]
    by (auto simp: log_ok_def lg2_def lg1_def LOG_MAX_ENTRIES_def inc_def)
  ultimately show ?thesis using h by (simp add: lastn_def log_view_slots LOG_MAX_ENTRIES_def)
qed

section \<open>Sequences of operations\<close>

datatype log_op = Submit int string string | Set_level int

fun log_step :: "'w clock_env \<Rightarrow> log_op \<Rightarrow> logd \<times> 'w timed \<Rightarrow> logd \<times> 'w timed" where
  "log_step env (Submit lv sub m) s = log_submit env lv sub m s"
| "log_step env (Set_level lv) (lg, tm) = (log_set_level lv lg, tm)"

text \<open>The specification: the messages at or above the level in force, with the time they came.\<close>

fun accepted :: "'w clock_env \<Rightarrow> log_op list \<Rightarrow> int \<Rightarrow> 'w timed \<Rightarrow> (u64 \<times> int \<times> string \<times> string) list" where
  "accepted env [] lim tm = []"
| "accepted env (Set_level lv # ops) lim tm = accepted env ops lv tm"
| "accepted env (Submit lv sub m # ops) lim tm =
     (if lv < lim then accepted env ops lim tm
      else let (t, tm) = timed_monotonic_ns env tm in (t, lv, sub, take 55 (cstr m)) # accepted env ops lim tm)"

lemma log_submit_view:
  assumes "log_ok lg" and "\<not> lv < current_level lg" and "timed_monotonic_ns env tm = (t, tm1)"
  shows "\<exists>lg1. log_submit env lv sub m (lg, tm) = (lg1, tm1) \<and> log_ok lg1 \<and> current_level lg1 = current_level lg \<and>
    log_view lg1 = lastn LOG_MAX_ENTRIES (log_view lg @ [(t, lv, sub, take 55 (cstr m))])"
proof -
  let ?e = "\<lparr>timestamp = t, level = lv, subsystem = sub, msg = store_msg m (msg (buffer lg ! head lg))\<rparr>"
  have "length (msg (buffer lg ! head lg)) = LOG_MSG_SIZE" using assms(1) by (auto simp: log_ok_def)
  from cstr_store_msg [OF this, of m] have e: "length (msg ?e) = LOG_MSG_SIZE" "seen ?e = (t, lv, sub, take 55 (cstr m))"
    by (simp_all add: seen_def)
  from log_insert [OF assms(1) e(1)] assms(2) show ?thesis
    by (simp add: log_submit_def assms(3) Let_def e(2))
qed

lemma log_steps_view:
  assumes "log_ok lg"
  shows "log_ok (fst (fold (log_step env) ops (lg, tm))) \<and>
    log_view (fst (fold (log_step env) ops (lg, tm))) =
      lastn LOG_MAX_ENTRIES (log_view lg @ accepted env ops (current_level lg) tm)"
  using assms
proof (induction ops arbitrary: lg tm)
  case Nil
  then show ?case by (simp add: lastn_def log_view_slots log_ok_def)
next
  case (Cons op ops)
  show ?case
  proof (cases op)
    case (Set_level lv)
    have "log_view (log_set_level lv lg) = log_view lg" "log_ok (log_set_level lv lg)"
      using Cons.prems by (simp_all add: log_set_level_def log_view_slots slot_def log_ok_def)
    then show ?thesis using Cons.IH [of "log_set_level lv lg" tm] Set_level by (simp add: log_set_level_def)
  next
    case (Submit lv sub m)
    obtain t tm1 where t: "timed_monotonic_ns env tm = (t, tm1)" by (metis surj_pair)
    show ?thesis
    proof (cases "lv < current_level lg")
      case True
      then show ?thesis using Cons Submit by (simp add: log_submit_def)
    next
      case False
      from log_submit_view [OF Cons.prems False t, of sub m] obtain lg1 where
        "log_submit env lv sub m (lg, tm) = (lg1, tm1)" "log_ok lg1" "current_level lg1 = current_level lg"
        "log_view lg1 = lastn LOG_MAX_ENTRIES (log_view lg @ [(t, lv, sub, take 55 (cstr m))])" by blast
      then show ?thesis using Cons.IH [of lg1 tm1] Submit False t by (simp add: lastn_snoc_lastn)
    qed
  qed
qed

section \<open>Properties\<close>

text \<open>C31: the log is the list of the last 64 messages. After \<open>log_init\<close> on any ring and any sequence of
  submissions and level changes, the entries that \<open>log_count\<close> and \<open>log_read\<close> give are exactly the
  last 64 of the greeting and the messages at or above the level in force when they came, in order,
  each with its time, level, subsystem and the first 55 characters of its text.\<close>

theorem log_last_messages:
  assumes "length (buffer lg) = LOG_MAX_ENTRIES" and "\<forall>e \<in> set (buffer lg). length (msg e) = LOG_MSG_SIZE"
  shows "log_view (fst (fold (log_step env) ops (log_init env (lg, tm)))) =
    lastn LOG_MAX_ENTRIES (accepted env (Submit LOG_INFO ''logd'' ''logging service initialized'' # ops) LOG_DEBUG tm)"
proof -
  let ?lg = "lg\<lparr>head := 0, count := 0, current_level := LOG_DEBUG, log_initialized := True\<rparr>"
  let ?ops = "Submit LOG_INFO ''logd'' ''logging service initialized'' # ops"
  have "log_ok ?lg" using assms by (simp add: log_ok_def LOG_MAX_ENTRIES_def)
  moreover have "log_view ?lg = []" by (simp add: log_view_slots)
  moreover have "fold (log_step env) ops (log_init env (lg, tm)) = fold (log_step env) ?ops (?lg, tm)"
    by (simp add: log_init_def)
  ultimately show ?thesis using log_steps_view [of ?lg env ?ops tm] by simp
qed

definition empty_log :: logd where
  "empty_log = \<lparr>buffer = replicate 64 \<lparr>timestamp = 0, level = 0, subsystem = [], msg = replicate 56 NUL\<rparr>,
     head = 0, count = 0, current_level = 0, log_initialized = False\<rparr>"

theorem log_last_messages_witness:
  "log_view (fst (fold (log_step demo_env) (Set_level 2 # Submit 1 ''net'' ''lost'' # replicate 70 (Submit 3 ''disk'' ''error''))
     (log_init demo_env (empty_log, demo_clock)))) = replicate 64 (7000000000, 3, ''disk'', ''error'')"
proof -
  have c: "timed_monotonic_ns demo_env demo_clock = (7000000000, demo_clock)"
    by (simp add: timed_monotonic_ns_def read_tsc_def elapsed_ns_def demo_env_def demo_clock_def Let_def)
  have "accepted demo_env (replicate n (Submit 3 ''disk'' ''error'')) 2 demo_clock =
      replicate n (7000000000, 3, ''disk'', ''error'')" for n
    by (induction n) (simp_all add: c)
  moreover have "\<forall>e \<in> set (buffer empty_log). length (msg e) = LOG_MSG_SIZE" "length (buffer empty_log) = LOG_MAX_ENTRIES"
    by (simp_all add: empty_log_def LOG_MSG_SIZE_def LOG_MAX_ENTRIES_def)
  ultimately show ?thesis
    by (subst log_last_messages) (simp_all add: c LOG_INFO_def LOG_DEBUG_def LOG_MAX_ENTRIES_def lastn_def)
qed

end
