(* ===== verification/Memory.thy ===== *)
theory Memory
  imports Prelude
begin

text \<open>
  The kernel heap of \<^verbatim>\<open>kernel/mm/memory.c\<close>: a first-fit allocator over a doubly linked
  list of block headers that lie in the heap array itself, and the Multiboot2 parsers that size it.

  An address is an offset from the start of the array \<open>heap\<close>. The headers are a map \<open>hdr\<close> from
  addresses to \<open>block_t\<close> records and the bytes handed out to callers a map \<open>payload\<close>; that the
  two never overlap is a theorem about the layout (\<open>live_disjoint\<close>), not an assumption. A
  list walk that follows \<open>next\<close> pointers is a \<open>partial_function (option)\<close>: \<open>None\<close> means
  that it does not return. The abstract heap is the list \<open>cells\<close> of (size, free) pairs that tile
  the array; \<open>alloc\<close> and \<open>release\<close> are the operations on it that \<open>kmalloc\<close> and \<open>kfree\<close>
  are shown to implement.
\<close>

section \<open>Data\<close>

datatype ptr = NULL | At int

definition HEAP_MAX_BYTES :: nat where "HEAP_MAX_BYTES = 2 * 1024 * 1024"
definition BLOCK_MAGIC :: u64 where "BLOCK_MAGIC = 0x4f5336344d454d31"
definition ALIGNMENT :: nat where "ALIGNMENT = 16"
definition MIN_PAYLOAD :: nat where "MIN_PAYLOAD = 16"

text \<open>\<open>sizeof (block_t)\<close>: four 8-byte fields and an \<open>int\<close>, padded to the 16-byte alignment.\<close>

definition SIZEOF_BLOCK :: nat where "SIZEOF_BLOCK = 48"

lemmas heap_consts = HEAP_MAX_BYTES_def ALIGNMENT_def MIN_PAYLOAD_def SIZEOF_BLOCK_def

record block =
  magic :: u64
  bsize :: nat
  previous :: ptr
  nxt :: ptr
  free :: bool

record mem =
  total_kib :: u64
  heap_bytes :: nat
  used :: nat
  allocations :: nat
  first :: ptr
  hdr :: "int \<Rightarrow> block"
  payload :: "int \<Rightarrow> u8"

section \<open>Sizing the heap from the Multiboot2 information\<close>

text \<open>\<open>(value + 15) & ~15\<close> clears the low four bits, which is a multiple of sixteen.\<close>

definition align_up :: "nat \<Rightarrow> nat" where
  "align_up v = (if v > 2 ^ 64 - 1 - (ALIGNMENT - 1) then 0
     else (v + ALIGNMENT - 1) div ALIGNMENT * ALIGNMENT)"

text \<open>
  The inner loop over the entries of a memory-map tag at address \<open>tag\<close>. The subtraction
  \<open>tag->size - map->entry_size\<close> is on \<open>uint32_t\<close> and wraps.
\<close>

partial_function (option) mmap_entries ::
  "memory \<Rightarrow> nat \<Rightarrow> u32 \<Rightarrow> u32 \<Rightarrow> u32 \<Rightarrow> u64 \<Rightarrow> u64 option" where
  "mmap_entries m tag tag_size entry_size position available =
     (if position \<le> tag_size - entry_size then
        mmap_entries m tag tag_size entry_size (position + entry_size)
          (if ld32 m (tag + unat position + 16) = 1 \<and>
              ld64 m (tag + unat position + 8) \<le> - 1 - available
           then available + ld64 m (tag + unat position + 8) else available)
      else Some available)"

partial_function (option) available_tags ::
  "memory \<Rightarrow> nat \<Rightarrow> u32 \<Rightarrow> u32 \<Rightarrow> u64 \<Rightarrow> u64 option" where
  "available_tags m base total_size offset available =
     (if unat offset + 8 \<le> unat total_size then
        let tag = base + unat offset; type = ld32 m tag; sz = ld32 m (tag + 4)
        in if type = 0 then Some available
           else if sz < 8 \<or> total_size - offset < sz then Some available
           else if type = 6 \<and> 16 \<le> sz then
             (if ld32 m (tag + 8) < 24 then Some available
              else Option.bind (mmap_entries m tag sz (ld32 m (tag + 8)) 16 available)
                (\<lambda>av. available_tags m base total_size (offset + pad8 sz) av))
           else available_tags m base total_size (offset + pad8 sz) available
      else Some available)"

definition multiboot_available_bytes :: "memory \<Rightarrow> nat \<Rightarrow> u64 option" where
  "multiboot_available_bytes m base =
     (if base = 0 then Some 0
      else if ld32 m base < 16 then Some 0
      else available_tags m base (ld32 m base) 8 0)"

partial_function (option) basic_tags :: "memory \<Rightarrow> nat \<Rightarrow> u32 \<Rightarrow> u32 \<Rightarrow> u64 option" where
  "basic_tags m base total_size offset =
     (if unat offset + 8 \<le> unat total_size then
        let tag = base + unat offset; type = ld32 m tag; sz = ld32 m (tag + 4)
        in if type = 0 then Some 0
           else if sz < 8 \<or> total_size - offset < sz then Some 0
           else if type = 4 \<and> 16 \<le> sz then
             Some ((ucast (ld32 m (base + unat offset + 12)) + 1024) * 1024)
           else basic_tags m base total_size (offset + pad8 sz)
      else Some 0)"

definition multiboot_basic_bytes :: "memory \<Rightarrow> nat \<Rightarrow> u64 option" where
  "multiboot_basic_bytes m base =
     (if base = 0 then Some 0 else basic_tags m base (ld32 m base) 8)"

text \<open>\<open>memory_init\<close> after the boot information has been parsed: the part that lays out the heap.\<close>

definition heap_setup :: "u64 \<Rightarrow> mem \<Rightarrow> mem" where
  "heap_setup available st =
     (let hb = (if available \<noteq> 0 \<and> unat available div 8 < HEAP_MAX_BYTES
                then unat available div 8 else HEAP_MAX_BYTES) div ALIGNMENT * ALIGNMENT;
          st1 = st\<lparr>total_kib := available div 1024, heap_bytes := hb, used := 0,
                   allocations := 0, first := NULL\<rparr>
      in if hb \<le> SIZEOF_BLOCK + MIN_PAYLOAD then st1
         else st1\<lparr>first := At 0,
                  hdr := (hdr st)(0 := \<lparr>magic = BLOCK_MAGIC, bsize = hb - SIZEOF_BLOCK,
                                        previous = NULL, nxt = NULL, free = True\<rparr>)\<rparr>)"

definition memory_init :: "memory \<Rightarrow> nat \<Rightarrow> mem \<Rightarrow> mem option" where
  "memory_init m address st =
     Option.bind (multiboot_available_bytes m address) (\<lambda>available.
       if available = 0
       then map_option (\<lambda>av. heap_setup av st) (multiboot_basic_bytes m address)
       else Some (heap_setup available st))"

section \<open>Accounting\<close>

definition memory_total_kib :: "mem \<Rightarrow> u64" where
  "memory_total_kib st = total_kib st"

definition memory_used_bytes :: "mem \<Rightarrow> nat" where
  "memory_used_bytes st = used st"

partial_function (option) free_walk :: "(int \<Rightarrow> block) \<Rightarrow> ptr \<Rightarrow> nat \<Rightarrow> nat option" where
  "free_walk h p acc = (case p of NULL \<Rightarrow> Some acc | At a \<Rightarrow>
     if magic (h a) \<noteq> BLOCK_MAGIC then Some 0
     else free_walk h (nxt (h a)) (if free (h a) then add64 acc (bsize (h a)) else acc))"

definition memory_free_bytes :: "mem \<Rightarrow> nat option" where
  "memory_free_bytes st = free_walk (hdr st) (first st) 0"

definition memory_heap_bytes :: "mem \<Rightarrow> nat" where
  "memory_heap_bytes st =
     (if heap_bytes st > SIZEOF_BLOCK then heap_bytes st - SIZEOF_BLOCK else 0)"

definition memory_allocation_count :: "mem \<Rightarrow> nat" where
  "memory_allocation_count st = allocations st"

section \<open>Allocation\<close>

text \<open>The search loop of \<open>kmalloc\<close>: the first free block that is large enough.\<close>

partial_function (option) first_fit :: "(int \<Rightarrow> block) \<Rightarrow> ptr \<Rightarrow> nat \<Rightarrow> ptr option" where
  "first_fit h p wanted = (case p of NULL \<Rightarrow> Some NULL | At a \<Rightarrow>
     if magic (h a) \<noteq> BLOCK_MAGIC then Some NULL
     else if \<not> free (h a) \<or> bsize (h a) < wanted then first_fit h (nxt (h a)) wanted
     else Some (At a))"

text \<open>\<open>if (p) p->previous = v\<close>.\<close>

definition set_previous :: "ptr \<Rightarrow> ptr \<Rightarrow> (int \<Rightarrow> block) \<Rightarrow> int \<Rightarrow> block" where
  "set_previous p v h = (case p of NULL \<Rightarrow> h | At a \<Rightarrow> h(a := (h a)\<lparr>previous := v\<rparr>))"

definition split_block :: "int \<Rightarrow> nat \<Rightarrow> (int \<Rightarrow> block) \<Rightarrow> int \<Rightarrow> block" where
  "split_block a wanted h =
     (if bsize (h a) \<ge> wanted + SIZEOF_BLOCK + MIN_PAYLOAD then
        let r = a + int SIZEOF_BLOCK + int wanted;
            h1 = h(r := \<lparr>magic = BLOCK_MAGIC, bsize = bsize (h a) - wanted - SIZEOF_BLOCK,
                         previous = At a, nxt = nxt (h a), free = True\<rparr>);
            h2 = set_previous (nxt (h1 r)) (At r) h1
        in h2(a := (h2 a)\<lparr>nxt := At r, bsize := wanted\<rparr>)
      else h)"

definition kmalloc :: "nat \<Rightarrow> mem \<Rightarrow> (ptr \<times> mem) option" where
  "kmalloc sz st =
     (if sz = 0 \<or> first st = NULL then Some (NULL, st)
      else let wanted = align_up sz in
        if wanted = 0 then Some (NULL, st)
        else map_option (\<lambda>p. case p of NULL \<Rightarrow> (NULL, st) | At a \<Rightarrow>
               let h1 = split_block a wanted (hdr st);
                   h2 = h1(a := (h1 a)\<lparr>free := False\<rparr>)
               in (At (a + int SIZEOF_BLOCK),
                   st\<lparr>hdr := h2, used := add64 (used st) (bsize (h2 a)),
                      allocations := add64 (allocations st) 1\<rparr>))
             (first_fit (hdr st) (first st) wanted))"

section \<open>Release\<close>

text \<open>
  The loop that looks for the block whose payload starts at \<open>x\<close>. A header without the magic
  number ends the operation; the callers treat that like the end of the list.
\<close>

partial_function (option) find_block :: "(int \<Rightarrow> block) \<Rightarrow> ptr \<Rightarrow> int \<Rightarrow> ptr option" where
  "find_block h p x = (case p of NULL \<Rightarrow> Some NULL | At a \<Rightarrow>
     if a + int SIZEOF_BLOCK = x then Some (At a)
     else if magic (h a) \<noteq> BLOCK_MAGIC then Some NULL
     else find_block h (nxt (h a)) x)"

definition merge_next :: "int \<Rightarrow> (int \<Rightarrow> block) \<Rightarrow> int \<Rightarrow> block" where
  "merge_next a h = (case nxt (h a) of NULL \<Rightarrow> h | At n \<Rightarrow>
     if magic (h n) = BLOCK_MAGIC \<and> free (h n) then
       let h1 = h(a := (h a)\<lparr>bsize := add64 (bsize (h a)) (add64 SIZEOF_BLOCK (bsize (h n))),
                            nxt := nxt (h n)\<rparr>)
       in set_previous (nxt (h1 a)) (At a) h1
     else h)"

definition merge_previous :: "int \<Rightarrow> (int \<Rightarrow> block) \<Rightarrow> int \<Rightarrow> block" where
  "merge_previous a h = (case previous (h a) of NULL \<Rightarrow> h | At p \<Rightarrow>
     if magic (h p) = BLOCK_MAGIC \<and> free (h p) then
       let h1 = h(p := (h p)\<lparr>bsize := add64 (bsize (h p)) (add64 SIZEOF_BLOCK (bsize (h a))),
                            nxt := nxt (h a)\<rparr>)
       in set_previous (nxt (h1 p)) (At p) h1
     else h)"

definition kfree :: "ptr \<Rightarrow> mem \<Rightarrow> mem option" where
  "kfree pointer st = (case pointer of NULL \<Rightarrow> Some st | At x \<Rightarrow>
     if x < int SIZEOF_BLOCK \<or> x \<ge> int (heap_bytes st) then Some st
     else map_option (\<lambda>b. case b of NULL \<Rightarrow> st | At a \<Rightarrow>
            if magic (hdr st a) \<noteq> BLOCK_MAGIC \<or> free (hdr st a) then st
            else let h1 = (hdr st)(a := (hdr st a)\<lparr>free := True\<rparr>)
                 in st\<lparr>hdr := merge_previous a (merge_next a h1),
                       used := sub64 (used st) (bsize (h1 a)),
                       allocations := (if allocations st \<noteq> 0 then allocations st - 1
                                       else allocations st)\<rparr>)
          (find_block (hdr st) (first st) x))"

section \<open>Zeroed allocation and reallocation\<close>

definition kcalloc :: "nat \<Rightarrow> nat \<Rightarrow> mem \<Rightarrow> (ptr \<times> mem) option" where
  "kcalloc count sz st =
     (if sz \<noteq> 0 \<and> count > (2 ^ 64 - 1) div sz then Some (NULL, st)
      else let n = (count * sz) mod 2 ^ 64 in
        map_option (\<lambda>(p, st1). case p of NULL \<Rightarrow> (NULL, st1) | At x \<Rightarrow>
            (At x, st1\<lparr>payload := (\<lambda>y. if x \<le> y \<and> y < x + int n then 0 else payload st1 y)\<rparr>))
          (kmalloc n st))"

text \<open>\<open>for (i = 0; i < n; i++) replacement[i] = pointer[i]\<close>, byte by byte in ascending order.\<close>

primrec copy_bytes :: "nat \<Rightarrow> int \<Rightarrow> int \<Rightarrow> (int \<Rightarrow> u8) \<Rightarrow> int \<Rightarrow> u8" where
  "copy_bytes 0 y x p = p"
| "copy_bytes (Suc n) y x p =
     (let q = copy_bytes n y x p in q(y + int n := q (x + int n)))"

definition krealloc :: "ptr \<Rightarrow> nat \<Rightarrow> mem \<Rightarrow> (ptr \<times> mem) option" where
  "krealloc pointer sz st = (case pointer of NULL \<Rightarrow> kmalloc sz st | At x \<Rightarrow>
     if sz = 0 then map_option (\<lambda>st1. (NULL, st1)) (kfree pointer st)
     else Option.bind (find_block (hdr st) (first st) x) (\<lambda>b. case b of
         NULL \<Rightarrow> Some (NULL, st)
       | At a \<Rightarrow>
         if free (hdr st a) \<or> magic (hdr st a) \<noteq> BLOCK_MAGIC then Some (NULL, st)
         else if bsize (hdr st a) \<ge> sz then Some (pointer, st)
         else Option.bind (kmalloc sz st) (\<lambda>(r, st1). case r of
             NULL \<Rightarrow> Some (NULL, st1)
           | At y \<Rightarrow>
             let st2 = st1\<lparr>payload := copy_bytes (bsize (hdr st1 a)) y x (payload st1)\<rparr>
             in map_option (\<lambda>st3. (At y, st3)) (kfree pointer st2))))"

section \<open>The abstract heap\<close>

text \<open>
  The heap array is tiled by blocks; each is a header of \<open>SIZEOF_BLOCK\<close> bytes followed by its
  payload. \<open>cells\<close> lists the payload sizes with the free flags in address order.
\<close>

type_synonym cells = "(nat \<times> bool) list"

abbreviation after :: "int \<Rightarrow> nat \<Rightarrow> int" where
  "after a s \<equiv> a + int SIZEOF_BLOCK + int s"

fun extent :: "cells \<Rightarrow> nat" where
  "extent [] = 0"
| "extent ((s, f) # xs) = SIZEOF_BLOCK + s + extent xs"

fun used_of :: "cells \<Rightarrow> nat" where
  "used_of [] = 0"
| "used_of ((s, f) # xs) = (if f then 0 else s) + used_of xs"

fun free_of :: "cells \<Rightarrow> nat" where
  "free_of [] = 0"
| "free_of ((s, f) # xs) = (if f then s else 0) + free_of xs"

fun live_count :: "cells \<Rightarrow> nat" where
  "live_count [] = 0"
| "live_count ((s, f) # xs) = (if f then 0 else 1) + live_count xs"

text \<open>No two neighbouring blocks are free: \<open>kfree\<close> coalesces both ways.\<close>

fun no_adjacent_free :: "cells \<Rightarrow> bool" where
  "no_adjacent_free ((s, f) # (t, g) # xs) = (\<not> (f \<and> g) \<and> no_adjacent_free ((t, g) # xs))"
| "no_adjacent_free _ = True"

definition good_size :: "nat \<times> bool \<Rightarrow> bool" where
  "good_size c = (ALIGNMENT dvd fst c \<and> MIN_PAYLOAD \<le> fst c)"

fun fit_at :: "nat \<Rightarrow> int \<Rightarrow> cells \<Rightarrow> int option" where
  "fit_at w a [] = None"
| "fit_at w a ((s, f) # xs) = (if f \<and> w \<le> s then Some a else fit_at w (after a s) xs)"

fun alloc :: "nat \<Rightarrow> cells \<Rightarrow> cells" where
  "alloc w [] = []"
| "alloc w ((s, f) # xs) =
     (if f \<and> w \<le> s then
        (if w + SIZEOF_BLOCK + MIN_PAYLOAD \<le> s
         then (w, False) # (s - w - SIZEOF_BLOCK, True) # xs
         else (s, False) # xs)
      else (s, f) # alloc w xs)"

fun find_cell :: "int \<Rightarrow> int \<Rightarrow> cells \<Rightarrow> (nat \<times> bool) option" where
  "find_cell b a [] = None"
| "find_cell b a ((s, f) # xs) = (if b = a then Some (s, f) else find_cell b (after a s) xs)"

fun coalesce :: "cells \<Rightarrow> cells" where
  "coalesce ((s, True) # (t, True) # xs) = (s + (SIZEOF_BLOCK + t), True) # xs"
| "coalesce xs = xs"

fun release :: "int \<Rightarrow> int \<Rightarrow> cells \<Rightarrow> cells" where
  "release b a [] = []"
| "release b a ((s, f) # xs) =
     (if b = a then coalesce ((s, True) # xs)
      else coalesce ((s, f) # release b (after a s) xs))"

definition link :: "int \<Rightarrow> cells \<Rightarrow> ptr" where
  "link a xs = (if xs = [] then NULL else At a)"

text \<open>\<open>chain h pv a xs\<close>: the headers in \<open>h\<close> from address \<open>a\<close> on represent \<open>xs\<close>.\<close>

fun chain :: "(int \<Rightarrow> block) \<Rightarrow> ptr \<Rightarrow> int \<Rightarrow> cells \<Rightarrow> bool" where
  "chain h pv a [] = True"
| "chain h pv a ((s, f) # xs) =
     (h a = \<lparr>magic = BLOCK_MAGIC, bsize = s, previous = pv, nxt = link (after a s) xs, free = f\<rparr>
      \<and> chain h (At a) (after a s) xs)"

definition heap_inv :: "mem \<Rightarrow> cells \<Rightarrow> bool" where
  "heap_inv st cs \<longleftrightarrow>
     first st = link 0 cs \<and> chain (hdr st) NULL 0 cs \<and>
     heap_bytes st \<le> HEAP_MAX_BYTES \<and> (cs \<noteq> [] \<longrightarrow> extent cs = heap_bytes st) \<and>
     no_adjacent_free cs \<and> list_all good_size cs \<and>
     used st = used_of cs \<and> allocations st = live_count cs"

section \<open>Lemmas on the abstract heap\<close>

lemma no_adjacent_free_Cons:
  "no_adjacent_free ((s, f) # xs) \<longleftrightarrow>
     no_adjacent_free xs \<and> (f \<longrightarrow> xs \<noteq> [] \<longrightarrow> \<not> snd (hd xs))"
  by (cases xs) auto

lemma link_simps [simp]: "link a [] = NULL" "link a (x # xs) = At a"
  by (simp_all add: link_def)

lemma alloc_eq_Nil [simp]: "alloc w xs = [] \<longleftrightarrow> xs = []"
  by (cases "(w, xs)" rule: alloc.cases) auto

lemma link_alloc [simp]: "link a (alloc w xs) = link a xs"
  by (simp add: link_def)

lemma coalesce_eq_Nil [simp]: "coalesce xs = [] \<longleftrightarrow> xs = []"
  by (cases xs rule: coalesce.cases) auto

lemma release_eq_Nil [simp]: "release b a xs = [] \<longleftrightarrow> xs = []"
  by (cases "(b, a, xs)" rule: release.cases) auto

lemma extent_coalesce [simp]: "extent (coalesce xs) = extent xs"
  by (cases xs rule: coalesce.cases) auto

lemma extent_release [simp]: "extent (release b a xs) = extent xs"
  by (induction b a xs rule: release.induct) auto

lemma extent_alloc [simp]: "extent (alloc w xs) = extent xs"
  by (induction w xs rule: alloc.induct) (auto simp: heap_consts)

lemma fit_at_ge: "fit_at w a xs = Some b \<Longrightarrow> a \<le> b"
  by (induction w a xs rule: fit_at.induct) (auto split: if_splits)

lemma find_cell_ge: "find_cell b a xs = Some c \<Longrightarrow> a \<le> b"
  by (induction b a xs rule: find_cell.induct) (auto split: if_splits)

lemma alloc_no_fit: "fit_at w a xs = None \<Longrightarrow> alloc w xs = xs"
  by (induction w a xs rule: fit_at.induct) (auto split: if_splits)

lemma hd_alloc_free:
  "xs \<noteq> [] \<Longrightarrow> \<not> snd (hd xs) \<Longrightarrow> \<not> snd (hd (alloc w xs))"
  by (cases "(w, xs)" rule: alloc.cases) auto

lemma no_adjacent_free_alloc: "no_adjacent_free xs \<Longrightarrow> no_adjacent_free (alloc w xs)"
  by (induction w xs rule: alloc.induct) (auto simp: no_adjacent_free_Cons hd_alloc_free)

lemma coalesce_Cons [simp]:
  "coalesce ((s, f) # (t, g) # xs) =
     (if f \<and> g then (s + (SIZEOF_BLOCK + t), True) # xs else (s, f) # (t, g) # xs)"
  "coalesce [(s, f)] = [(s, f)]"
  by (cases f; cases g; simp) (cases f; simp)

lemma coalesce_True: "\<exists>v ws. coalesce ((u, True) # zs) = (v, True) # ws"
  by (cases zs; cases "snd (hd zs)") auto

lemma no_adjacent_free_coalesce:
  "no_adjacent_free xs \<Longrightarrow> no_adjacent_free (coalesce ((s, f) # xs))"
  by (cases xs rule: no_adjacent_free.cases) (auto simp: no_adjacent_free_Cons)

lemma no_adjacent_free_release: "no_adjacent_free xs \<Longrightarrow> no_adjacent_free (release b a xs)"
  by (induction b a xs rule: release.induct)
    (auto simp: no_adjacent_free_Cons simp del: coalesce.simps intro!: no_adjacent_free_coalesce)

lemma good_size_alloc:
  assumes "ALIGNMENT dvd w" and "MIN_PAYLOAD \<le> w" and "list_all good_size xs"
  shows "list_all good_size (alloc w xs)"
  using assms
proof (induction w xs rule: alloc.induct)
  case (2 w s f xs)
  have "ALIGNMENT dvd s - w - SIZEOF_BLOCK" if "ALIGNMENT dvd s"
    using that 2 by (simp add: heap_consts dvd_diff_nat)
  then show ?case
    using 2 by (auto simp: good_size_def MIN_PAYLOAD_def)
qed simp

lemma good_size_coalesce: "list_all good_size xs \<Longrightarrow> list_all good_size (coalesce xs)"
  by (cases xs rule: coalesce.cases) (auto simp: good_size_def heap_consts)

lemma good_size_release:
  "list_all good_size xs \<Longrightarrow> list_all good_size (release b a xs)"
  by (induction b a xs rule: release.induct) (auto simp: good_size_def intro!: good_size_coalesce)

lemma used_of_coalesce [simp]: "used_of (coalesce xs) = used_of xs"
  by (cases xs rule: coalesce.cases) auto

lemma live_count_coalesce [simp]: "live_count (coalesce xs) = live_count xs"
  by (cases xs rule: coalesce.cases) auto

lemma used_of_alloc:
  "fit_at w a xs = Some b \<Longrightarrow>
     \<exists>s. find_cell b a (alloc w xs) = Some (s, False) \<and> w \<le> s \<and>
         used_of (alloc w xs) = used_of xs + s \<and> live_count (alloc w xs) = Suc (live_count xs)"
proof (induction w a xs rule: fit_at.induct)
  case (2 w a s f xs)
  show ?case
  proof (cases "f \<and> w \<le> s")
    case True
    with 2 show ?thesis by auto
  next
    case False
    with 2 have "fit_at w (after a s) xs = Some b" by (simp split: if_splits)
    moreover from fit_at_ge [OF this] have "b \<noteq> a" by (simp add: heap_consts)
    ultimately show ?thesis
      using False 2 by (auto split: if_splits)
  qed
qed simp

lemma used_of_release:
  "find_cell b a xs = Some (s, False) \<Longrightarrow>
     used_of (release b a xs) + s = used_of xs \<and>
     Suc (live_count (release b a xs)) = live_count xs"
  by (induction b a xs rule: find_cell.induct) (auto split: if_splits)

lemma used_plus_free: "used_of xs + free_of xs + SIZEOF_BLOCK * length xs = extent xs"
  by (induction xs rule: extent.induct) (auto simp: algebra_simps)

lemma live_count_le: "live_count xs * SIZEOF_BLOCK \<le> extent xs"
  by (induction xs rule: extent.induct) (auto simp: heap_consts)

section \<open>The headers represent the abstract heap\<close>

lemma chain_cong:
  "(\<And>y. a \<le> y \<Longrightarrow> h y = h' y) \<Longrightarrow> chain h pv a xs = chain h' pv a xs"
proof (induction h pv a xs rule: chain.induct)
  case (2 h pv a s f xs)
  have "chain h (At a) (after a s) xs = chain h' (At a) (after a s) xs"
    by (rule 2) (use 2 in \<open>simp add: heap_consts\<close>)
  with 2 show ?case by simp
qed simp

lemma chain_upd_below [simp]: "y < a \<Longrightarrow> chain (h(y := b)) pv a xs = chain h pv a xs"
  by (rule chain_cong) auto

lemma free_walk_chain:
  "chain h pv a xs \<Longrightarrow> acc + extent xs < 2 ^ 64 \<Longrightarrow>
     free_walk h (link a xs) acc = Some (acc + free_of xs)"
proof (induction h pv a xs arbitrary: acc rule: chain.induct)
  case (1 h pv a)
  show ?case by (simp add: free_walk.simps)
next
  case (2 h pv a s f xs)
  then show ?case by (simp add: free_walk.simps [of h "At a"])
qed

lemma first_fit_chain:
  "chain h pv a xs \<Longrightarrow>
     first_fit h (link a xs) w = Some (case fit_at w a xs of None \<Rightarrow> NULL | Some b \<Rightarrow> At b)"
proof (induction h pv a xs rule: chain.induct)
  case (1 h pv a)
  show ?case by (simp add: first_fit.simps)
next
  case (2 h pv a s f xs)
  then show ?case by (simp add: first_fit.simps [of h "At a"])
qed

lemma find_block_chain:
  "chain h pv a xs \<Longrightarrow>
     find_block h (link a xs) x =
       Some (if find_cell (x - int SIZEOF_BLOCK) a xs = None then NULL
             else At (x - int SIZEOF_BLOCK))"
proof (induction h pv a xs rule: chain.induct)
  case (1 h pv a)
  show ?case by (simp add: find_block.simps)
next
  case (2 h pv a s f xs)
  then show ?case by (auto simp: find_block.simps [of h "At a"])
qed

lemma chain_find_cell:
  assumes "chain h pv a xs" and "find_cell b a xs = Some (s, f)"
  shows "magic (h b) = BLOCK_MAGIC \<and> bsize (h b) = s \<and> free (h b) = f \<and>
         (nxt (h b) = NULL \<or> nxt (h b) = At (after b s)) \<and>
         (b = a \<and> previous (h b) = pv \<or> (\<exists>p. a \<le> p \<and> p < b \<and> previous (h b) = At p))"
  using assms
proof (induction h pv a xs rule: chain.induct)
  case (2 h pv a t g xs)
  show ?case
  proof (cases "b = a")
    case True
    with 2 show ?thesis by (auto simp: link_def)
  next
    case False
    with 2 have fc: "find_cell b (after a t) xs = Some (s, f)" by simp
    from find_cell_ge [OF fc] have "a < b" by (simp add: heap_consts)
    with 2 fc show ?thesis by (auto simp: heap_consts)
  qed
qed simp

text \<open>The header updates of a successful \<open>kmalloc\<close>.\<close>

definition take_block :: "int \<Rightarrow> nat \<Rightarrow> (int \<Rightarrow> block) \<Rightarrow> int \<Rightarrow> block" where
  "take_block b w h = (let h1 = split_block b w h in h1(b := (h1 b)\<lparr>free := False\<rparr>))"

lemma chain_previous:
  "chain (set_previous (link a xs) q h) q a xs" if "chain h pv a xs"
  using that by (cases xs) (auto simp: set_previous_def link_def heap_consts)

lemma take_block_chain:
  "chain h pv a xs \<Longrightarrow> fit_at w a xs = Some b \<Longrightarrow>
     chain (take_block b w h) pv a (alloc w xs) \<and> (\<forall>y<a. take_block b w h y = h y)"
proof (induction h pv a xs rule: chain.induct)
  case (2 h pv a s f xs)
  let ?r = "after a w"
  show ?case
  proof (cases "f \<and> w \<le> s")
    case True
    with 2 have [simp]: "b = a" by simp
    from 2 have ha: "h a = \<lparr>magic = BLOCK_MAGIC, bsize = s, previous = pv,
        nxt = link (after a s) xs, free = f\<rparr>"
      and rest: "chain h (At a) (after a s) xs" by simp_all
    show ?thesis
    proof (cases "w + SIZEOF_BLOCK + MIN_PAYLOAD \<le> s")
      case False
      have tb: "take_block a w h = h(a := \<lparr>magic = BLOCK_MAGIC, bsize = s, previous = pv,
          nxt = link (after a s) xs, free = False\<rparr>)"
        using False ha by (simp add: take_block_def split_block_def)
      from True False rest show ?thesis
        by (simp add: tb del: fun_upd_apply) (simp add: SIZEOF_BLOCK_def)
    next
      case split: True
      let ?h1 = "h(?r := \<lparr>magic = BLOCK_MAGIC, bsize = s - w - SIZEOF_BLOCK, previous = At a,
                          nxt = link (after a s) xs, free = True\<rparr>)"
      let ?h2 = "set_previous (link (after a s) xs) (At ?r) ?h1"
      have tb: "take_block a w h =
          ?h2(a := \<lparr>magic = BLOCK_MAGIC, bsize = w, previous = pv, nxt = At ?r, free = False\<rparr>)"
        using split True ha
        by (auto simp: take_block_def split_block_def Let_def set_previous_def link_def heap_consts)
      have "?r < after a s" using split by (simp add: heap_consts)
      then have "chain ?h1 (At a) (after a s) xs" using rest by simp
      then have c2: "chain ?h2 (At ?r) (after a s) xs" by (rule chain_previous)
      have hr: "?h2 ?r = ?h1 ?r" and below: "\<forall>y<a. ?h2 y = h y"
        using split by (auto simp: set_previous_def link_def heap_consts)
      have e: "after ?r (s - w - SIZEOF_BLOCK) = after a s"
        using split by (simp add: heap_consts)
      show ?thesis
        using True split c2 hr below
        by (simp add: tb e del: fun_upd_apply) (auto simp: heap_consts ac_simps)
    qed
  next
    case False
    with 2 have fa: "fit_at w (after a s) xs = Some b" by (simp split: if_splits)
    with 2 False have "chain (take_block b w h) (At a) (after a s) (alloc w xs)"
      and fr: "\<forall>y<after a s. take_block b w h y = h y" by auto
    moreover have "take_block b w h a = h a" using fr by (simp add: heap_consts)
    ultimately show ?thesis
      using False 2 by (auto simp: heap_consts)
  qed
qed simp

text \<open>The header updates of a successful \<open>kfree\<close>.\<close>

definition mark_free :: "int \<Rightarrow> (int \<Rightarrow> block) \<Rightarrow> int \<Rightarrow> block" where
  "mark_free b h = merge_next b (h(b := (h b)\<lparr>free := True\<rparr>))"

lemma set_previous_other [simp]:
  "p \<noteq> At y \<Longrightarrow> set_previous p q h y = h y"
  by (auto simp: set_previous_def split: ptr.splits)

lemma mark_free_chain:
  assumes "chain h pv a ((s, f) # xs)" and "extent ((s, f) # xs) < 2 ^ 64"
  shows "chain (mark_free a h) pv a (coalesce ((s, True) # xs)) \<and> (\<forall>y<a. mark_free a h y = h y)"
proof (cases xs)
  case Nil
  with assms show ?thesis by (simp add: mark_free_def merge_next_def)
next
  case (Cons c zs)
  obtain t g where c: "c = (t, g)" by (cases c)
  let ?n = "after a s"
  have ha: "h a = \<lparr>magic = BLOCK_MAGIC, bsize = s, previous = pv, nxt = At ?n, free = f\<rparr>"
    and hn: "h ?n = \<lparr>magic = BLOCK_MAGIC, bsize = t, previous = At a,
                      nxt = link (after ?n t) zs, free = g\<rparr>"
    and rest: "chain h (At ?n) (after ?n t) zs"
    using assms Cons c by simp_all
  have na: "?n \<noteq> a" by (simp add: SIZEOF_BLOCK_def)
  show ?thesis
  proof (cases g)
    case False
    have "mark_free a h = h(a := (h a)\<lparr>free := True\<rparr>)"
      using ha hn na False by (simp add: mark_free_def merge_next_def)
    with False ha hn rest Cons c na show ?thesis
      by (simp add: SIZEOF_BLOCK_def)
  next
    case True
    let ?h1 = "h(a := \<lparr>magic = BLOCK_MAGIC, bsize = s + (SIZEOF_BLOCK + t), previous = pv,
                        nxt = link (after ?n t) zs, free = True\<rparr>)"
    have mf: "mark_free a h = set_previous (link (after ?n t) zs) (At a) ?h1"
      using ha hn na True assms(2) Cons c by (simp add: mark_free_def merge_next_def)
    have "chain ?h1 (At ?n) (after ?n t) zs"
      using rest by (simp add: SIZEOF_BLOCK_def)
    then have "chain (mark_free a h) (At a) (after ?n t) zs"
      unfolding mf by (rule chain_previous)
    moreover have "mark_free a h a = ?h1 a" and "\<forall>y<a. mark_free a h y = h y"
      unfolding mf by (auto simp: link_def SIZEOF_BLOCK_def)
    ultimately show ?thesis
      using True Cons c by (simp add: ac_simps)
  qed
qed

lemma merge_previous_chain:
  assumes "h a = \<lparr>magic = BLOCK_MAGIC, bsize = s, previous = pv, nxt = At (after a s), free = f\<rparr>"
    and "chain h (At a) (after a s) ((t, True) # zs)"
    and "s + (SIZEOF_BLOCK + t) < 2 ^ 64"
  shows "chain (merge_previous (after a s) h) pv a (coalesce ((s, f) # (t, True) # zs)) \<and>
         (\<forall>y<a. merge_previous (after a s) h y = h y)"
proof (cases f)
  case False
  with assms show ?thesis by (simp add: merge_previous_def)
next
  case True
  let ?b = "after a s"
  have hb: "h ?b = \<lparr>magic = BLOCK_MAGIC, bsize = t, previous = At a,
                     nxt = link (after ?b t) zs, free = True\<rparr>"
    and rest: "chain h (At ?b) (after ?b t) zs"
    using assms(2) by simp_all
  let ?h1 = "h(a := \<lparr>magic = BLOCK_MAGIC, bsize = s + (SIZEOF_BLOCK + t), previous = pv,
                      nxt = link (after ?b t) zs, free = True\<rparr>)"
  have mp: "merge_previous ?b h = set_previous (link (after ?b t) zs) (At a) ?h1"
    using assms(1,3) hb True by (simp add: merge_previous_def)
  have "chain ?h1 (At ?b) (after ?b t) zs"
    using rest by (simp add: SIZEOF_BLOCK_def)
  then have "chain (merge_previous ?b h) (At a) (after ?b t) zs"
    unfolding mp by (rule chain_previous)
  moreover have "merge_previous ?b h a = ?h1 a" and "\<forall>y<a. merge_previous ?b h y = h y"
    unfolding mp by (auto simp: link_def SIZEOF_BLOCK_def)
  ultimately show ?thesis
    using True by (simp add: ac_simps)
qed

lemma release_chain:
  "chain h pv a xs \<Longrightarrow> no_adjacent_free xs \<Longrightarrow> extent xs < 2 ^ 64 \<Longrightarrow>
     find_cell b a xs = Some (s, False) \<Longrightarrow> b \<noteq> a \<Longrightarrow>
     chain (merge_previous b (mark_free b h)) pv a (release b a xs) \<and>
     (\<forall>y<a. merge_previous b (mark_free b h) y = h y)"
proof (induction h pv a xs rule: chain.induct)
  case (2 h pv a t g xs)
  let ?n = "after a t"
  have an: "a < ?n" by (simp add: SIZEOF_BLOCK_def)
  from 2 obtain u k zs where xs: "xs = (u, k) # zs"
    by (cases xs) auto
  with 2 have ha: "h a = \<lparr>magic = BLOCK_MAGIC, bsize = t, previous = pv, nxt = At ?n, free = g\<rparr>"
    and rest: "chain h (At a) ?n xs" and ex: "extent xs < 2 ^ 64"
    and fc: "find_cell b ?n xs = Some (s, False)" by auto
  show ?case
  proof (cases "b = ?n")
    case True
    obtain v ws where co: "coalesce ((u, True) # zs) = (v, True) # ws"
      using coalesce_True by blast
    have sz: "SIZEOF_BLOCK + v + extent ws = extent xs"
      using extent_coalesce [of "(u, True) # zs"] xs co by simp
    from mark_free_chain [of h "At a" ?n u k zs] rest ex xs co
    have c: "chain (mark_free b h) (At a) ?n ((v, True) # ws)"
      and fr: "\<forall>y<?n. mark_free b h y = h y" using True by auto
    have "t + (SIZEOF_BLOCK + v) < 2 ^ 64"
      using 2(4) sz by simp
    from merge_previous_chain [OF _ c this, of pv g] fr an ha
    show ?thesis
      using True xs co an by (simp add: xs)
  next
    case False
    from 2 xs have "no_adjacent_free xs" by (simp add: no_adjacent_free_Cons)
    from 2(1) [OF rest this ex fc False]
    have c: "chain (merge_previous b (mark_free b h)) (At a) ?n (release b ?n xs)"
      and fr: "\<forall>y<?n. merge_previous b (mark_free b h) y = h y" by auto
    have "release b ?n xs = coalesce ((u, k) # release b (after ?n u) zs)"
      using False xs by simp
    then have "coalesce ((t, g) # release b ?n xs) = (t, g) # release b ?n xs"
      using 2(3) xs by (cases "release b (after ?n u) zs") (auto split: if_splits)
    then show ?thesis
      using c fr an ha 2(6) xs by (auto simp: link_def)
  qed
qed simp

section \<open>Live blocks\<close>

lemma find_cell_in:
  "find_cell b a xs = Some (s, f) \<Longrightarrow>
     a \<le> b \<and> after b s \<le> a + int (extent xs) \<and> (s, f) \<in> set xs"
proof (induction b a xs rule: find_cell.induct)
  case (2 b a t g xs)
  then show ?case by (cases "b = a") (auto simp: heap_consts)
qed simp

lemma find_cell_disjoint:
  "find_cell b a xs = Some (s, f) \<Longrightarrow> find_cell c a xs = Some (t, g) \<Longrightarrow> b < c \<Longrightarrow> after b s \<le> c"
proof (induction b a xs rule: find_cell.induct)
  case (2 b a u k xs)
  show ?case
  proof (cases "b = a")
    case True
    with 2 have "find_cell c (after a u) xs = Some (t, g)" and "s = u" by auto
    with True find_cell_ge show ?thesis by blast
  next
    case False
    with 2 have fb: "find_cell b (after a u) xs = Some (s, f)" by simp
    moreover from find_cell_ge [OF fb] 2 have "c \<noteq> a" by (simp add: heap_consts)
    ultimately show ?thesis using 2 False by simp
  qed
qed simp

lemma find_cell_aligned:
  "find_cell b a xs = Some (s, f) \<Longrightarrow> list_all good_size xs \<Longrightarrow> 16 dvd a \<Longrightarrow> 16 dvd b"
proof (induction b a xs rule: find_cell.induct)
  case (2 b a t g xs)
  have "(16::int) dvd int t"
    using 2(3) int_dvd_int_iff [of 16 t] by (simp add: good_size_def ALIGNMENT_def)
  then have "16 dvd after a t"
    using 2(4) by (simp add: SIZEOF_BLOCK_def)
  with 2 show ?case by (auto split: if_splits)
qed simp

lemma find_cell_alloc:
  "find_cell c a xs = Some (n, False) \<Longrightarrow> find_cell c a (alloc w xs) = Some (n, False)"
proof (induction c a xs rule: find_cell.induct)
  case (2 c a t g xs)
  show ?case
  proof (cases "g \<and> w \<le> t")
    case True
    with 2 have fc: "find_cell c (after a t) xs = Some (n, False)" and "c \<noteq> a"
      by (auto split: if_splits)
    moreover from find_cell_ge [OF fc] True have "c \<noteq> after a w"
      if "w + SIZEOF_BLOCK + MIN_PAYLOAD \<le> t"
      using that by (simp add: heap_consts)
    moreover have "after (after a w) (t - w - SIZEOF_BLOCK) = after a t"
      if "w + SIZEOF_BLOCK + MIN_PAYLOAD \<le> t"
      using that by (simp add: heap_consts)
    ultimately show ?thesis using True by (simp add: ac_simps)
  next
    case False
    with 2 show ?thesis by (auto split: if_splits)
  qed
qed simp

lemma find_cell_coalesce:
  "find_cell c a xs = Some (n, False) \<Longrightarrow> find_cell c a (coalesce xs) = Some (n, False)"
  by (cases xs rule: coalesce.cases) (auto split: if_splits simp: ac_simps)

lemma find_cell_release:
  "find_cell c a xs = Some (n, False) \<Longrightarrow> c \<noteq> b \<Longrightarrow>
     find_cell c a (release b a xs) = Some (n, False)"
proof (induction b a xs rule: release.induct)
  case (2 b a t g xs)
  then show ?case by (auto intro!: find_cell_coalesce split: if_splits)
qed simp

lemma release_alloc:
  "no_adjacent_free xs \<Longrightarrow> fit_at w a xs = Some b \<Longrightarrow> release b a (alloc w xs) = xs"
proof (induction w a xs rule: fit_at.induct)
  case (2 w a s f xs)
  show ?case
  proof (cases "f \<and> w \<le> s")
    case True
    with 2 show ?thesis
      by (cases xs) (auto simp: heap_consts no_adjacent_free_Cons)
  next
    case False
    with 2 have fa: "fit_at w (after a s) xs = Some b" by (simp split: if_splits)
    from fit_at_ge [OF fa] have "b \<noteq> a" by (simp add: heap_consts)
    with False 2 fa show ?thesis
      by (cases xs) (auto simp: no_adjacent_free_Cons split: if_splits)
  qed
qed simp

section \<open>The operations implement the abstract heap\<close>

lemma align_up_good:
  assumes "sz \<noteq> 0" and "align_up sz \<noteq> 0"
  shows "sz \<le> align_up sz \<and> ALIGNMENT dvd align_up sz \<and> MIN_PAYLOAD \<le> align_up sz"
  using assms by (auto simp: align_up_def heap_consts split: if_splits)

lemma kmalloc_step:
  assumes inv: "heap_inv st cs" and fit: "fit_at (align_up sz) 0 cs = Some b"
    and sz: "sz \<noteq> 0" "align_up sz \<noteq> 0"
  obtains st' where "kmalloc sz st = Some (At (b + int SIZEOF_BLOCK), st')"
    and "heap_inv st' (alloc (align_up sz) cs)" and "payload st' = payload st"
    and "heap_bytes st' = heap_bytes st"
proof -
  let ?w = "align_up sz" and ?h = "take_block b (align_up sz) (hdr st)"
  have ne: "cs \<noteq> []" using fit by auto
  have first: "first st = link 0 cs" and ch: "chain (hdr st) NULL 0 cs"
    and ex: "extent cs = heap_bytes st" and hb: "heap_bytes st \<le> HEAP_MAX_BYTES"
    using inv ne by (auto simp: heap_inv_def)
  have ch': "chain ?h NULL 0 (alloc ?w cs)"
    using take_block_chain [OF ch fit] by simp
  obtain s where fc: "find_cell b 0 (alloc ?w cs) = Some (s, False)"
    and us: "used_of (alloc ?w cs) = used_of cs + s"
    and lc: "live_count (alloc ?w cs) = Suc (live_count cs)"
    using used_of_alloc [OF fit] by auto
  have s: "bsize (?h b) = s" using chain_find_cell [OF ch' fc] by simp
  have small: "used_of cs + s < 2 ^ 64" "live_count cs + 1 < 2 ^ 64"
    using used_plus_free [of "alloc ?w cs"] live_count_le [of cs] us ex hb
    by (auto simp: heap_consts)
  let ?st = "st\<lparr>hdr := ?h, used := used_of cs + s, allocations := Suc (live_count cs)\<rparr>"
  have ff: "first_fit (hdr st) (first st) ?w = Some (At b)" and "first st \<noteq> NULL"
    using first_fit_chain [OF ch] first fit ne by (simp_all add: link_def)
  then have "kmalloc sz st = Some (At (b + int SIZEOF_BLOCK), ?st)"
    using sz s small inv by (simp add: kmalloc_def take_block_def Let_def heap_inv_def)
  moreover have "heap_inv ?st (alloc ?w cs)"
    using inv ne ch' us lc sz align_up_good [OF sz]
    by (auto simp: heap_inv_def no_adjacent_free_alloc good_size_alloc)
  ultimately show thesis by (rule that) simp_all
qed

lemma kmalloc_fails:
  assumes "heap_inv st cs" and "sz = 0 \<or> align_up sz = 0 \<or> fit_at (align_up sz) 0 cs = None"
  shows "kmalloc sz st = Some (NULL, st)"
proof -
  have "first_fit (hdr st) (first st) w = Some NULL" if "fit_at w 0 cs = None" for w
    using assms(1) that first_fit_chain [of "hdr st" NULL 0 cs w] by (simp add: heap_inv_def)
  with assms(2) show ?thesis by (auto simp: kmalloc_def Let_def)
qed

lemma kfree_step:
  assumes inv: "heap_inv st cs" and fc: "find_cell (x - int SIZEOF_BLOCK) 0 cs = Some (s, False)"
  obtains st' where "kfree (At x) st = Some st'"
    and "heap_inv st' (release (x - int SIZEOF_BLOCK) 0 cs)" and "payload st' = payload st"
    and "heap_bytes st' = heap_bytes st"
proof -
  let ?b = "x - int SIZEOF_BLOCK"
  let ?h = "merge_previous ?b (mark_free ?b (hdr st))"
  have ne: "cs \<noteq> []" using fc by auto
  have first: "first st = link 0 cs" and ch: "chain (hdr st) NULL 0 cs"
    and ex: "extent cs = heap_bytes st" and hb: "heap_bytes st \<le> HEAP_MAX_BYTES"
    and na: "no_adjacent_free cs" and gs: "list_all good_size cs"
    using inv ne by (auto simp: heap_inv_def)
  have ex64: "extent cs < 2 ^ 64" using ex hb by (simp add: heap_consts)
  from find_cell_in [OF fc] gs have range: "int SIZEOF_BLOCK \<le> x" "x < int (heap_bytes st)"
    by (auto simp: ex good_size_def list_all_iff heap_consts)
  from chain_find_cell [OF ch fc]
  have hb': "magic (hdr st ?b) = BLOCK_MAGIC" "bsize (hdr st ?b) = s" "\<not> free (hdr st ?b)" by auto
  have ch': "chain ?h NULL 0 (release ?b 0 cs)"
  proof (cases "?b = 0")
    case True
    then obtain f zs where cs: "cs = (s, f) # zs"
      using fc by (cases cs) auto
    have "chain (mark_free 0 (hdr st)) NULL 0 (release ?b 0 cs)"
      using mark_free_chain [of "hdr st" NULL 0 s f zs] ch ex64 True cs by simp
    moreover from this have "previous (mark_free 0 (hdr st) 0) = NULL"
      using ne by (cases "release ?b 0 cs") auto
    ultimately show ?thesis
      using True by (simp add: merge_previous_def)
  next
    case False
    then show ?thesis using release_chain [OF ch na ex64 fc] by simp
  qed
  from used_of_release [OF fc]
  have us: "used_of (release ?b 0 cs) = used_of cs - s" "s \<le> used_of cs"
    and lc: "live_count (release ?b 0 cs) = live_count cs - 1" "0 < live_count cs" by auto
  let ?st = "st\<lparr>hdr := ?h, used := used_of cs - s, allocations := live_count cs - 1\<rparr>"
  have "used_of cs < 2 ^ 64" using used_plus_free [of cs] ex64 by simp
  then have "kfree (At x) st = Some ?st"
    using first ch fc range hb' us lc inv
    by (simp add: kfree_def find_block_chain mark_free_def Let_def heap_inv_def)
  moreover have "heap_inv ?st (release ?b 0 cs)"
    using inv ne ch' us lc
    by (auto simp: heap_inv_def no_adjacent_free_release good_size_release link_def)
  ultimately show thesis by (rule that) simp_all
qed

lemma kfree_ignores:
  assumes inv: "heap_inv st cs"
    and "p = NULL \<or> (\<exists>x. p = At x \<and> (\<forall>s. find_cell (x - int SIZEOF_BLOCK) 0 cs \<noteq> Some (s, False)))"
  shows "kfree p st = Some st"
proof (cases p)
  case (At x)
  have ch: "chain (hdr st) NULL 0 cs" and first: "first st = link 0 cs"
    using inv by (simp_all add: heap_inv_def)
  show ?thesis
  proof (cases "find_cell (x - int SIZEOF_BLOCK) 0 cs")
    case None
    with At ch first show ?thesis by (simp add: kfree_def find_block_chain)
  next
    case (Some c)
    with assms At obtain s where "find_cell (x - int SIZEOF_BLOCK) 0 cs = Some (s, True)"
      by (cases c) auto
    with At first find_block_chain [OF ch] chain_find_cell [OF ch this] show ?thesis
      by (simp add: kfree_def)
  qed
qed (simp add: kfree_def)

section \<open>The memory map\<close>

text \<open>The reference for the loop over the entries of a memory-map tag: \<open>k\<close> entries of
  \<open>esz\<close> bytes from address \<open>e\<close>; an entry that would overflow the sum is skipped.\<close>

fun entries_sum :: "memory \<Rightarrow> nat \<Rightarrow> nat \<Rightarrow> nat \<Rightarrow> u64 \<Rightarrow> u64" where
  "entries_sum m e esz 0 av = av"
| "entries_sum m e esz (Suc k) av =
     entries_sum m (e + esz) esz k
       (if ld32 m (e + 16) = 1 \<and> unat av + unat (ld64 m (e + 8)) < 2 ^ 64
        then av + ld64 m (e + 8) else av)"

lemma no_carry64: "(x \<le> - 1 - y) = (unat y + unat x < 2 ^ 64)" for x y :: u64
proof -
  have "unat (- 1 - y) = unat (- 1 :: u64) - unat y"
    by (rule unat_sub) simp
  also have "unat (- 1 :: u64) = 2 ^ 64 - 1" by (simp add: unsigned_minus_1_eq_mask mask_eq_exp_minus_1)
  finally show ?thesis
    using unsigned_less [of y, where ?'a = nat] by (auto simp: word_le_nat_alt)
qed

lemma mmap_entries_sum:
  assumes "es \<le> ts" and "unat p + k * unat es \<le> unat ts" and "unat ts < unat p + Suc k * unat es"
  shows "mmap_entries m tag ts es p av = Some (entries_sum m (tag + unat p) (unat es) k av)"
  using assms(2,3)
proof (induction k arbitrary: p av)
  case 0
  have "unat (ts - es) = unat ts - unat es" using assms(1) by (simp add: unat_sub)
  with 0 assms(1) have "\<not> p \<le> ts - es" by (simp add: word_le_nat_alt)
  then show ?case by (simp add: mmap_entries.simps)
next
  case (Suc k)
  have "unat (ts - es) = unat ts - unat es" using assms(1) by (simp add: unat_sub)
  with Suc.prems have le: "p \<le> ts - es" by (simp add: word_le_nat_alt)
  have "unat p + unat es < 2 ^ 32"
    using Suc.prems unsigned_less [of ts, where ?'a = nat] by simp
  then have e: "unat (p + es) = unat p + unat es" using unat_add_lem [of p es] by simp
  have "mmap_entries m tag ts es (p + es) v =
      Some (entries_sum m (tag + unat p + unat es) (unat es) k v)" for v
    using Suc.IH [of "p + es" v] Suc.prems by (simp add: e add.assoc)
  with le show ?case
    by (subst mmap_entries.simps) (simp add: no_carry64)
qed

lemma mmap_stuck:
  assumes "mmap_entries m tag ts es p av = Some y"
  shows "\<not> (ts = 16 \<and> es = 24 \<and> 8 dvd unat p)"
proof (rule mmap_entries.raw_induct [OF _ assms,
    where P = "\<lambda>m tag ts es p av y. \<not> (ts = 16 \<and> es = 24 \<and> 8 dvd unat p)"])
  fix f :: "memory \<Rightarrow> nat \<Rightarrow> u32 \<Rightarrow> u32 \<Rightarrow> u32 \<Rightarrow> u64 \<Rightarrow> u64 option"
    and m :: memory and tag :: nat and ts es p :: u32 and av z :: u64
  assume ih: "\<And>m tag ts es p av y. f m tag ts es p av = Some y \<Longrightarrow> \<not> (ts = 16 \<and> es = 24 \<and> 8 dvd unat p)"
    and body: "(if p \<le> ts - es
      then f m tag ts es (p + es)
            (if ld32 m (tag + unat p + 16) = 1 \<and> ld64 m (tag + unat p + 8) \<le> - 1 - av
             then av + ld64 m (tag + unat p + 8) else av)
      else Some av) = Some z"
  show "\<not> (ts = 16 \<and> es = 24 \<and> 8 dvd unat p)"
  proof
    assume a: "ts = 16 \<and> es = 24 \<and> 8 dvd unat p"
    then obtain q where "unat p = 8 * q" by (auto simp: dvd_def)
    then have "unat p \<le> 4294967288"
      using unsigned_less [of p, where ?'a = nat] by auto
    then have "p \<le> ts - es" using a by (simp add: word_le_nat_alt)
    moreover have "8 dvd unat (p + es)"
      using a by (simp add: unat_word_ariths dvd_mod)
    ultimately show False using ih body a by (auto split: if_splits)
  qed
qed

text \<open>C9: On a memory-map tag that is at least as long as one entry, the entry loop returns, and
  what it returns is the sum of the usable entries, one for each whole entry the tag holds.\<close>

theorem mmap_entries_total:
  assumes "es \<noteq> 0" and "es \<le> ts" and "16 \<le> ts"
  shows "mmap_entries m tag ts es 16 0 =
    Some (entries_sum m (tag + 16) (unat es) ((unat ts - 16) div unat es) 0)"
proof -
  let ?k = "(unat ts - 16) div unat es"
  have "unat es \<noteq> 0" using assms(1) by (simp add: unat_eq_zero)
  moreover have "16 \<le> unat ts" using assms(3) by (simp add: word_le_nat_alt)
  ultimately have "unat (16::u32) + ?k * unat es \<le> unat ts" "unat ts < unat (16::u32) + Suc ?k * unat es"
    using div_times_less_eq_dividend [of "unat ts - 16" "unat es"]
      dividend_less_div_times [of "unat es" "unat ts - 16"] by (simp_all del: div_times_less_eq_dividend)
  from mmap_entries_sum [OF assms(2) this] show ?thesis by simp
qed

theorem mmap_entries_total_witness:
  "mmap_entries (\<lambda>a. if a = 32 \<or> a = 25 then 1 else 0) 0 40 24 16 0 = Some 256"
proof -
  have "mmap_entries (\<lambda>a. if a = 32 \<or> a = 25 then 1 else 0) 0 40 24 16 0 =
     Some (entries_sum (\<lambda>a. if a = 32 \<or> a = 25 then 1 else 0) 16 24 1 0)"
    using mmap_entries_total [of 24 40 "\<lambda>a. if a = 32 \<or> a = 25 then 1 else 0" 0] by simp
  also have "entries_sum (\<lambda>a. if a = 32 \<or> a = 25 then 1 else 0) 16 24 1 0 = 256"
    by (simp add: ld32_def ld64_def)
  finally show ?thesis .
qed

text \<open>On a memory-map tag that has room for its header only, the bound
  \<open>tag->size - map->entry_size\<close> wraps around and the entry loop never ends.\<close>

theorem mmap_entries_diverges: "mmap_entries m tag 16 24 16 available = None"
  using mmap_stuck [of m tag 16 24 16 available] by (cases "mmap_entries m tag 16 24 16 available") auto

end
