(* ===== verification/Allocator.thy ===== *)
theory Allocator
  imports Memory
begin

text \<open>
  The contract of the kernel heap (\<^verbatim>\<open>src/kernel/mm/memory.c\<close>) as its callers see it: the locale
  \<open>block_allocator\<close> with the client lemmas, its interpretation on \<open>kmalloc\<close> and
  \<open>kfree\<close> of the theory Memory, and the properties of the allocator.
\<close>

section \<open>The allocator interface\<close>

text \<open>
  What callers of the heap rely on: the size of each live allocation by its address, what
  allocation and release do to it, and that live allocations never overlap.
\<close>

locale block_allocator =
  fixes malloc :: "nat \<Rightarrow> 's \<Rightarrow> (ptr \<times> 's) option"
    and dealloc :: "ptr \<Rightarrow> 's \<Rightarrow> 's option"
    and invar :: "'s \<Rightarrow> bool"
    and live :: "'s \<Rightarrow> int \<Rightarrow> nat option"
  assumes malloc_returns: "invar s \<Longrightarrow> \<exists>r s'. malloc n s = Some (r, s') \<and> invar s'"
    and malloc_null: "invar s \<Longrightarrow> malloc n s = Some (NULL, s') \<Longrightarrow> s' = s"
    and malloc_live: "invar s \<Longrightarrow> malloc n s = Some (At x, s') \<Longrightarrow>
      live s x = None \<and> (\<exists>k\<ge>n. live s' = (live s)(x \<mapsto> k))"
    and dealloc_returns: "invar s \<Longrightarrow> \<exists>s'. dealloc p s = Some s' \<and> invar s'"
    and dealloc_live: "invar s \<Longrightarrow> dealloc p s = Some s' \<Longrightarrow>
      live s' = (case p of NULL \<Rightarrow> live s | At x \<Rightarrow> (live s)(x := None))"
    and live_separate: "invar s \<Longrightarrow> live s x = Some m \<Longrightarrow> live s y = Some n \<Longrightarrow>
      x < y \<Longrightarrow> x + int m < y"
begin

lemma malloc_invar: "invar s \<Longrightarrow> malloc n s = Some (r, s') \<Longrightarrow> invar s'"
  using malloc_returns [of s n] by auto

lemma dealloc_invar: "invar s \<Longrightarrow> dealloc p s = Some s' \<Longrightarrow> invar s'"
  using dealloc_returns [of s p] by auto

lemma malloc_fresh:
  assumes "invar s" and "malloc n s = Some (At x, s')" and "live s y = Some k"
  shows "x \<noteq> y \<and> live s' y = Some k \<and> (x + int n < y \<or> y + int k < x)"
proof -
  from malloc_live [OF assms(1,2)] obtain m
    where x: "live s x = None" and m: "n \<le> m" and l: "live s' = (live s)(x \<mapsto> m)" by auto
  from x assms(3) have ne: "x \<noteq> y" by auto
  with l assms(3) have y: "live s' y = Some k" and x': "live s' x = Some m" by auto
  from malloc_invar [OF assms(1,2)] have "invar s'" .
  from live_separate [OF this x' y] live_separate [OF this y x'] ne m y
  show ?thesis by (cases "x < y") auto
qed

lemma malloc_dealloc:
  assumes "invar s" and "malloc n s = Some (At x, s')"
  shows "\<exists>s''. dealloc (At x) s' = Some s'' \<and> invar s'' \<and> live s'' = live s"
proof -
  from malloc_invar [OF assms] have i: "invar s'" .
  then obtain s'' where d: "dealloc (At x) s' = Some s''" and "invar s''"
    using dealloc_returns by blast
  moreover from malloc_live [OF assms] dealloc_live [OF i d] have "live s'' = live s" by auto
  ultimately show ?thesis by blast
qed

lemma dealloc_twice:
  assumes "invar s" and "dealloc p s = Some s'"
  shows "\<exists>s''. dealloc p s' = Some s'' \<and> live s'' = live s'"
proof -
  from dealloc_invar [OF assms] have i: "invar s'" .
  then obtain s'' where "dealloc p s' = Some s''" using dealloc_returns by blast
  with dealloc_live [OF i this] dealloc_live [OF assms] show ?thesis
    by (cases p) auto
qed

end

definition live_size :: "mem \<Rightarrow> int \<Rightarrow> nat option" where
  "live_size st x = (case find_block (hdr st) (first st) x of
     Some (At a) \<Rightarrow> if free (hdr st a) then None else Some (bsize (hdr st a))
   | _ \<Rightarrow> None)"

definition heap_ok :: "mem \<Rightarrow> bool" where
  "heap_ok st \<longleftrightarrow> (\<exists>cs. heap_inv st cs)"

lemma live_size_cell:
  assumes "heap_inv st cs"
  shows "live_size st x = Some n \<longleftrightarrow> find_cell (x - int SIZEOF_BLOCK) 0 cs = Some (n, False)"
proof -
  have ch: "chain (hdr st) NULL 0 cs" and "first st = link 0 cs"
    using assms by (simp_all add: heap_inv_def)
  then show ?thesis
    using chain_find_cell [OF ch, of "x - int SIZEOF_BLOCK"]
    by (cases "find_cell (x - int SIZEOF_BLOCK) 0 cs")
      (auto simp: live_size_def find_block_chain)
qed

lemma live_size_eqI:
  "(\<And>x n. f x = Some n \<longleftrightarrow> g x = Some (n::nat)) \<Longrightarrow> f = g"
  by (rule ext) (metis not_None_eq)

lemma find_cell_alloc_rev:
  "fit_at w a xs = Some b \<Longrightarrow> find_cell c a (alloc w xs) = Some (n, False) \<Longrightarrow> c \<noteq> b \<Longrightarrow>
     find_cell c a xs = Some (n, False)"
proof (induction w a xs rule: fit_at.induct)
  case (2 w a s f xs)
  have e: "after (after a w) (s - w - SIZEOF_BLOCK) = after a s"
    if "w + SIZEOF_BLOCK + MIN_PAYLOAD \<le> s"
    using that by (simp add: heap_consts)
  show ?case
  proof (cases "f \<and> w \<le> s")
    case True
    with 2(2-) e show ?thesis by (auto split: if_splits simp: ac_simps)
  next
    case False
    with 2 show ?thesis by (auto split: if_splits)
  qed
qed simp

lemma fit_at_not_live:
  "fit_at w a xs = Some b \<Longrightarrow> \<exists>s. find_cell b a xs = Some (s, True)"
proof (induction w a xs rule: fit_at.induct)
  case (2 w a s f xs)
  show ?case
  proof (cases "f \<and> w \<le> s")
    case False
    with 2 have fa: "fit_at w (after a s) xs = Some b" by (simp split: if_splits)
    from fit_at_ge [OF fa] have "b \<noteq> a" by (simp add: heap_consts)
    with 2 False fa show ?thesis by auto
  qed (use 2 in auto)
qed simp

lemma find_cell_coalesce_rev:
  "find_cell c a (coalesce xs) = Some (n, False) \<Longrightarrow> find_cell c a xs = Some (n, False)"
proof (cases xs rule: coalesce.cases)
  case (1 s t zs)
  assume "find_cell c a (coalesce xs) = Some (n, False)"
  with 1 have "find_cell c (after (after a s) t) zs = Some (n, False)" and "c \<noteq> a"
    by (auto split: if_splits simp: ac_simps)
  moreover from find_cell_ge [OF this(1)] have "c \<noteq> after a s" by (simp add: heap_consts)
  ultimately show ?thesis using 1 by simp
qed auto

lemma find_cell_release_rev:
  "find_cell c a (release b a xs) = Some (n, False) \<Longrightarrow> c \<noteq> b \<and> find_cell c a xs = Some (n, False)"
proof (induction b a xs rule: release.induct)
  case (2 b a s f xs)
  show ?case
  proof (cases "b = a")
    case True
    with find_cell_coalesce_rev [of c a "(s, True) # xs"] 2 show ?thesis
      by (auto split: if_splits)
  next
    case False
    with find_cell_coalesce_rev [of c a "(s, f) # release b (after a s) xs"] 2 show ?thesis
      by (auto split: if_splits)
  qed
qed simp

lemma live_size_kmalloc:
  assumes inv: "heap_inv st cs" and k: "kmalloc sz st = Some (At x, st')"
  shows "live_size st x = None \<and> (\<exists>k\<ge>sz. live_size st' = (live_size st)(x \<mapsto> k))"
proof -
  have sz: "sz \<noteq> 0" "align_up sz \<noteq> 0" and "fit_at (align_up sz) 0 cs \<noteq> None"
    using kmalloc_fails [OF inv, of sz] k by fastforce+
  then obtain b where fit: "fit_at (align_up sz) 0 cs = Some b" by auto
  obtain st2 where k2: "kmalloc sz st = Some (At (b + int SIZEOF_BLOCK), st2)"
    and inv2: "heap_inv st2 (alloc (align_up sz) cs)"
    using kmalloc_step [OF inv fit sz] by metis
  have x: "x - int SIZEOF_BLOCK = b" and inv': "heap_inv st' (alloc (align_up sz) cs)"
    using k k2 inv2 by auto
  from used_of_alloc [OF fit] obtain k
    where fb: "find_cell b 0 (alloc (align_up sz) cs) = Some (k, False)" and k: "align_up sz \<le> k"
    by auto
  have "live_size st' = (live_size st)(x \<mapsto> k)"
  proof (rule live_size_eqI)
    fix y n
    show "live_size st' y = Some n \<longleftrightarrow> ((live_size st)(x \<mapsto> k)) y = Some n"
      using find_cell_alloc_rev [OF fit, of "y - int SIZEOF_BLOCK" n]
        find_cell_alloc [of "y - int SIZEOF_BLOCK" 0 cs n] fb x
      by (auto simp: live_size_cell [OF inv] live_size_cell [OF inv'])
  qed
  moreover have "live_size st x = None"
  proof (cases "live_size st x")
    case (Some k)
    then have "find_cell b 0 cs = Some (k, False)" using live_size_cell [OF inv] x by simp
    with fit_at_not_live [OF fit] show ?thesis by simp
  qed
  ultimately show ?thesis
    using align_up_good [OF sz] k by (intro conjI exI [of _ k]) auto
qed

lemma live_size_kfree:
  assumes inv: "heap_inv st cs" and k: "kfree p st = Some st'"
  shows "live_size st' = (case p of NULL \<Rightarrow> live_size st | At x \<Rightarrow> (live_size st)(x := None))"
proof (cases p)
  case NULL
  with k show ?thesis by (simp add: kfree_def)
next
  case (At x)
  show ?thesis
  proof (cases "\<exists>s. find_cell (x - int SIZEOF_BLOCK) 0 cs = Some (s, False)")
    case True
    then obtain s where fc: "find_cell (x - int SIZEOF_BLOCK) 0 cs = Some (s, False)" ..
    obtain st2 where "kfree (At x) st = Some st2"
      and "heap_inv st2 (release (x - int SIZEOF_BLOCK) 0 cs)"
      using kfree_step [OF inv fc] by metis
    with k At have inv': "heap_inv st' (release (x - int SIZEOF_BLOCK) 0 cs)" by simp
    have "live_size st' = (live_size st)(x := None)"
    proof (rule live_size_eqI)
      fix y n
      show "live_size st' y = Some n \<longleftrightarrow> ((live_size st)(x := None)) y = Some n"
        using find_cell_release_rev [of "y - int SIZEOF_BLOCK" 0 "x - int SIZEOF_BLOCK" cs n]
          find_cell_release [of "y - int SIZEOF_BLOCK" 0 cs n "x - int SIZEOF_BLOCK"]
        by (auto simp: live_size_cell [OF inv] live_size_cell [OF inv'])
    qed
    with At show ?thesis by simp
  next
    case False
    with kfree_ignores [OF inv, of p] At k have "st' = st" by auto
    moreover have "live_size st x = None"
      using False live_size_cell [OF inv, of x] by (cases "live_size st x") auto
    ultimately show ?thesis using At by auto
  qed
qed

interpretation heap: block_allocator kmalloc kfree heap_ok live_size
proof
  fix s n
  assume "heap_ok s"
  then obtain cs where inv: "heap_inv s cs" by (auto simp: heap_ok_def)
  show "\<exists>r s'. kmalloc n s = Some (r, s') \<and> heap_ok s'"
  proof (cases "n = 0 \<or> align_up n = 0 \<or> fit_at (align_up n) 0 cs = None")
    case True
    with kmalloc_fails [OF inv] inv show ?thesis by (auto simp: heap_ok_def)
  next
    case False
    then obtain b where "fit_at (align_up n) 0 cs = Some b" "n \<noteq> 0" "align_up n \<noteq> 0" by auto
    from kmalloc_step [OF inv this] obtain b' s2
      where "kmalloc n s = Some (At b', s2)" "heap_inv s2 (alloc (align_up n) cs)" by metis
    then show ?thesis by (auto simp: heap_ok_def)
  qed
next
  fix s n s'
  assume "heap_ok s" and k: "kmalloc n s = Some (NULL, s')"
  then obtain cs where inv: "heap_inv s cs" by (auto simp: heap_ok_def)
  show "s' = s"
  proof (cases "n = 0 \<or> align_up n = 0 \<or> fit_at (align_up n) 0 cs = None")
    case True
    with kmalloc_fails [OF inv] k show ?thesis by auto
  next
    case False
    then obtain b where "fit_at (align_up n) 0 cs = Some b" "n \<noteq> 0" "align_up n \<noteq> 0" by auto
    from kmalloc_step [OF inv this] obtain b' s2 where "kmalloc n s = Some (At b', s2)" by metis
    with k show ?thesis by simp
  qed
next
  fix s n x s'
  assume "heap_ok s" and "kmalloc n s = Some (At x, s')"
  then show "live_size s x = None \<and> (\<exists>k\<ge>n. live_size s' = (live_size s)(x \<mapsto> k))"
    using live_size_kmalloc by (auto simp: heap_ok_def)
next
  fix s p
  assume "heap_ok s"
  then obtain cs where inv: "heap_inv s cs" by (auto simp: heap_ok_def)
  show "\<exists>s'. kfree p s = Some s' \<and> heap_ok s'"
  proof (cases "\<exists>x k. p = At x \<and> find_cell (x - int SIZEOF_BLOCK) 0 cs = Some (k, False)")
    case True
    then obtain x k where p: "p = At x" and fc: "find_cell (x - int SIZEOF_BLOCK) 0 cs = Some (k, False)"
      by auto
    from kfree_step [OF inv fc] obtain s2
      where "kfree p s = Some s2" "heap_inv s2 (release (x - int SIZEOF_BLOCK) 0 cs)"
      unfolding p by metis
    then show ?thesis by (auto simp: heap_ok_def)
  next
    case False
    then have "kfree p s = Some s" using kfree_ignores [OF inv] by (cases p) auto
    with inv show ?thesis by (auto simp: heap_ok_def)
  qed
next
  fix s p s'
  assume "heap_ok s" and "kfree p s = Some s'"
  then show "live_size s' = (case p of NULL \<Rightarrow> live_size s | At x \<Rightarrow> (live_size s)(x := None))"
    using live_size_kfree by (auto simp: heap_ok_def)
next
  fix s x m y n
  assume "heap_ok s" and l: "live_size s x = Some m" "live_size s y = Some n" and "x < y"
  then obtain cs where inv: "heap_inv s cs" by (auto simp: heap_ok_def)
  from find_cell_disjoint [OF l [unfolded live_size_cell [OF inv]]] \<open>x < y\<close>
  show "x + int m < y" by (simp add: SIZEOF_BLOCK_def)
qed

section \<open>Reachable heaps\<close>

text \<open>
  The heaps the kernel can get to: \<open>memory_init\<close> on any boot information, then calls of the
  allocator with arbitrary arguments and stores into live payloads.
\<close>

inductive heap_reachable :: "mem \<Rightarrow> bool" where
  init: "memory_init m address st0 = Some st \<Longrightarrow> heap_reachable st"
| malloc: "heap_reachable st \<Longrightarrow> kmalloc n st = Some (p, st') \<Longrightarrow> heap_reachable st'"
| dealloc: "heap_reachable st \<Longrightarrow> kfree p st = Some st' \<Longrightarrow> heap_reachable st'"
| calloc: "heap_reachable st \<Longrightarrow> kcalloc c n st = Some (p, st') \<Longrightarrow> heap_reachable st'"
| realloc: "heap_reachable st \<Longrightarrow> krealloc q n st = Some (p, st') \<Longrightarrow> heap_reachable st'"
| store: "heap_reachable st \<Longrightarrow> live_size st x = Some n \<Longrightarrow> x \<le> y \<Longrightarrow> y < x + int n \<Longrightarrow>
    heap_reachable (st\<lparr>payload := (payload st)(y := v)\<rparr>)"

lemma heap_setup_ok: "heap_ok (heap_setup available st)"
proof -
  let ?hb = "heap_bytes (heap_setup available st)"
  have hb: "?hb \<le> HEAP_MAX_BYTES" and al: "16 dvd ?hb"
    by (auto simp: heap_setup_def Let_def heap_consts)
  show ?thesis
  proof (cases "?hb \<le> SIZEOF_BLOCK + MIN_PAYLOAD")
    case True
    then have "first (heap_setup available st) = NULL" "used (heap_setup available st) = 0"
      "allocations (heap_setup available st) = 0"
      by (auto simp: heap_setup_def Let_def split: if_splits)
    with hb have "heap_inv (heap_setup available st) []" by (simp add: heap_inv_def)
    then show ?thesis by (auto simp: heap_ok_def)
  next
    case False
    then have "first (heap_setup available st) = At 0" "used (heap_setup available st) = 0"
      "allocations (heap_setup available st) = 0"
      "hdr (heap_setup available st) 0 = \<lparr>magic = BLOCK_MAGIC, bsize = ?hb - SIZEOF_BLOCK,
         previous = NULL, nxt = NULL, free = True\<rparr>"
      by (auto simp: heap_setup_def Let_def split: if_splits)
    moreover have "good_size (?hb - SIZEOF_BLOCK, True)"
      using False al by (simp add: good_size_def heap_consts)
    ultimately have "heap_inv (heap_setup available st) [(?hb - SIZEOF_BLOCK, True)]"
      using hb False by (simp add: heap_inv_def)
    then show ?thesis by (auto simp: heap_ok_def)
  qed
qed

lemma memory_init_ok: "memory_init m a st0 = Some st \<Longrightarrow> heap_ok st"
  by (auto simp: memory_init_def heap_setup_ok split: bind_splits if_splits)

lemma payload_irrelevant [simp]:
  "heap_ok (st\<lparr>payload := q\<rparr>) = heap_ok st"
  "live_size (st\<lparr>payload := q\<rparr>) = live_size st"
  by (auto simp: heap_ok_def heap_inv_def live_size_def fun_eq_iff split: option.split ptr.split)

lemma kmalloc_payload: "kmalloc n st = Some (p, st') \<Longrightarrow> payload st' = payload st"
  by (cases "first_fit (hdr st) (first st) (align_up n)") (auto simp: kmalloc_def Let_def split: if_splits ptr.split_asm)

lemma kfree_payload: "kfree p st = Some st' \<Longrightarrow> payload st' = payload st"
  by (cases p; cases "find_block (hdr st) (first st) (THE x. p = At x)")
    (auto simp: kfree_def Let_def split: if_splits ptr.split_asm)

lemma kmalloc_heap_bytes: "kmalloc n st = Some (p, st') \<Longrightarrow> heap_bytes st' = heap_bytes st"
  by (cases "first_fit (hdr st) (first st) (align_up n)") (auto simp: kmalloc_def Let_def split: if_splits ptr.split_asm)

lemma kcalloc_ok:
  assumes "heap_ok st"
  shows "\<exists>p st'. kcalloc c n st = Some (p, st') \<and> heap_ok st'"
  using heap.malloc_returns [OF assms, of "(c * n) mod 2 ^ 64"] assms
  by (fastforce simp: kcalloc_def Let_def split: ptr.splits)

lemma krealloc_ok:
  assumes ok: "heap_ok st"
  shows "\<exists>p st'. krealloc q n st = Some (p, st') \<and> heap_ok st'"
proof (cases q)
  case NULL
  with heap.malloc_returns [OF ok] show ?thesis by (simp add: krealloc_def)
next
  case (At x)
  obtain cs where inv: "heap_inv st cs" using ok by (auto simp: heap_ok_def)
  then obtain b where b: "find_block (hdr st) (first st) x = Some b"
    using find_block_chain [of "hdr st" NULL 0 cs x] by (simp add: heap_inv_def)
  obtain r st1 where m: "kmalloc n st = Some (r, st1)" and ok1: "heap_ok st1"
    using heap.malloc_returns [OF ok] by blast
  obtain st2 where "kfree q st = Some st2" and "heap_ok st2"
    using heap.dealloc_returns [OF ok] by blast
  moreover have "\<exists>st3. kfree q (st1\<lparr>payload := g\<rparr>) = Some st3 \<and> heap_ok st3" for g
    using heap.dealloc_returns [of "st1\<lparr>payload := g\<rparr>" q] ok1 by simp
  ultimately show ?thesis using At b m ok ok1
    by (fastforce simp: krealloc_def Let_def split: ptr.splits)
qed

lemma heap_reachable_ok: "heap_reachable st \<Longrightarrow> heap_ok st"
proof (induction rule: heap_reachable.induct)
  case (calloc st c n p st')
  with kcalloc_ok [of st c n] show ?case by auto
next
  case (realloc st q n p st')
  with krealloc_ok [of st q n] show ?case by auto
qed (auto intro: memory_init_ok heap.malloc_invar heap.dealloc_invar)

lemma live_layout:
  assumes "heap_ok st" and "live_size st x = Some n"
  shows "16 dvd x \<and> int SIZEOF_BLOCK \<le> x \<and> x + int n \<le> int (heap_bytes st)"
proof -
  obtain cs where inv: "heap_inv st cs" using assms(1) by (auto simp: heap_ok_def)
  then have fc: "find_cell (x - int SIZEOF_BLOCK) 0 cs = Some (n, False)"
    using assms(2) live_size_cell by simp
  then have "cs \<noteq> []" by auto
  with inv have "extent cs = heap_bytes st" and gs: "list_all good_size cs"
    by (auto simp: heap_inv_def)
  moreover from find_cell_aligned [OF fc gs] have "16 dvd x - 48" by (simp add: SIZEOF_BLOCK_def)
  then have "16 dvd x" by presburger
  ultimately show ?thesis using find_cell_in [OF fc] by (simp add: SIZEOF_BLOCK_def)
qed

lemma live_headers:
  assumes "heap_ok st" and "live_size st x = Some m" and "live_size st y = Some n" and "x < y"
  shows "x + int m + int SIZEOF_BLOCK \<le> y"
proof -
  obtain cs where inv: "heap_inv st cs" using assms(1) by (auto simp: heap_ok_def)
  from find_cell_disjoint [OF assms(2,3) [unfolded live_size_cell [OF inv]]] assms(4)
  show ?thesis by simp
qed

lemma live_headerD:
  assumes "heap_ok st" and "live_size st x = Some n"
  shows "find_block (hdr st) (first st) x = Some (At (x - int SIZEOF_BLOCK)) \<and>
    bsize (hdr st (x - int SIZEOF_BLOCK)) = n \<and> \<not> free (hdr st (x - int SIZEOF_BLOCK)) \<and>
    magic (hdr st (x - int SIZEOF_BLOCK)) = BLOCK_MAGIC"
proof -
  obtain cs where inv: "heap_inv st cs" using assms(1) by (auto simp: heap_ok_def)
  then have fc: "find_cell (x - int SIZEOF_BLOCK) 0 cs = Some (n, False)"
    and ch: "chain (hdr st) NULL 0 cs" and "first st = link 0 cs"
    using assms(2) live_size_cell by (auto simp: heap_inv_def)
  with chain_find_cell [OF ch fc] show ?thesis by (simp add: find_block_chain)
qed

lemma copy_bytes_nth:
  assumes "x + int n \<le> y \<or> y + int n \<le> x"
  shows "copy_bytes n y x p z = (if y \<le> z \<and> z < y + int n then p (x + (z - y)) else p z)"
proof -
  have "k \<le> n \<Longrightarrow> copy_bytes k y x p z = (if y \<le> z \<and> z < y + int k then p (x + (z - y)) else p z)"
    for k z
    by (induction k arbitrary: z) (use assms in \<open>auto simp: Let_def\<close>)
  then show ?thesis by simp
qed

text \<open>The heap after a boot without Multiboot information: one free block of the whole array.\<close>

definition boot_heap :: mem where
  "boot_heap = heap_setup 0 \<lparr>total_kib = 0, heap_bytes = 0, used = 0, allocations = 0,
     first = NULL, hdr = (\<lambda>_. \<lparr>magic = 0, bsize = 0, previous = NULL, nxt = NULL, free = False\<rparr>),
     payload = (\<lambda>_. 7)\<rparr>"

lemma boot_heap_inv: "heap_inv boot_heap [(2097104, True)]"
  by (simp add: boot_heap_def heap_setup_def Let_def heap_inv_def good_size_def heap_consts)

lemma boot_heap_reachable: "heap_reachable boot_heap"
proof (rule heap_reachable.init)
  show "memory_init (\<lambda>_. 0) 0 \<lparr>total_kib = 0, heap_bytes = 0, used = 0, allocations = 0,
     first = NULL, hdr = (\<lambda>_. \<lparr>magic = 0, bsize = 0, previous = NULL, nxt = NULL, free = False\<rparr>),
     payload = (\<lambda>_. 7)\<rparr> = Some boot_heap"
    by (simp add: memory_init_def multiboot_available_bytes_def multiboot_basic_bytes_def boot_heap_def)
qed

lemma boot_kmalloc:
  "\<exists>st'. kmalloc 100 boot_heap = Some (At 48, st') \<and>
     heap_inv st' [(112, False), (2096944, True)] \<and> live_size st' 48 = Some 112"
proof -
  have a: "align_up 100 = 112" by (simp add: align_up_def ALIGNMENT_def)
  then have f: "fit_at (align_up 100) 0 [(2097104, True)] = Some 0" by simp
  from a have n: "align_up 100 \<noteq> 0" by simp
  from kmalloc_step [OF boot_heap_inv f _ n] obtain st'
    where k: "kmalloc 100 boot_heap = Some (At 48, st')"
      and i: "heap_inv st' (alloc (align_up 100) [(2097104, True)])"
    by (auto simp: SIZEOF_BLOCK_def)
  from i have i': "heap_inv st' [(112, False), (2096944, True)]"
    by (simp add: a heap_consts)
  with k live_size_cell [OF i', of 48 112] show ?thesis by (simp add: SIZEOF_BLOCK_def)
qed

section \<open>Properties\<close>

text \<open>C1: In every reachable heap a successful \<open>kmalloc\<close> returns a 16-byte aligned payload inside
  the heap array with room for the requested size, every allocation that was live stays live with
  its size, and between the new payload and any other one there is room for a block header, so
  neither payloads nor headers overlap.\<close>

theorem kmalloc_safe:
  assumes "heap_reachable st" and "kmalloc n st = Some (At x, st')"
  shows "\<exists>k\<ge>n. live_size st' x = Some k \<and> 16 dvd x \<and> int SIZEOF_BLOCK \<le> x \<and>
    x + int k \<le> int (heap_bytes st) \<and>
    (\<forall>y m. live_size st y = Some m \<longrightarrow> live_size st' y = Some m \<and>
      (x + int k + int SIZEOF_BLOCK \<le> y \<or> y + int m + int SIZEOF_BLOCK \<le> x))"
proof -
  from assms(1) have ok: "heap_ok st" by (rule heap_reachable_ok)
  from heap.malloc_invar [OF this assms(2)] have ok': "heap_ok st'" .
  from heap.malloc_live [OF ok assms(2)] obtain k
    where x: "live_size st x = None" and k: "n \<le> k" and l: "live_size st' = (live_size st)(x \<mapsto> k)"
    by auto
  have "live_size st' y = Some m \<and>
      (x + int k + int SIZEOF_BLOCK \<le> y \<or> y + int m + int SIZEOF_BLOCK \<le> x)"
    if y: "live_size st y = Some m" for y m
  proof -
    from x y have "x \<noteq> y" by auto
    with l y have "live_size st' y = Some m" by auto
    with live_headers [OF ok', of x k y m] live_headers [OF ok', of y m x k] l \<open>x \<noteq> y\<close>
    show ?thesis by (cases "x < y") auto
  qed
  with k l live_layout [OF ok', of x k] kmalloc_heap_bytes [OF assms(2)] show ?thesis
    by (intro exI [of _ k]) simp
qed

theorem kmalloc_safe_witness:
  "\<exists>st' k. kmalloc 100 boot_heap = Some (At 48, st') \<and> live_size st' 48 = Some k \<and> 100 \<le> k \<and>
     48 + int k \<le> int (heap_bytes boot_heap)"
proof -
  from boot_kmalloc obtain st' where k: "kmalloc 100 boot_heap = Some (At 48, st')" by blast
  from kmalloc_safe [OF boot_heap_reachable k] k show ?thesis by auto
qed

text \<open>C2: On a heap that represents the block list \<open>cs\<close>, \<open>kmalloc\<close> implements first fit: it
  takes the first free block that is large enough, splitting off a remainder when that leaves room
  for a header and a minimal payload, and returns null with the heap unchanged exactly when the
  request is empty, overflows the rounding, or no free block is large enough.\<close>

theorem kmalloc_refines:
  assumes "heap_inv st cs"
  shows "if n = 0 \<or> align_up n = 0 then kmalloc n st = Some (NULL, st)
    else case fit_at (align_up n) 0 cs of
        None \<Rightarrow> kmalloc n st = Some (NULL, st)
      | Some b \<Rightarrow> \<exists>st'. kmalloc n st = Some (At (b + int SIZEOF_BLOCK), st') \<and>
          heap_inv st' (alloc (align_up n) cs) \<and> payload st' = payload st"
proof (cases "n = 0 \<or> align_up n = 0 \<or> fit_at (align_up n) 0 cs = None")
  case True
  from kmalloc_fails [OF assms this] True show ?thesis by auto
next
  case False
  then obtain b where fit: "fit_at (align_up n) 0 cs = Some b" and sz: "n \<noteq> 0" "align_up n \<noteq> 0"
    by auto
  from kmalloc_step [OF assms this] obtain st'
    where "kmalloc n st = Some (At (b + int SIZEOF_BLOCK), st')"
      "heap_inv st' (alloc (align_up n) cs)" "payload st' = payload st" by metis
  with fit sz show ?thesis by simp
qed

theorem kmalloc_refines_witness:
  "\<exists>st'. kmalloc 100 boot_heap = Some (At 48, st') \<and>
     heap_inv st' [(112, False), (2096944, True)] \<and> payload st' = payload boot_heap"
  using kmalloc_refines [OF boot_heap_inv, of 100] by (simp add: align_up_def heap_consts)

text \<open>C3: \<open>kfree\<close> implements the release of the abstract heap, which merges the block with free
  neighbours on both sides; a null, wild or already freed pointer leaves the heap unchanged.\<close>

theorem kfree_refines:
  assumes "heap_inv st cs"
  shows "case p of NULL \<Rightarrow> kfree p st = Some st
    | At x \<Rightarrow> (case find_cell (x - int SIZEOF_BLOCK) 0 cs of
        Some (s, False) \<Rightarrow> (\<exists>st'. kfree p st = Some st' \<and>
          heap_inv st' (release (x - int SIZEOF_BLOCK) 0 cs) \<and> payload st' = payload st)
      | _ \<Rightarrow> kfree p st = Some st)"
proof (cases p)
  case NULL
  with kfree_ignores [OF assms] show ?thesis by simp
next
  case (At x)
  show ?thesis
  proof (cases "\<exists>s. find_cell (x - int SIZEOF_BLOCK) 0 cs = Some (s, False)")
    case True
    then obtain s where fc: "find_cell (x - int SIZEOF_BLOCK) 0 cs = Some (s, False)" ..
    from kfree_step [OF assms fc] obtain st' where "kfree (At x) st = Some st'"
      "heap_inv st' (release (x - int SIZEOF_BLOCK) 0 cs)" "payload st' = payload st" by metis
    with At fc show ?thesis by simp
  next
    case False
    with kfree_ignores [OF assms, of p] At have "kfree p st = Some st" by auto
    with At False show ?thesis by (auto split: option.split bool.split)
  qed
qed

theorem kfree_refines_witness:
  "\<exists>st st'. heap_inv st [(112, False), (2096944, True)] \<and> kfree (At 48) st = Some st' \<and>
     heap_inv st' [(2097104, True)]"
proof -
  from boot_kmalloc obtain st where i: "heap_inv st [(112, False), (2096944, True)]" by blast
  with kfree_refines [OF i, of "At 48"] show ?thesis
    by (auto simp: SIZEOF_BLOCK_def)
qed

text \<open>C5: Freeing what \<open>kmalloc\<close> just returned restores the block list exactly: the remainder
  that was split off is merged back, so the heap does not fragment.\<close>

theorem kmalloc_kfree_restores:
  assumes "heap_inv st cs" and "kmalloc n st = Some (At x, st1)"
  shows "\<exists>st2. kfree (At x) st1 = Some st2 \<and> heap_inv st2 cs"
proof -
  have "\<not> (n = 0 \<or> align_up n = 0 \<or> fit_at (align_up n) 0 cs = None)"
  proof
    assume "n = 0 \<or> align_up n = 0 \<or> fit_at (align_up n) 0 cs = None"
    from kmalloc_fails [OF assms(1) this] assms(2) show False by simp
  qed
  then obtain b where fit: "fit_at (align_up n) 0 cs = Some b" and sz: "n \<noteq> 0" "align_up n \<noteq> 0"
    by auto
  obtain st' where "kmalloc n st = Some (At (b + int SIZEOF_BLOCK), st')"
    "heap_inv st' (alloc (align_up n) cs)"
    using kmalloc_step [OF assms(1) fit sz] by metis
  with assms(2) have x: "x - int SIZEOF_BLOCK = b" and inv1: "heap_inv st1 (alloc (align_up n) cs)" by auto
  from used_of_alloc [OF fit] obtain s where "find_cell b 0 (alloc (align_up n) cs) = Some (s, False)"
    by auto
  with x have "find_cell (x - int SIZEOF_BLOCK) 0 (alloc (align_up n) cs) = Some (s, False)" by simp
  from kfree_step [OF inv1 this] obtain st2 where "kfree (At x) st1 = Some st2"
    "heap_inv st2 (release b 0 (alloc (align_up n) cs))" unfolding x by metis
  moreover have "no_adjacent_free cs" using assms(1) by (simp add: heap_inv_def)
  ultimately show ?thesis using release_alloc [OF _ fit] by auto
qed

theorem kmalloc_kfree_restores_witness:
  "\<exists>st1 st2. kmalloc 100 boot_heap = Some (At 48, st1) \<and> kfree (At 48) st1 = Some st2 \<and>
     heap_inv st2 [(2097104, True)]"
proof -
  from boot_kmalloc obtain st1 where k: "kmalloc 100 boot_heap = Some (At 48, st1)" by blast
  from kmalloc_kfree_restores [OF boot_heap_inv k] k show ?thesis by blast
qed

text \<open>C6: In every reachable heap all entry points return, for all arguments, wild pointers and
  double frees included: no list walk runs forever.\<close>

theorem heap_total:
  assumes "heap_reachable st"
  shows "kmalloc n st \<noteq> None \<and> kfree p st \<noteq> None \<and> kcalloc c n st \<noteq> None \<and>
    krealloc p n st \<noteq> None \<and> memory_free_bytes st \<noteq> None"
proof -
  from assms have ok: "heap_ok st" by (rule heap_reachable_ok)
  then obtain cs where inv: "heap_inv st cs" by (auto simp: heap_ok_def)
  then have "memory_free_bytes st \<noteq> None"
    using free_walk_chain [of "hdr st" NULL 0 cs 0]
    by (cases "cs = []") (auto simp: memory_free_bytes_def heap_inv_def heap_consts)
  with heap.malloc_returns [OF ok, of n] heap.dealloc_returns [OF ok, of p] kcalloc_ok [OF ok, of c n]
    krealloc_ok [OF ok, of p n]
  show ?thesis by auto
qed

theorem heap_total_witness: "kfree (At 5) boot_heap \<noteq> None \<and> krealloc (At 48) 9 boot_heap \<noteq> None"
  using heap_total [OF boot_heap_reachable, of 9 "At 5" 0] heap_total [OF boot_heap_reachable, of 9 "At 48" 0]
  by blast

text \<open>C7: The statistics of a reachable heap are exact: \<open>used\<close> and \<open>allocations\<close> count the
  live blocks, and used bytes, free bytes and headers add up to the heap size.\<close>

theorem heap_accounting:
  assumes "heap_reachable st" and "first st \<noteq> NULL"
  shows "\<exists>cs. heap_inv st cs \<and> memory_used_bytes st = used_of cs \<and>
    memory_allocation_count st = live_count cs \<and> memory_free_bytes st = Some (free_of cs) \<and>
    used_of cs + free_of cs + SIZEOF_BLOCK * length cs = heap_bytes st"
proof -
  from heap_reachable_ok [OF assms(1)] obtain cs where inv: "heap_inv st cs"
    by (auto simp: heap_ok_def)
  with assms(2) have ne: "cs \<noteq> []" by (auto simp: heap_inv_def)
  with inv have "memory_free_bytes st = Some (free_of cs)"
    using free_walk_chain [of "hdr st" NULL 0 cs 0]
    by (simp add: memory_free_bytes_def heap_inv_def heap_consts)
  moreover from inv ne have "extent cs = heap_bytes st" by (simp add: heap_inv_def)
  ultimately show ?thesis
    using inv used_plus_free [of cs] by (intro exI [of _ cs])
      (auto simp: memory_used_bytes_def memory_allocation_count_def heap_inv_def)
qed

theorem heap_accounting_witness:
  "\<exists>cs. heap_inv boot_heap cs \<and> memory_free_bytes boot_heap = Some (free_of cs) \<and>
     used_of cs + free_of cs + SIZEOF_BLOCK * length cs = HEAP_MAX_BYTES"
proof -
  have "first boot_heap \<noteq> NULL" "heap_bytes boot_heap = HEAP_MAX_BYTES"
    by (simp_all add: boot_heap_def heap_setup_def Let_def heap_consts)
  with heap_accounting [OF boot_heap_reachable] show ?thesis by auto
qed

lemma krealloc_cases:
  assumes ok: "heap_ok st" and l: "live_size st x = Some k" and "n \<noteq> 0"
  shows "krealloc (At x) n st = (if n \<le> k then Some (At x, st)
    else Option.bind (kmalloc n st) (\<lambda>(r, st1). case r of NULL \<Rightarrow> Some (NULL, st1)
      | At y \<Rightarrow> map_option (\<lambda>st3. (At y, st3))
          (kfree (At x) (st1\<lparr>payload := copy_bytes k y x (payload st1)\<rparr>))))"
proof -
  obtain r st1 where m: "kmalloc n st = Some (r, st1)" using heap.malloc_returns [OF ok] by blast
  have "bsize (hdr st1 (x - int SIZEOF_BLOCK)) = k" if "r = At y" for y
  proof -
    from m that have m': "kmalloc n st = Some (At y, st1)" by simp
    from live_headerD [OF heap.malloc_invar [OF ok m']] heap.malloc_fresh [OF ok m' l]
    show ?thesis by simp
  qed
  with live_headerD [OF ok l] assms(3) m show ?thesis
    by (cases r) (simp_all add: krealloc_def Let_def)
qed

text \<open>C4: Growing a live allocation with \<open>krealloc\<close> either fails with the heap unchanged, or
  returns a live allocation of at least the new size that starts with the old contents, releases the
  old one, and leaves the size and the bytes of every other live allocation alone. A request that
  fits returns the same pointer and changes nothing.\<close>

theorem krealloc_preserves:
  assumes "heap_reachable st" and "live_size st x = Some k" and "n \<noteq> 0"
    and "krealloc (At x) n st = Some (p, st')"
  shows "case p of NULL \<Rightarrow> st' = st | At y \<Rightarrow>
    if n \<le> k then y = x \<and> st' = st
    else live_size st' x = None \<and> (\<exists>m\<ge>n. live_size st' y = Some m) \<and>
      (\<forall>i<k. payload st' (y + int i) = payload st (x + int i)) \<and>
      (\<forall>z m. z \<noteq> x \<longrightarrow> live_size st z = Some m \<longrightarrow> live_size st' z = Some m \<and>
         (\<forall>i<m. payload st' (z + int i) = payload st (z + int i)))"
proof (cases "n \<le> k")
  case True
  with krealloc_cases [OF heap_reachable_ok [OF assms(1)] assms(2,3)] assms(4) show ?thesis
    by auto
next
  case False
  have ok: "heap_ok st" by (rule heap_reachable_ok [OF assms(1)])
  obtain r st1 where m: "kmalloc n st = Some (r, st1)" using heap.malloc_returns [OF ok] by blast
  note kr = krealloc_cases [OF ok assms(2,3)]
  show ?thesis
  proof (cases r)
    case NULL
    with m kr False assms(4) heap.malloc_null [OF ok] show ?thesis by auto
  next
    case (At y)
    let ?st2 = "st1\<lparr>payload := copy_bytes k y x (payload st1)\<rparr>"
    from m At kr False assms(4) have "map_option (Pair (At y)) (kfree (At x) ?st2) = Some (p, st')"
      by simp
    then have p: "p = At y" and fr: "kfree (At x) ?st2 = Some st'" by auto
    note m = m [unfolded At]
    from heap.malloc_invar [OF ok m] have ok2: "heap_ok ?st2" by simp
    from heap.malloc_live [OF ok m] obtain q
      where q: "n \<le> q" and l1: "live_size st1 = (live_size st)(y \<mapsto> q)" by auto
    have l': "live_size st' = (live_size st1)(x := None)"
      using heap.dealloc_live [OF ok2 fr] by simp
    have pl: "payload st' = copy_bytes k y x (payload st)"
      using kfree_payload [OF fr] kmalloc_payload [OF m] by simp
    have sep: "y \<noteq> z \<and> (y + int q < z \<or> z + int w < y)" if "live_size st z = Some w" for z w
      using heap.malloc_fresh [OF ok m that] l1
        heap.live_separate [OF heap.malloc_invar [OF ok m], of y q z w]
        heap.live_separate [OF heap.malloc_invar [OF ok m], of z w y q] that
      by (cases "y < z") auto
    from sep [OF assms(2)] False q have cp: "x + int k \<le> y \<or> y + int k \<le> x" by auto
    have "payload st' (z + int i) = payload st (z + int i)"
      if "live_size st z = Some w" "i < w" for z w i
      using sep [OF that(1)] that(2) False q by (auto simp: pl copy_bytes_nth [OF cp])
    moreover have "payload st' (y + int i) = payload st (x + int i)" if "i < k" for i
      using that by (simp add: pl copy_bytes_nth [OF cp])
    moreover have "live_size st' x = None" "live_size st' y = Some q"
      using l' l1 sep [OF assms(2)] by auto
    moreover have "live_size st' z = Some w" if "z \<noteq> x" "live_size st z = Some w" for z w
      using l' l1 sep [OF that(2)] that by simp
    ultimately show ?thesis
      using p False q by simp
  qed
qed

theorem krealloc_preserves_witness:
  "\<exists>st1 st' y. kmalloc 100 boot_heap = Some (At 48, st1) \<and>
     krealloc (At 48) 200 st1 = Some (At y, st') \<and> y \<noteq> 48 \<and>
     (\<forall>i<112. payload st' (y + int i) = payload st1 (48 + int i))"
proof -
  from boot_kmalloc obtain st1 where k: "kmalloc 100 boot_heap = Some (At 48, st1)"
    and i: "heap_inv st1 [(112, False), (2096944, True)]" and l: "live_size st1 48 = Some 112" by blast
  have r: "heap_reachable st1" by (rule heap_reachable.malloc [OF boot_heap_reachable k])
  have ok: "heap_ok st1" by (rule heap_reachable_ok [OF r])
  have "fit_at (align_up 200) 0 [(112, False), (2096944, True)] = Some 160"
    by (simp add: align_up_def heap_consts)
  from kmalloc_step [OF i this] obtain st2 where k2: "kmalloc 200 st1 = Some (At 208, st2)"
    by (auto simp: align_up_def heap_consts)
  from heap.dealloc_returns [of "st2\<lparr>payload := copy_bytes 112 208 48 (payload st2)\<rparr>"]
    heap.malloc_invar [OF ok k2] obtain st3
    where "kfree (At 48) (st2\<lparr>payload := copy_bytes 112 208 48 (payload st2)\<rparr>) = Some st3" by auto
  with krealloc_cases [OF ok l, of 200] k2 have kr: "krealloc (At 48) 200 st1 = Some (At 208, st3)" by simp
  from krealloc_preserves [OF r l _ kr] k kr show ?thesis by auto
qed

text \<open>C8: \<open>kcalloc\<close> refuses a product that does not fit in a \<open>size_t\<close>; otherwise it allocates
  exactly the product and every byte of it is zero, and the bytes of the other live allocations are
  kept.\<close>

theorem kcalloc_zeroes:
  assumes "heap_reachable st" and "kcalloc c n st = Some (p, st')"
  shows "case p of NULL \<Rightarrow> st' = st | At x \<Rightarrow>
    c * n < 2 ^ 64 \<and> (\<exists>k\<ge>c * n. live_size st' x = Some k) \<and>
    (\<forall>i<c * n. payload st' (x + int i) = 0) \<and>
    (\<forall>z m. live_size st z = Some m \<longrightarrow> live_size st' z = Some m \<and>
       (\<forall>i<m. payload st' (z + int i) = payload st (z + int i)))"
proof -
  have ok: "heap_ok st" by (rule heap_reachable_ok [OF assms(1)])
  show ?thesis
  proof (cases "n \<noteq> 0 \<and> c > (2 ^ 64 - 1) div n")
    case True
    with assms(2) show ?thesis by (auto simp: kcalloc_def)
  next
    case False
    then have "n = 0 \<or> c * n \<le> 2 ^ 64 - 1"
      by (metis linorder_not_less mult_le_mono1 div_times_less_eq_dividend order.trans)
    then have fits: "c * n < 2 ^ 64" by auto
    then have md: "(c * n) mod 2 ^ 64 = c * n" by simp
    obtain r st1 where m: "kmalloc (c * n) st = Some (r, st1)"
      using heap.malloc_returns [OF ok] by blast
    show ?thesis
    proof (cases r)
      case NULL
      with m False assms(2) heap.malloc_null [OF ok] show ?thesis
        unfolding kcalloc_def md by (auto simp: Let_def)
    next
      case (At x)
      with m False assms(2) have p: "p = At x" and st': "st' = st1\<lparr>payload :=
          (\<lambda>y. if x \<le> y \<and> y < x + int (c * n) then 0 else payload st1 y)\<rparr>"
        unfolding kcalloc_def md by (auto simp: Let_def)
      note m = m [unfolded At]
      have "payload st' (z + int i) = payload st (z + int i) \<and> live_size st' z = Some w"
        if "live_size st z = Some w" "i < w" for z w i
        using heap.malloc_fresh [OF ok m that(1)] that(2) kmalloc_payload [OF m]
        by (auto simp: st' simp del: of_nat_mult)
      moreover have "live_size st' z = Some w" if "live_size st z = Some w" for z w
        using heap.malloc_fresh [OF ok m that] by (simp add: st')
      moreover have "\<exists>k\<ge>c * n. live_size st' x = Some k"
        using heap.malloc_live [OF ok m] by (auto simp: st')
      ultimately show ?thesis
        using p fits by (auto simp: st' simp del: of_nat_mult)
    qed
  qed
qed

theorem kcalloc_zeroes_witness:
  "\<exists>st'. kcalloc 25 4 boot_heap = Some (At 48, st') \<and> (\<forall>i<100. payload st' (48 + int i) = 0)"
proof -
  from boot_kmalloc obtain st1 where k: "kmalloc 100 boot_heap = Some (At 48, st1)" by blast
  then obtain st' where kc: "kcalloc 25 4 boot_heap = Some (At 48, st')"
    by (simp add: kcalloc_def Let_def)
  from kcalloc_zeroes [OF boot_heap_reachable kc] kc show ?thesis by auto
qed

end
