(* ===== verification/Service.thy ===== *)
theory Service
  imports Log Allocator
begin

text \<open>
  The service manager, \<open>src/kernel/core/service.c\<close>, the compositor state of
  \<open>src/kernel/drivers/display/graphics.c\<close>, and the boot sequence that starts the services
  (\<open>start_boot_services\<close> in \<open>src/kernel/core/kernel.c\<close>).

  The manager polls ten services, each a view on another part of the kernel. The clock, the log, the
  heap and the console are the models of their theories; the disk, the accounts, the network and
  the initial file system are fields of the record \<open>sys_env\<close>. \<open>memory_free_bytes\<close> returns on every
  reachable heap (\<open>heap_total\<close> in theory \<open>Allocator\<close>). The results are an invariant of
  every sequence of operations and that the boot sequence brings up every service.
\<close>

section \<open>State\<close>

datatype service_state_t = SERVICE_STOPPED | SERVICE_STARTING | SERVICE_READY | SERVICE_FAILED

record service =
  sv_name :: string
  description :: string
  dependency :: int
  state :: service_state_t
  exit_code :: int
  generation :: u64
  cycles :: u64
  errors :: u64
  metric :: u64

record 'w sys_env =
  clk :: "'w clock_env"
  prt :: "'w ports"
  fs_count :: nat
  disk_sync :: "'w \<Rightarrow> bool \<times> 'w"
  auth_user_count :: "'w \<Rightarrow> nat"
  network_init :: "'w \<Rightarrow> bool \<times> 'w"
  network_poll :: "'w \<Rightarrow> 'w"
  network_rx_packets :: "'w \<Rightarrow> u64"
  network_tx_packets :: "'w \<Rightarrow> u64"

record 'w sys =
  services :: "service list"
  gfx_active :: bool
  gfx_frames :: u64
  s_timed :: "'w timed"
  s_log :: logd
  s_mem :: mem
  s_display :: "'w display"

definition stopped :: "string \<Rightarrow> string \<Rightarrow> int \<Rightarrow> service" where
  "stopped n d dep = \<lparr>sv_name = n, description = d, dependency = dep, state = SERVICE_STOPPED, exit_code = 0,
     generation = 0, cycles = 0, errors = 0, metric = 0\<rparr>"

definition service_table :: "service list" where
  "service_table =
    [stopped ''fsd'' ''VFS and mount coordinator'' (-1),
     stopped ''memoryd'' ''memory accounting service'' (-1),
     stopped ''timed'' ''CMOS real-time clock service'' 1,
     stopped ''diskd'' ''disk synchronization service'' 0,
     stopped ''userd'' ''account database service'' 3,
     stopped ''acpid'' ''ACPI power and reboot service'' 2,
     stopped ''netd'' ''PCI Ethernet, ARP, IPv4 and ICMP'' 3,
     stopped ''displayd'' ''console display service'' 1,
     stopped ''graphicsd'' ''VGA framebuffer compositor'' 7,
     stopped ''logd'' ''kernel message logger'' 2]"

definition service_count :: nat where
  "service_count = length service_table"

section \<open>The compositor\<close>

definition graphics_init :: "'w sys \<Rightarrow> bool \<times> 'w sys" where
  "graphics_init s =
     (let a = initialized (s_display s) \<and> width (s_display s) \<noteq> 0 \<and> height (s_display s) \<noteq> 0
      in (a, s\<lparr>gfx_frames := 0, gfx_active := a\<rparr>))"

definition graphics_poll :: "'w sys \<Rightarrow> 'w sys" where
  "graphics_poll s = (if gfx_active s then s\<lparr>gfx_frames := gfx_frames s + 1\<rparr> else s)"

definition graphics_stop :: "'w sys \<Rightarrow> 'w sys" where
  "graphics_stop s = s\<lparr>gfx_active := False\<rparr>"

section \<open>Updating one service\<close>

definition upd :: "nat \<Rightarrow> (service \<Rightarrow> service) \<Rightarrow> 'w sys \<Rightarrow> 'w sys" where
  "upd i f s = s\<lparr>services := (services s)[i := f (services s ! i)]\<rparr>"

definition on_hw :: "('w \<Rightarrow> 'w) \<Rightarrow> 'w sys \<Rightarrow> 'w sys" where
  "on_hw f s = s\<lparr>s_timed := (s_timed s)\<lparr>t_hw := f (t_hw (s_timed s))\<rparr>\<rparr>"

abbreviation hwof :: "'w sys \<Rightarrow> 'w" where
  "hwof s \<equiv> t_hw (s_timed s)"

definition fail :: "int \<Rightarrow> service \<Rightarrow> service" where
  "fail code v = v\<lparr>state := SERVICE_FAILED, exit_code := code, errors := errors v + 1\<rparr>"

definition ready :: "service \<Rightarrow> service" where
  "ready v = v\<lparr>state := SERVICE_READY\<rparr>"

text \<open>\<open>s->metric = m; if (ok) s->state = SERVICE_READY; else fail(s, code)\<close>.\<close>

definition report :: "u64 \<Rightarrow> bool \<Rightarrow> int \<Rightarrow> service \<Rightarrow> service" where
  "report m ok code v = (if ok then ready else fail code) (v\<lparr>metric := m\<rparr>)"

text \<open>The same without the \<open>else\<close>.\<close>

definition note_metric :: "u64 \<Rightarrow> service \<Rightarrow> service" where
  "note_metric m v = (if m \<noteq> 0 then ready else id) (v\<lparr>metric := m\<rparr>)"

section \<open>Polling\<close>

definition poll_disk :: "'w sys_env \<Rightarrow> 'w sys \<Rightarrow> 'w sys" where
  "poll_disk env s =
     (if state (services s ! 3) = SERVICE_STARTING
      then let (ok, w) = disk_sync env (hwof s); s = on_hw (\<lambda>_. w) s
        in upd 3 (\<lambda>v. if ok then ready (v\<lparr>metric := metric v + 1\<rparr>) else fail 5 v) s
      else upd 3 (\<lambda>v. v\<lparr>metric := metric v + 1\<rparr>) s)"

definition poll_net :: "'w sys_env \<Rightarrow> 'w sys \<Rightarrow> 'w sys" where
  "poll_net env s =
     (let s = on_hw (network_poll env) s; w = hwof s
      in upd 6 (report (network_rx_packets env w + network_tx_packets env w) (network_ready (clk env) w) 19) s)"

definition poll_work :: "'w sys_env \<Rightarrow> nat \<Rightarrow> 'w sys \<Rightarrow> 'w sys" where
  "poll_work env i s =
     (if i = 0 then upd 0 (note_metric (of_nat (fs_count env))) s
      else if i = 1 then
        upd 1 (report (of_nat (the (memory_free_bytes (s_mem s)))) (memory_heap_bytes (s_mem s) \<noteq> 0) 12) s
      else if i = 2 then
        let s = s\<lparr>s_timed := timed_poll (clk env) (s_timed s)\<rparr> in upd 2 (note_metric (updates (s_timed s))) s
      else if i = 3 then poll_disk env s
      else if i = 4 then
        let n = of_nat (auth_user_count env (hwof s)) in upd 4 (report n (n \<noteq> 0) 2) s
      else if i = 5 then upd 5 (\<lambda>v. ready (v\<lparr>metric := 1\<rparr>)) s
      else if i = 6 then poll_net env s
      else if i = 7 then
        upd 7 (report (characters (s_display s)) (initialized (s_display s)) 6) s
      else if i = 9 then
        let s = s\<lparr>s_log := log_poll (s_log s)\<rparr>; n = log_count (s_log s)
        in upd 9 (\<lambda>v. ready (v\<lparr>metric := (if n \<noteq> 0 then of_nat n else 1)\<rparr>)) s
      else let s = graphics_poll s in upd 8 (report (gfx_frames s) (gfx_active s) 6) s)"

definition poll_one :: "'w sys_env \<Rightarrow> nat \<Rightarrow> 'w sys \<Rightarrow> 'w sys" where
  "poll_one env i s =
     (if state (services s ! i) \<noteq> SERVICE_STARTING \<and> state (services s ! i) \<noteq> SERVICE_READY then s
      else poll_work env i (upd i (\<lambda>v. v\<lparr>cycles := cycles v + 1\<rparr>) s))"

definition service_poll_all :: "'w sys_env \<Rightarrow> 'w sys \<Rightarrow> 'w sys" where
  "service_poll_all env = fold (poll_one env) [0..<service_count]"

section \<open>Starting and stopping\<close>

definition service_init :: "'w sys_env \<Rightarrow> 'w sys \<Rightarrow> 'w sys" where
  "service_init env s =
     s\<lparr>services := map (\<lambda>v. v\<lparr>state := SERVICE_STOPPED, exit_code := 0, generation := 0, cycles := 0, errors := 0,
         metric := 0\<rparr>) (services s),
       s_timed := timed_stop (timed_init (prt env) (clk env) (s_timed s))\<rparr>"

fun find_name :: "string \<Rightarrow> nat \<Rightarrow> service list \<Rightarrow> int" where
  "find_name n i [] = -1"
| "find_name n i (v # vs) = (if streq n (sv_name v) then int i else find_name n (i + 1) vs)"

definition service_find :: "string \<Rightarrow> 'w sys \<Rightarrow> int" where
  "service_find n s = find_name n 0 (services s)"

definition in_table :: "int \<Rightarrow> bool" where
  "in_table sid \<longleftrightarrow> \<not> (sid < 0 \<or> int service_count \<le> sid)"

text \<open>What starting a service does beyond its record, and whether it succeeds.\<close>

definition start_net :: "'w sys_env \<Rightarrow> 'w sys \<Rightarrow> bool \<times> 'w sys" where
  "start_net env s =
     (let (ok, w) = network_init env (hwof s); s = on_hw (\<lambda>_. w) s
      in if ok then (True, s) else (False, upd 6 (fail 19) s))"

definition start_gfx :: "'w sys \<Rightarrow> bool \<times> 'w sys" where
  "start_gfx s = (let (ok, s) = graphics_init s in if ok then (True, s) else (False, upd 8 (fail 6) s))"

definition start_log :: "'w sys_env \<Rightarrow> 'w sys \<Rightarrow> 'w sys" where
  "start_log env s = (let (l, t) = log_init (clk env) (s_log s, s_timed s) in s\<lparr>s_log := l, s_timed := t\<rparr>)"

definition service_start :: "'w sys_env \<Rightarrow> int \<Rightarrow> 'w sys \<Rightarrow> bool \<times> 'w sys" where
  "service_start env sid s =
     (if \<not> in_table sid then (False, s)
      else let i = nat sid; v = services s ! i in
        if state v = SERVICE_READY \<or> state v = SERVICE_STARTING then (True, s)
        else if 0 \<le> dependency v \<and> state (services s ! nat (dependency v)) \<noteq> SERVICE_READY
        then (False, upd i (fail 69) s)
        else let s = upd i (\<lambda>v. v\<lparr>state := SERVICE_STARTING, exit_code := 0, generation := generation v + 1\<rparr>) s
          in if sid = 2 then (True, s\<lparr>s_timed := timed_start (clk env) (s_timed s)\<rparr>)
             else if sid = 6 then start_net env s
             else if sid = 8 then start_gfx s
             else if sid = 9 then (True, start_log env s)
             else (True, s))"

definition service_stop :: "int \<Rightarrow> 'w sys \<Rightarrow> bool \<times> 'w sys" where
  "service_stop sid s =
     (if \<not> in_table sid then (False, s)
      else let s = upd (nat sid) (\<lambda>v. v\<lparr>state := SERVICE_STOPPED, exit_code := 0\<rparr>) s;
               s = (if sid = 2 then s\<lparr>s_timed := timed_stop (s_timed s)\<rparr> else s)
        in (True, if sid = 8 then graphics_stop s else s))"

fun wait_polls :: "'w sys_env \<Rightarrow> nat \<Rightarrow> nat \<Rightarrow> 'w sys \<Rightarrow> 'w sys" where
  "wait_polls env i 0 s = s"
| "wait_polls env i (Suc n) s =
     (if state (services s ! i) = SERVICE_STARTING then wait_polls env i n (poll_one env i s) else s)"

definition service_wait_ready :: "'w sys_env \<Rightarrow> int \<Rightarrow> nat \<Rightarrow> 'w sys \<Rightarrow> bool \<times> 'w sys" where
  "service_wait_ready env sid polls s =
     (let (ok, s) = service_start env sid s in
      if \<not> ok then (False, s)
      else let i = nat sid; s = wait_polls env i polls s;
               s = (if state (services s ! i) = SERVICE_STARTING then upd i (fail 110) s else s)
        in (state (services s ! i) = SERVICE_READY, s))"

section \<open>Queries\<close>

definition service_running :: "int \<Rightarrow> 'w sys \<Rightarrow> bool" where
  "service_running sid s \<longleftrightarrow> in_table sid \<and>
     (state (services s ! nat sid) = SERVICE_STARTING \<or> state (services s ! nat sid) = SERVICE_READY)"

definition service_ready :: "int \<Rightarrow> 'w sys \<Rightarrow> bool" where
  "service_ready sid s \<longleftrightarrow> in_table sid \<and> state (services s ! nat sid) = SERVICE_READY"

definition service_state :: "int \<Rightarrow> 'w sys \<Rightarrow> service_state_t" where
  "service_state sid s = (if in_table sid then state (services s ! nat sid) else SERVICE_FAILED)"

definition service_exit_code :: "int \<Rightarrow> 'w sys \<Rightarrow> int" where
  "service_exit_code sid s = (if in_table sid then exit_code (services s ! nat sid) else 127)"

definition service_state_name :: "int \<Rightarrow> 'w sys \<Rightarrow> string" where
  "service_state_name sid s =
     (case service_state sid s of SERVICE_STOPPED \<Rightarrow> ''stopped'' | SERVICE_STARTING \<Rightarrow> ''starting''
      | SERVICE_READY \<Rightarrow> ''ready'' | SERVICE_FAILED \<Rightarrow> ''failed'')"

definition service_generation :: "int \<Rightarrow> 'w sys \<Rightarrow> u64" where
  "service_generation sid s = (if in_table sid then generation (services s ! nat sid) else 0)"

definition service_cycles :: "int \<Rightarrow> 'w sys \<Rightarrow> u64" where
  "service_cycles sid s = (if in_table sid then cycles (services s ! nat sid) else 0)"

definition service_errors :: "int \<Rightarrow> 'w sys \<Rightarrow> u64" where
  "service_errors sid s = (if in_table sid then errors (services s ! nat sid) else 0)"

definition service_metric :: "int \<Rightarrow> 'w sys \<Rightarrow> u64" where
  "service_metric sid s = (if in_table sid then metric (services s ! nat sid) else 0)"

definition service_description :: "int \<Rightarrow> 'w sys \<Rightarrow> string" where
  "service_description sid s = (if in_table sid then description (services s ! nat sid) else ''unknown'')"

definition service_name :: "int \<Rightarrow> 'w sys \<Rightarrow> string" where
  "service_name sid s = (if in_table sid then sv_name (services s ! nat sid) else ''unknown'')"

section \<open>The boot sequence\<close>

definition put_str :: "'w sys_env \<Rightarrow> string \<Rightarrow> 'w sys \<Rightarrow> 'w sys" where
  "put_str env t s = s\<lparr>s_display := display_puts (prt env) t (s_display s)\<rparr>"

definition put_num :: "'w sys_env \<Rightarrow> u64 \<Rightarrow> 'w sys \<Rightarrow> 'w sys" where
  "put_num env n s = s\<lparr>s_display := display_number (prt env) n (s_display s)\<rparr>"

definition put_color :: "'w sys_env \<Rightarrow> u8 \<Rightarrow> 'w sys \<Rightarrow> 'w sys" where
  "put_color env c s = s\<lparr>s_display := display_color (prt env) c (s_display s)\<rparr>"

definition boot_service_result :: "'w sys_env \<Rightarrow> int \<Rightarrow> string \<Rightarrow> string \<Rightarrow> bool \<Rightarrow> 'w sys \<Rightarrow> 'w sys" where
  "boot_service_result env sid name descr ok s =
     (let s = put_color env (if ok then 0x0A else 0x0C) s;
          s = put_str env (if ok then ''[ OK ]'' else ''[FAIL]'') s;
          s = put_color env 0x07 s;
          s = put_str env '' ['' s; s = put_str env name s; s = put_str env ''] '' s;
          s = put_str env (service_state_name sid s) s;
          s = put_str env '' pid='' s; s = put_num env (ucast (of_int sid + 2 :: u32)) s;
          s = put_str env '' exit='' s; s = put_num env (ucast (of_int (service_exit_code sid s) :: u32)) s;
          s = put_color env 0x08 s;
          s = put_str env ''  '' s; s = put_str env descr s;
          s = put_color env 0x07 s; s = put_str env [LF] s;
          s = put_str env ''       cooperative background worker; cycles='' s; s = put_num env (service_cycles sid s) s;
          s = put_str env '' metric='' s; s = put_num env (service_metric sid s) s;
          s = (if service_errors sid s \<noteq> 0
               then put_num env (service_errors sid s) (put_str env '' errors='' s) else s)
      in put_str env [LF] s)"

definition boot_names :: "(string \<times> string) list" where
  "boot_names =
    [(''fsd'', ''Virtual filesystems''), (''memoryd'', ''Memory manager''), (''displayd'', ''Console display''),
     (''graphicsd'', ''Framebuffer graphics''), (''timed'', ''System clock''), (''diskd'', ''Storage devices''),
     (''userd'', ''Accounts and sessions''), (''acpid'', ''Power management''), (''netd'', ''Network stack''),
     (''logd'', ''Kernel message logger'')]"

definition boot_skipped :: "'w sys_env \<Rightarrow> string \<Rightarrow> 'w sys \<Rightarrow> 'w sys" where
  "boot_skipped env n s =
     (let s = put_color env 0x0E s; s = put_str env ''[SKIP]'' s; s = put_color env 0x07 s;
          s = put_str env ''  '' s; s = put_str env n s;
          s = put_str env (replicate (11 - length n) (CHR '' '')) s;
          s = put_color env 0x08 s;
          s = put_str env (''Disabled in recovery mode'' @ [LF]) s
      in put_color env 0x07 s)"

text \<open>The state and the counter \<open>boot_services_started\<close>.\<close>

definition boot_service :: "'w sys_env \<Rightarrow> bool \<Rightarrow> string \<times> string \<Rightarrow> nat \<times> 'w sys \<Rightarrow> nat \<times> 'w sys" where
  "boot_service env recovery = (\<lambda>(n, d) (started, s).
     if recovery \<and> n \<in> {''diskd'', ''userd'', ''netd''} then (started, boot_skipped env n s)
     else let sid = service_find n s; (ok, s) = service_wait_ready env sid 8 s;
              s = boot_service_result env sid n d ok s
       in (if ok then started + 1 else started, s))"

definition start_boot_services :: "'w sys_env \<Rightarrow> bool \<Rightarrow> 'w sys \<Rightarrow> nat \<times> 'w sys" where
  "start_boot_services env recovery s = fold (boot_service env recovery) boot_names (0, s)"

section \<open>The table is well formed\<close>

text \<open>An exit code is set exactly for failed services.\<close>

definition good :: "service \<Rightarrow> bool" where
  "good v \<longleftrightarrow> (state v = SERVICE_FAILED \<longleftrightarrow> exit_code v \<noteq> 0)"

definition label :: "service \<Rightarrow> string \<times> string \<times> int" where
  "label v = (sv_name v, description v, dependency v)"

definition table_ok :: "service list \<Rightarrow> bool" where
  "table_ok vs \<longleftrightarrow> map label vs = map label service_table \<and> list_all good vs"

lemma table_length: "table_ok vs \<Longrightarrow> length vs = 10"
proof -
  assume "table_ok vs"
  then have "length (map label vs) = length (map label service_table)" by (simp add: table_ok_def)
  then show "length vs = 10" by (simp add: service_table_def)
qed

lemma table_ok_update:
  assumes "table_ok vs" and "i < length vs" and "label v = label (vs ! i)" and "good v"
  shows "table_ok (vs[i := v])"
proof -
  have "map label (vs[i := v]) = map label vs"
    using assms(2,3) by (metis map_update list_update_id nth_map)
  then show ?thesis using assms by (auto simp: table_ok_def list_all_iff dest: set_update_subset_insert [THEN subsetD])
qed

lemma upd_ok:
  assumes "table_ok (services s)" and "i < 10" and "\<And>v. label (f v) = label v" and "good (services s ! i) \<Longrightarrow> good (f (services s ! i))"
  shows "table_ok (services (upd i f s))"
proof -
  have i: "i < length (services s)" using table_length [OF assms(1)] assms(2) by simp
  then have "good (services s ! i)" using assms(1) by (simp add: table_ok_def list_all_length)
  then show ?thesis unfolding upd_def using table_ok_update [OF assms(1) i assms(3)] assms(4) by simp
qed

lemma services_upd [simp]: "services (upd i f s) = (services s)[i := f (services s ! i)]"
  by (simp add: upd_def)

lemma services_hw [simp]: "services (on_hw f s) = services s"
  by (simp add: on_hw_def)

lemma services_gfx [simp]: "services (graphics_poll s) = services s" "services (snd (graphics_init s)) = services s"
  "services (graphics_stop s) = services s" "services (start_log env s) = services s"
  by (simp_all add: graphics_poll_def graphics_init_def graphics_stop_def start_log_def Let_def case_prod_beta)

lemma label_simps [simp]:
  "label (v\<lparr>state := a\<rparr>) = label v" "label (v\<lparr>exit_code := b\<rparr>) = label v" "label (v\<lparr>generation := c\<rparr>) = label v"
  "label (v\<lparr>cycles := d\<rparr>) = label v" "label (v\<lparr>errors := e\<rparr>) = label v" "label (v\<lparr>metric := m\<rparr>) = label v"
  by (simp_all add: label_def)

lemmas svc_defs = fail_def ready_def report_def note_metric_def good_def label_def

definition active :: "service \<Rightarrow> bool" where
  "active v \<longleftrightarrow> state v = SERVICE_STARTING \<or> state v = SERVICE_READY"

text \<open>A change of one service that keeps a running one well formed.\<close>

definition keeps :: "(service \<Rightarrow> service) \<Rightarrow> bool" where
  "keeps f \<longleftrightarrow> (\<forall>v. label (f v) = label v \<and> (active v \<and> good v \<longrightarrow> good (f v)))"

definition touches :: "nat \<Rightarrow> 'w sys \<Rightarrow> 'w sys \<Rightarrow> bool" where
  "touches i s s' \<longleftrightarrow> (\<exists>f. keeps f \<and> services s' = (services s)[i := f (services s ! i)])"

lemma touches_upd: "keeps f \<Longrightarrow> services s' = services s \<Longrightarrow> touches i s (upd i f s')"
  by (auto simp: touches_def)

lemma keeps_simps [simp]:
  "keeps (report m ok code)" if "code \<noteq> 0" for m ok code
  using that by (auto simp: keeps_def svc_defs active_def)

lemma keeps_other [simp]:
  "keeps (note_metric m)" "keeps (\<lambda>v. ready (v\<lparr>metric := m\<rparr>))" "keeps (\<lambda>v. v\<lparr>metric := metric v + 1\<rparr>)"
  "keeps (\<lambda>v. if ok then ready (v\<lparr>metric := metric v + 1\<rparr>) else fail 5 v)" "keeps (\<lambda>v. v\<lparr>cycles := cycles v + 1\<rparr>)"
  by (auto simp: keeps_def svc_defs active_def)

lemma poll_disk_touches: "touches 3 s (poll_disk env s)"
  by (simp add: poll_disk_def Let_def case_prod_beta touches_upd)

lemma poll_work_touches: "i < 10 \<Longrightarrow> touches i s (poll_work env i s)"
proof -
  assume "i < 10"
  then have "i \<in> {0, 1, 2, 3, 4, 5, 6, 7, 8, 9}" by auto
  then show ?thesis
    by (elim insertE emptyE) (simp_all add: poll_work_def poll_disk_touches poll_net_def Let_def touches_upd)
qed

lemma touches_ok:
  assumes "touches i s s'" and "table_ok (services s)" and "i < 10" and "active (services s ! i)"
  shows "table_ok (services s')"
proof -
  from assms(1) obtain f where f: "keeps f" "services s' = (services s)[i := f (services s ! i)]" by (auto simp: touches_def)
  have i: "i < length (services s)" using table_length [OF assms(2)] assms(3) by simp
  then have "good (services s ! i)" using assms(2) by (simp add: table_ok_def list_all_length)
  then show ?thesis using f assms(2,4) i by (auto simp: keeps_def intro: table_ok_update)
qed

lemma poll_one_ok:
  assumes "table_ok (services s)" and "i < 10"
  shows "table_ok (services (poll_one env i s))"
proof (cases "active (services s ! i)")
  case True
  let ?s = "upd i (\<lambda>v. v\<lparr>cycles := cycles v + 1\<rparr>) s"
  have "touches i s ?s" by (simp add: touches_upd)
  from touches_ok [OF this assms True] have "table_ok (services ?s)" .
  moreover have "active (services ?s ! i)" using True table_length [OF assms(1)] assms(2) by (simp add: active_def)
  ultimately have "table_ok (services (poll_work env i ?s))"
    using touches_ok [OF poll_work_touches] assms(2) by blast
  then show ?thesis using True assms(1) by (auto simp: poll_one_def active_def)
qed (use assms in \<open>auto simp: poll_one_def active_def\<close>)

lemma fold_ok: "(\<And>x s. table_ok (services s) \<Longrightarrow> x \<in> set xs \<Longrightarrow> table_ok (services (f x s))) \<Longrightarrow>
    table_ok (services s) \<Longrightarrow> table_ok (services (fold f xs s))"
  by (induction xs arbitrary: s) simp_all

lemma service_count_10: "service_count = 10"
  by (simp add: service_count_def service_table_def)

lemma poll_all_ok: "table_ok (services s) \<Longrightarrow> table_ok (services (service_poll_all env s))"
  unfolding service_poll_all_def service_count_10
  by (rule fold_ok) (simp_all only: set_upt atLeastLessThan_iff poll_one_ok)

lemma wait_polls_ok: "i < 10 \<Longrightarrow> table_ok (services s) \<Longrightarrow> table_ok (services (wait_polls env i n s))"
  by (induction n arbitrary: s) (simp_all add: poll_one_ok)

lemma in_table_less: "in_table sid \<longleftrightarrow> 0 \<le> sid \<and> nat sid < 10"
  by (auto simp: in_table_def service_count_10)

lemma upd_fail_ok: "table_ok (services s) \<Longrightarrow> i < 10 \<Longrightarrow> c \<noteq> 0 \<Longrightarrow> table_ok (services (upd i (fail c) s))"
  by (rule upd_ok) (simp_all add: svc_defs)

lemma service_start_ok:
  assumes "table_ok (services s)"
  shows "table_ok (services (snd (service_start env sid s)))"
proof (cases "in_table sid")
  case True
  then have i: "nat sid < 10" by (simp add: in_table_less)
  let ?s = "upd (nat sid) (\<lambda>v. v\<lparr>state := SERVICE_STARTING, exit_code := 0, generation := generation v + 1\<rparr>) s"
  have u: "table_ok (services ?s)" using assms i by (rule upd_ok) (simp_all add: svc_defs)
  have n: "table_ok (services (snd (start_net env t)))" if "table_ok (services t)" for t
    using that upd_fail_ok [of "on_hw f t" 6 19 for f] by (simp add: start_net_def Let_def case_prod_beta)
  have g: "table_ok (services (snd (start_gfx t)))" if "table_ok (services t)" for t
    using that upd_fail_ok [of "snd (graphics_init t)" 8 6] by (simp add: start_gfx_def Let_def case_prod_beta)
  show ?thesis using True assms u n [OF u] g [OF u] upd_fail_ok [OF assms i, of 69]
    unfolding service_start_def Let_def by (simp split del: if_split) (auto split: if_split)
qed (use assms in \<open>simp add: service_start_def\<close>)

lemma service_stop_ok:
  assumes "table_ok (services s)"
  shows "table_ok (services (snd (service_stop sid s)))"
proof (cases "in_table sid")
  case True
  have "table_ok (services (upd (nat sid) (\<lambda>v. v\<lparr>state := SERVICE_STOPPED, exit_code := 0\<rparr>) s))"
    using True assms by (intro upd_ok) (simp_all add: svc_defs in_table_less)
  then show ?thesis using True by (auto simp: service_stop_def Let_def)
qed (use assms in \<open>simp add: service_stop_def\<close>)

lemma service_wait_ready_ok:
  assumes "table_ok (services s)"
  shows "table_ok (services (snd (service_wait_ready env sid n s)))"
proof (cases "in_table sid")
  case True
  then have i: "nat sid < 10" by (simp add: in_table_less)
  let ?w = "wait_polls env (nat sid) n (snd (service_start env sid s))"
  have w: "table_ok (services ?w)" using wait_polls_ok [OF i service_start_ok [OF assms]] .
  then show ?thesis using service_start_ok [OF assms] upd_fail_ok [OF w i, of 110]
    by (simp add: service_wait_ready_def Let_def case_prod_beta)
qed (use assms in \<open>simp add: service_wait_ready_def service_start_def\<close>)

text \<open>Everything that can happen to the table once it is set up; the other parts of the kernel change at will.\<close>

inductive service_reachable :: "'w sys_env \<Rightarrow> 'w sys \<Rightarrow> bool" for env where
  Init: "map label (services s) = map label service_table \<Longrightarrow> service_reachable env (service_init env s)"
| Start: "service_reachable env s \<Longrightarrow> service_reachable env (snd (service_start env sid s))"
| Stop: "service_reachable env s \<Longrightarrow> service_reachable env (snd (service_stop sid s))"
| Wait: "service_reachable env s \<Longrightarrow> service_reachable env (snd (service_wait_ready env sid n s))"
| Poll: "service_reachable env s \<Longrightarrow> service_reachable env (service_poll_all env s)"
| Other: "service_reachable env s \<Longrightarrow> services s' = services s \<Longrightarrow> service_reachable env s'"

lemma service_init_ok: "map label (services s) = map label service_table \<Longrightarrow> table_ok (services (service_init env s))"
  by (simp add: service_init_def table_ok_def list_all_length good_def o_def)

lemma reachable_table: "service_reachable env s \<Longrightarrow> table_ok (services s)"
  by (induction rule: service_reachable.induct)
    (simp_all add: service_init_ok service_start_ok service_stop_ok service_wait_ready_ok poll_all_ok)

section \<open>The console keeps its shape\<close>

definition shape :: "'w display \<Rightarrow> bool \<times> nat \<times> nat" where
  "shape d = (initialized d, width d, height d)"

lemma shape_hw_only: "hw_only d d' \<Longrightarrow> shape d' = shape d"
  unfolding hw_only_def by (subst (asm) eq_commute) (erule subst, simp add: shape_def)

lemma shape_cells_only: "cells_only d d' \<Longrightarrow> shape d' = shape d"
  unfolding cells_only_def shape_def by (elim exE) simp

lemmas shape_serial = shape_hw_only [OF hw_only_serial_put] shape_hw_only [OF hw_only_serial_raw]
  shape_hw_only [OF hw_only_cursor_vga] shape_cells_only [OF cells_only_render]

lemma shape_update:
  "shape (d\<lparr>row := r\<rparr>) = shape d" "shape (d\<lparr>col := c\<rparr>) = shape d" "shape (d\<lparr>characters := n\<rparr>) = shape d"
  "shape (d\<lparr>cursor_x := x\<rparr>) = shape d" "shape (d\<lparr>cursor_y := y\<rparr>) = shape d" "shape (d\<lparr>cursor_drawn := b\<rparr>) = shape d"
  "shape (d\<lparr>hw := w\<rparr>) = shape d" "shape (d\<lparr>dmem := m\<rparr>) = shape d" "shape (d\<lparr>color := k\<rparr>) = shape d"
  "shape (d\<lparr>fg := f\<rparr>) = shape d" "shape (d\<lparr>bold := q\<rparr>) = shape d"
  "shape (d\<lparr>cells := e\<rparr>) = shape d"
  by (simp_all add: shape_def)

lemma shape_cursor: "shape (cursor_restore d) = shape d" "shape (cursor_draw d) = shape d"
  by (simp_all add: cursor_restore_def cursor_draw_def framebuffer_cell_def Let_def shape_def)

lemma shape_fold: "(\<And>x d. shape (f x d) = shape d) \<Longrightarrow> shape (fold f xs d) = shape d"
  by (induction xs arbitrary: d) simp_all

lemma shape_scroll_cell: "shape (scroll_cell x y d) = shape d"
  by (simp add: scroll_cell_def Let_def shape_serial shape_update)

lemma shape_scroll: "shape (scroll d) = shape d"
  by (simp add: scroll_def Let_def shape_update shape_fold shape_serial shape_scroll_cell)

lemma shape_putc: "shape (display_putc io c d) = shape d"
  by (simp add: display_putc_def to_sink_def show_char_def settle_def Let_def shape_update shape_serial shape_cursor
      shape_scroll split: option.split)

lemma shape_print: "shape (display_puts io t d) = shape d" "shape (display_number io n d) = shape d"
  "shape (display_color io c d) = shape d"
  by (simp_all add: display_puts_def display_number_def display_color_def apply_color_def shape_fold shape_putc Let_def
      shape_serial shape_update)

section \<open>Booting\<close>

text \<open>The subsystems behind the services work.\<close>

definition env_works :: "'w sys_env \<Rightarrow> bool" where
  "env_works env \<longleftrightarrow> (of_nat (fs_count env) :: u64) \<noteq> 0 \<and> (\<forall>w. fst (disk_sync env w)) \<and>
     (\<forall>w. (of_nat (auth_user_count env w) :: u64) \<noteq> 0) \<and>
     (\<forall>w. fst (network_init env w) \<and> network_ready (clk env) (network_poll env (snd (network_init env w))))"

abbreviation states :: "'w sys \<Rightarrow> service_state_t list" where
  "states s \<equiv> map state (services s)"

definition boot_ok :: "'w sys \<Rightarrow> bool" where
  "boot_ok s \<longleftrightarrow> table_ok (services s) \<and> memory_heap_bytes (s_mem s) \<noteq> 0 \<and>
     (\<exists>w h. shape (s_display s) = (True, w, h) \<and> w \<noteq> 0 \<and> h \<noteq> 0) \<and>
     (states s ! 2 = SERVICE_READY \<or> updates (s_timed s) = 1)"

text \<open>A start that leaves the service starting, a poll that makes it ready.\<close>

lemma wait_ready_one:
  assumes "service_start env (int i) s = (True, s1)" and "state (services s1 ! i) = SERVICE_STARTING"
    and "state (services (poll_one env i s1) ! i) = SERVICE_READY"
  shows "service_wait_ready env (int i) 8 s = (True, poll_one env i s1)"
proof -
  have "wait_polls env i (Suc (Suc n)) s1 = poll_one env i s1" for n using assms(2,3) by simp
  from this [of 6] have "wait_polls env i 8 s1 = poll_one env i s1" by (simp add: numeral_eq_Suc)
  then show ?thesis using assms by (simp add: service_wait_ready_def Let_def)
qed

lemma updates_monotonic: "updates (snd (timed_monotonic_ns env st)) = updates st"
  "updates (snd (timed_get_realtime_ns env st)) = updates st"
  by (simp_all add: timed_monotonic_ns_def timed_get_realtime_ns_def read_tsc_def case_prod_beta Let_def)

lemma updates_parse: "updates (parse_config t st) = updates st"
proof (induction t st rule: parse_config.induct)
  case (1 t st)
  then show ?case
    by (subst parse_config.simps) (simp add: apply_setting_def Let_def split: list.split)
qed

lemma updates_load: "updates (load_config env st) = updates st"
  by (simp add: load_config_def updates_parse Let_def case_prod_beta split: option.split)

lemma updates_query: "updates (snd (snd (query_loop env n t1 r st))) = updates st"
  by (induction n arbitrary: r st) (simp_all add: case_prod_beta Let_def)

definition counted :: "u64 \<Rightarrow> nat \<Rightarrow> 'w timed \<Rightarrow> bool" where
  "counted u n st \<longleftrightarrow> (\<exists>k \<le> n. updates st = u + of_nat k)"

lemma countedI: "updates st = u \<Longrightarrow> counted u n st" "updates st = u + 1 \<Longrightarrow> counted u (Suc n) st"
  by (auto simp: counted_def intro: exI [of _ 0] exI [of _ 1])

lemma counted_reply: "updates st = u \<Longrightarrow> counted u (Suc 0) (snd (sync_reply env reply t1 t4 st))"
  by (auto simp: sync_reply_def sync_failed_def Let_def case_prod_beta updates_monotonic intro: countedI)

lemma counted_sync: "updates st = u \<Longrightarrow> counted u (Suc 0) (snd (timed_sync env st))"
proof -
  have e: "updates (snd (sync_failed e st)) = updates st" for e and st :: "'a timed" by (simp add: sync_failed_def)
  assume "updates st = u"
  then show ?thesis unfolding timed_sync_def Let_def case_prod_beta
    by (simp add: counted_reply countedI e updates_load updates_monotonic updates_query split: option.split)
qed

lemma counted_Suc: "counted (u + 1) n st \<Longrightarrow> counted u (Suc n) st"
  unfolding counted_def by (elim exE conjE) (rule_tac x = "Suc k" in exI, simp)

lemma counted_poll: "counted (updates st) 2 (timed_poll env st)"
proof -
  have s: "counted (updates st) 2 (snd (timed_sync env t))" if "updates t \<in> {updates st, updates st + 1}" for t
    using that counted_sync [of t _ env] counted_Suc [of "updates st" "Suc 0"] unfolding counted_def
    by (auto intro: le_trans simp: numeral_2_eq_2)
  have t: "updates (tick_clock d t) \<in> {updates t, updates t + 1}" for d and t :: "'a timed" by (simp add: tick_clock_def)
  let ?r = "timed_get_realtime_ns env (load_config env st)"
  define x where "x = (case fst ?r of None \<Rightarrow> snd ?r | Some utc \<Rightarrow>
    if 0 \<le> utc then tick_clock (the (from_epoch (of_int (utc sdiv NS_SECOND) + 8 * 3600))) (snd ?r) else snd ?r)"
  have r: "updates (snd ?r) = updates st" by (simp add: updates_load updates_monotonic)
  then have x: "updates x \<in> {updates st, updates st + 1}"
    using t [of _ "snd ?r"] unfolding x_def by (simp split: option.split)
  then have "counted (updates st) 2 x" "counted (updates st) 2 (snd (timed_monotonic_ns env x))"
    by (auto simp: updates_monotonic numeral_2_eq_2 intro: countedI)
  moreover have "counted (updates st) 2 (snd (timed_sync env (snd (timed_monotonic_ns env x))))"
    using x by (intro s) (simp add: updates_monotonic)
  moreover have "counted (updates st) 2 st" by (simp add: countedI)
  ultimately show ?thesis unfolding timed_poll_def Let_def case_prod_beta x_def [symmetric] by simp
qed

lemma states_upd: "i < length (services s) \<Longrightarrow> states (upd i f s) = (states s)[i := state (f (services s ! i))]"
  by (simp add: map_update)

lemma state_simps:
  "state (ready v) = SERVICE_READY" "state (report m ok code v) = (if ok then SERVICE_READY else SERVICE_FAILED)"
  "m \<noteq> 0 \<Longrightarrow> state (note_metric m v) = SERVICE_READY"
  by (simp_all add: svc_defs)

text \<open>The parts of the state that the boot sequence relies on.\<close>

definition rest :: "'w sys \<Rightarrow> mem \<times> (bool \<times> nat \<times> nat)" where
  "rest s = (s_mem s, shape (s_display s))"

lemma rest_simps [simp]: "rest (upd i f s) = rest s" "rest (on_hw g s) = rest s" "rest (graphics_poll s) = rest s"
  "rest (s\<lparr>s_timed := t\<rparr>) = rest s" "rest (s\<lparr>s_log := l\<rparr>) = rest s" "rest (start_log env s) = rest s"
  "rest (snd (graphics_init s)) = rest s" "rest (s\<lparr>gfx_frames := n\<rparr>) = rest s"
  by (simp_all add: rest_def upd_def on_hw_def graphics_poll_def start_log_def graphics_init_def Let_def case_prod_beta)

lemma timed_upd [simp]: "s_timed (upd i f s) = s_timed s" "updates (s_timed (on_hw g s)) = updates (s_timed s)"
  "s_timed (graphics_poll s) = s_timed s" "s_timed (snd (graphics_init s)) = s_timed s"
  by (simp_all add: upd_def on_hw_def graphics_poll_def graphics_init_def Let_def)

lemma updates_start: "updates (timed_start env st) = updates st" "updates (s_timed (start_log e s)) = updates (s_timed s)"
  by (simp_all add: timed_start_def start_log_def log_init_def log_submit_def Let_def case_prod_beta updates_load updates_monotonic)

text \<open>Polling a service whose subsystem works makes it ready and keeps what the others rely on.\<close>

definition can_poll :: "'w sys_env \<Rightarrow> nat \<Rightarrow> 'w sys \<Rightarrow> bool" where
  "can_poll env i t \<longleftrightarrow> env_works env \<and> i < length (services t) \<and> memory_heap_bytes (s_mem t) \<noteq> 0 \<and> initialized (s_display t) \<and>
     (i = 2 \<longrightarrow> updates (s_timed t) = 1) \<and> (i = 3 \<longrightarrow> state (services t ! 3) = SERVICE_STARTING) \<and>
     (i = 6 \<longrightarrow> network_ready (clk env) (network_poll env (hwof t))) \<and> (i = 8 \<longrightarrow> gfx_active t)"

lemma poll_work_ready:
  assumes "can_poll env i t" and "i < 10"
  shows "states (poll_work env i t) = (states t)[i := SERVICE_READY] \<and> rest (poll_work env i t) = rest t \<and>
    (i \<noteq> 2 \<longrightarrow> updates (s_timed (poll_work env i t)) = updates (s_timed t))"
proof -
  have p: "updates (timed_poll (clk env) (s_timed t)) \<noteq> 0" if "i = 2"
  proof -
    from counted_poll [of "s_timed t" "clk env"] assms(1) that obtain k where
      k: "k \<le> 2" "updates (timed_poll (clk env) (s_timed t)) = 1 + of_nat k"
      by (auto simp: can_poll_def counted_def)
    from k(1) have "k \<in> {0, 1, 2}" by auto
    then show ?thesis unfolding k(2) by auto
  qed
  have "i \<in> {0, 1, 2, 3, 4, 5, 6, 7, 8, 9}" using assms(2) by auto
  then show ?thesis using assms(1) p
    by (elim insertE emptyE)
      (simp_all add: poll_work_def poll_disk_def poll_net_def Let_def case_prod_beta states_upd state_simps can_poll_def
        env_works_def map_update graphics_poll_def on_hw_def)
qed

lemma dependency_table: "table_ok vs \<Longrightarrow> i < 10 \<Longrightarrow> dependency (vs ! i) = dependency (service_table ! i)"
proof -
  assume t: "table_ok vs" "i < 10"
  then have "map label vs ! i = map label service_table ! i" by (simp add: table_ok_def)
  then show ?thesis using table_length [OF t(1)] t(2) service_count_10 by (simp add: label_def service_count_def)
qed

lemma start_ready:
  assumes "boot_ok s" and "env_works env" and "i < 10" and "states s ! i = SERVICE_STOPPED"
    and "dependency (service_table ! i) < 0 \<or> states s ! nat (dependency (service_table ! i)) = SERVICE_READY"
    and "nat (dependency (service_table ! i)) < 10"
  shows "\<exists>s1. service_start env (int i) s = (True, s1) \<and> states s1 = (states s)[i := SERVICE_STARTING] \<and>
    rest s1 = rest s \<and> updates (s_timed s1) = updates (s_timed s) \<and> table_ok (services s1) \<and>
    (i = 6 \<longrightarrow> network_ready (clk env) (network_poll env (hwof s1))) \<and> (i = 8 \<longrightarrow> gfx_active s1)"
proof -
  let ?f = "\<lambda>v. v\<lparr>state := SERVICE_STARTING, exit_code := 0, generation := generation v + 1\<rparr>"
  let ?s = "upd i ?f s"
  have t: "table_ok (services s)" and l: "length (services s) = 10" using assms(1) table_length by (auto simp: boot_ok_def)
  have it: "\<not> \<not> in_table (int i)" using assms(3) by (simp add: in_table_less)
  have st: "\<not> (state (services s ! i) = SERVICE_READY \<or> state (services s ! i) = SERVICE_STARTING)"
    using assms(3,4) l by simp
  have d: "\<not> (0 \<le> dependency (services s ! i) \<and> state (services s ! nat (dependency (services s ! i))) \<noteq> SERVICE_READY)"
    using assms(5,6) l dependency_table [OF t assms(3)] by auto
  have u: "states ?s = (states s)[i := SERVICE_STARTING]" "rest ?s = rest s" using l assms(3) by (simp_all add: map_update)
  have start: "service_start env (int i) s =
     (if i = 2 then (True, ?s\<lparr>s_timed := timed_start (clk env) (s_timed ?s)\<rparr>)
      else if i = 6 then start_net env ?s else if i = 8 then start_gfx ?s
      else if i = 9 then (True, start_log env ?s) else (True, ?s))"
    unfolding service_start_def Let_def nat_int if_not_P [OF it] if_not_P [OF st] if_not_P [OF d] of_nat_eq_numeral_iff ..
  have g: "fst (graphics_init ?s)" "gfx_active (snd (graphics_init ?s))"
    using assms(1) by (auto simp: boot_ok_def graphics_init_def upd_def shape_def Let_def)
  have n: "fst (network_init env w)" "network_ready (clk env) (network_poll env (snd (network_init env w)))" for w
    using assms(2) by (simp_all add: env_works_def)
  have "table_ok (services ?s)" using t assms(3) by (rule upd_ok) (simp_all add: svc_defs)
  then show ?thesis unfolding start
    using u g n by (auto simp: start_net_def start_gfx_def Let_def case_prod_beta updates_start on_hw_def simp del: services_upd)
qed

lemma boot_one:
  assumes "boot_ok s" and "env_works env" and "i < 10" and "states s ! i = SERVICE_STOPPED"
    and "dependency (service_table ! i) < 0 \<or> states s ! nat (dependency (service_table ! i)) = SERVICE_READY"
    and "nat (dependency (service_table ! i)) < 10"
  shows "\<exists>s'. service_wait_ready env (int i) 8 s = (True, s') \<and> states s' = (states s)[i := SERVICE_READY] \<and> boot_ok s'"
proof -
  from start_ready [OF assms] obtain s1 where
    1: "service_start env (int i) s = (True, s1)" "states s1 = (states s)[i := SERVICE_STARTING]" "rest s1 = rest s"
      "updates (s_timed s1) = updates (s_timed s)" "table_ok (services s1)"
      "i = 6 \<longrightarrow> network_ready (clk env) (network_poll env (hwof s1))" "i = 8 \<longrightarrow> gfx_active s1" by blast
  let ?t = "upd i (\<lambda>v. v\<lparr>cycles := cycles v + 1\<rparr>) s1"
  have l: "length (services s) = 10" "length (services s1) = 10"
    using assms(1) 1(5) table_length by (auto simp: boot_ok_def)
  have st: "state (services s1 ! i) = SERVICE_STARTING"
    using arg_cong [OF 1(2), of "\<lambda>xs. xs ! i"] l assms(3) by simp
  have r: "s_mem s1 = s_mem s" "shape (s_display s1) = shape (s_display s)" using 1(3) by (simp_all add: rest_def)
  have rt: "s_mem ?t = s_mem s1" "s_display ?t = s_display s1" "gfx_active ?t = gfx_active s1" by (simp_all add: upd_def)
  have u: "i = 2 \<Longrightarrow> updates (s_timed s1) = 1" using assms(1,4) 1(4) by (auto simp: boot_ok_def)
  have "initialized (s_display s1)" "memory_heap_bytes (s_mem s1) \<noteq> 0"
    using assms(1) r by (auto simp: boot_ok_def shape_def)
  then have "can_poll env i ?t" using assms(2,3) l st u 1(6,7) rt by (auto simp: can_poll_def)
  from poll_work_ready [OF this assms(3)] have p: "states (poll_work env i ?t) = (states s)[i := SERVICE_READY]"
    "rest (poll_work env i ?t) = rest s" "i \<noteq> 2 \<longrightarrow> updates (s_timed (poll_work env i ?t)) = updates (s_timed s)"
    using 1(2,3,4) l assms(3) by (simp_all add: states_upd st del: services_upd)
  have e: "poll_one env i s1 = poll_work env i ?t" by (simp add: poll_one_def st)
  have "table_ok (services (poll_work env i ?t))" using poll_one_ok [OF 1(5) assms(3), of env] unfolding e .
  then have b: "boot_ok (poll_work env i ?t)"
    using assms(1,3) p l by (cases "i = 2") (auto simp: boot_ok_def rest_def)
  have "length (states (poll_work env i ?t)) = 10" unfolding p(1) using l by simp
  then have "state (services (poll_work env i ?t) ! i) = SERVICE_READY"
    using arg_cong [OF p(1), of "\<lambda>xs. xs ! i"] l assms(3) by simp
  then have "service_wait_ready env (int i) 8 s = (True, poll_work env i ?t)"
    using wait_ready_one [OF 1(1) st] unfolding e by blast
  with p(1) b show ?thesis by blast
qed

text \<open>Printing touches nothing but the console.\<close>

definition same_but_console :: "'w sys \<Rightarrow> 'w sys \<Rightarrow> bool" where
  "same_but_console s s' \<longleftrightarrow> services s' = services s \<and> rest s' = rest s \<and> s_timed s' = s_timed s"

lemma print_same:
  "same_but_console s t \<Longrightarrow> same_but_console s (put_str env x t)"
  "same_but_console s t \<Longrightarrow> same_but_console s (put_num env n t)"
  "same_but_console s t \<Longrightarrow> same_but_console s (put_color env c t)"
  by (simp_all add: same_but_console_def put_str_def put_num_def put_color_def rest_def shape_print)

lemma same_but_console_refl: "same_but_console s s"
  by (simp add: same_but_console_def)

lemma same_let: "same_but_console s a \<Longrightarrow> (\<And>t. same_but_console s t \<Longrightarrow> same_but_console s (f t)) \<Longrightarrow>
    same_but_console s (let t = a in f t)"
  by simp

lemma same_if: "same_but_console s a \<Longrightarrow> same_but_console s b \<Longrightarrow> same_but_console s (if c then a else b)"
  by simp

lemma result_same: "same_but_console s (boot_service_result env sid n d ok s)"
  unfolding boot_service_result_def
  by (rule same_let, rule print_same, rule same_but_console_refl, (rule same_let, rule print_same, assumption)+,
      rule same_let, rule same_if, (rule print_same)+, assumption, assumption, rule print_same, assumption)

lemma skipped_same: "same_but_console s (boot_skipped env n s)"
  unfolding boot_skipped_def
  by (rule same_let, rule print_same, rule same_but_console_refl, (rule same_let, rule print_same, assumption)+,
      rule print_same, assumption)

lemma boot_ok_same: "same_but_console s s' \<Longrightarrow> boot_ok s \<Longrightarrow> boot_ok s' \<and> states s' = states s"
  by (simp add: same_but_console_def boot_ok_def rest_def)

lemma find_name_cong: "map sv_name vs = map sv_name us \<Longrightarrow> find_name n i vs = find_name n i us"
proof (induction vs arbitrary: us i)
  case (Cons v vs)
  then obtain u us' where "us = u # us'" "sv_name u = sv_name v" "map sv_name vs = map sv_name us'" by (cases us) auto
  then show ?case using Cons.IH [of us'] by simp
qed simp

lemma find_table: "table_ok (services s) \<Longrightarrow> service_find n s = find_name n 0 service_table"
proof -
  assume "table_ok (services s)"
  then have "map label (services s) = map label service_table" by (simp only: table_ok_def)
  then have "map fst (map label (services s)) = map fst (map label service_table)" by (simp only:)
  moreover have "map fst (map label vs) = map sv_name vs" for vs by (simp add: label_def)
  ultimately have "map sv_name (services s) = map sv_name service_table" by (simp only:)
  then show ?thesis unfolding service_find_def by (rule find_name_cong)
qed

lemma boot_step:
  assumes "boot_ok s" and "env_works env" and "find_name n 0 service_table = int i" and "i < 10"
    and "states s ! i = SERVICE_STOPPED" and "nat (dependency (service_table ! i)) < 10"
    and "dependency (service_table ! i) < 0 \<or> states s ! nat (dependency (service_table ! i)) = SERVICE_READY"
    and "\<not> (recovery \<and> n \<in> {''diskd'', ''userd'', ''netd''})"
  shows "\<exists>s'. boot_service env recovery (n, d) (k, s) = (Suc k, s') \<and> states s' = (states s)[i := SERVICE_READY] \<and> boot_ok s'"
proof -
  from boot_one [OF assms(1,2,4,5,7,6)] obtain t where
    t: "service_wait_ready env (int i) 8 s = (True, t)" "states t = (states s)[i := SERVICE_READY]" "boot_ok t" by blast
  have "service_find n s = int i" using find_table [of s n] assms(1,3) by (simp add: boot_ok_def)
  then have "boot_service env recovery (n, d) (k, s) = (Suc k, boot_service_result env (int i) n d True t)"
    using assms(8) t(1) by (simp add: boot_service_def Let_def)
  moreover from boot_ok_same [OF result_same t(3)] have
    "boot_ok (boot_service_result env (int i) n d True t) \<and> states (boot_service_result env (int i) n d True t) = states t" .
  ultimately show ?thesis using t(2) by auto
qed

lemma boot_skip:
  assumes "boot_ok s" and "recovery \<and> n \<in> {''diskd'', ''userd'', ''netd''}"
  shows "\<exists>s'. boot_service env recovery (n, d) (k, s) = (k, s') \<and> states s' = states s \<and> boot_ok s'"
  using assms boot_ok_same [OF skipped_same assms(1), of env n] by (simp add: boot_service_def)

text \<open>The whole sequence, over the indices of the services in boot order.\<close>

definition boot_order :: "nat list" where
  "boot_order = [0, 1, 7, 8, 2, 3, 4, 5, 6, 9]"

definition skipped_in :: "bool \<Rightarrow> nat \<Rightarrow> bool" where
  "skipped_in recovery i \<longleftrightarrow> recovery \<and> i \<in> {3, 4, 6}"

lemma boot_table:
  "list_all2 (\<lambda>(n, d) i. find_name n 0 service_table = int i \<and> i < 10 \<and> nat (dependency (service_table ! i)) < 10 \<and>
     (n \<in> {''diskd'', ''userd'', ''netd''} \<longleftrightarrow> i \<in> {3, 4, 6})) boot_names boot_order"
  by (simp add: boot_names_def boot_order_def service_table_def stopped_def)

fun orderly :: "bool \<Rightarrow> service_state_t list \<Rightarrow> nat list \<Rightarrow> bool" where
  "orderly r L [] \<longleftrightarrow> True"
| "orderly r L (i # is) \<longleftrightarrow>
     (if skipped_in r i then orderly r L is
      else L ! i = SERVICE_STOPPED \<and>
        (dependency (service_table ! i) < 0 \<or> L ! nat (dependency (service_table ! i)) = SERVICE_READY) \<and>
        orderly r (L[i := SERVICE_READY]) is)"

definition booted :: "bool \<Rightarrow> nat list \<Rightarrow> service_state_t list \<Rightarrow> service_state_t list" where
  "booted r is L = fold (\<lambda>i L. if skipped_in r i then L else L[i := SERVICE_READY]) is L"

lemma boot_fold:
  assumes "list_all2 (\<lambda>(n, d) i. find_name n 0 service_table = int i \<and> i < 10 \<and> nat (dependency (service_table ! i)) < 10 \<and>
     (n \<in> {''diskd'', ''userd'', ''netd''} \<longleftrightarrow> i \<in> {3, 4, 6})) ns is"
    and "boot_ok s" and "env_works env" and "orderly r (states s) is"
  shows "\<exists>s'. fold (boot_service env r) ns (k, s) = (k + length (filter (\<lambda>i. \<not> skipped_in r i) is), s') \<and>
    states s' = booted r is (states s)"
  using assms(1,2,4)
proof (induction ns "is" arbitrary: k s rule: list_all2_induct)
  case (Cons nd ns i "is")
  obtain n d where nd: "nd = (n, d)" by (cases nd)
  note t = Cons.hyps(1) [unfolded nd prod.case]
  show ?case
  proof (cases "skipped_in r i")
    case True
    then have "r \<and> n \<in> {''diskd'', ''userd'', ''netd''}" using t by (simp add: skipped_in_def)
    from boot_skip [OF Cons.prems(1) this, of env d k] obtain u where
      "boot_service env r (n, d) (k, s) = (k, u)" "states u = states s" "boot_ok u" by blast
    then show ?thesis using Cons.IH [of u k] Cons.prems True nd by (simp add: booted_def)
  next
    case False
    then have "\<not> (r \<and> n \<in> {''diskd'', ''userd'', ''netd''})" using t by (simp add: skipped_in_def)
    with boot_step [OF Cons.prems(1) assms(3), of n i r d k] t Cons.prems(2) False obtain u where
      "boot_service env r (n, d) (k, s) = (Suc k, u)" "states u = (states s)[i := SERVICE_READY]" "boot_ok u" by auto
    then show ?thesis using Cons.IH [of u "Suc k"] Cons.prems False nd by (simp add: booted_def)
  qed
qed (simp add: booted_def)

lemma boot_orderly: "orderly r (replicate 10 SERVICE_STOPPED) boot_order"
  by (cases r) (simp_all add: boot_order_def skipped_in_def service_table_def stopped_def numeral_eq_Suc)

lemma booted_order:
  "booted False boot_order (replicate 10 SERVICE_STOPPED) = replicate 10 SERVICE_READY"
  "booted True boot_order (replicate 10 SERVICE_STOPPED) =
     map (\<lambda>i. if i \<in> {3, 4, 6} then SERVICE_STOPPED else SERVICE_READY) [0..<10]"
  by (simp_all add: booted_def boot_order_def skipped_in_def numeral_eq_Suc)

section \<open>A machine to boot\<close>

definition demo_cmos :: cmos where
  "demo_cmos = \<lparr>cm_sel = 0, cm_reg = encode 0 demo_date, cm_uip = 7\<rparr>"

definition demo_sys_env :: "cmos sys_env" where
  "demo_sys_env = \<lparr>clk = \<lparr>rdtsc = (\<lambda>w. (0, w)), cpuid_eax = (\<lambda>_. 0), network_ready = (\<lambda>_. True),
       network_ntp_query = (\<lambda>_ _ _ w. (NETWORK_NTP_TIMEOUT, demo_reply 0 0, w)), boot_file = (\<lambda>_. None),
       varfs_mounted = (\<lambda>_. False), varfs_load = (\<lambda>_ _ w. (None, w)), varfs_store = (\<lambda>_ _ w. (False, w)),
       varfs_sync = (\<lambda>w. (False, w))\<rparr>,
     prt = cmos_ports, fs_count = 40, disk_sync = (\<lambda>w. (True, w)), auth_user_count = (\<lambda>_. 2),
     network_init = (\<lambda>w. (True, w)), network_poll = (\<lambda>w. w), network_rx_packets = (\<lambda>_. 0), network_tx_packets = (\<lambda>_. 0)\<rparr>"

definition demo_sys :: "cmos sys" where
  "demo_sys = \<lparr>services = service_table, gfx_active = False, gfx_frames = 0,
     s_timed = \<lparr>clock = demo_date, running = False, valid = False, configured = False, enabled = True,
       synchronized = False, last_error = 0, realtime_correction_ns = 0, last_offset_ns = 0, last_delay_ns = 0,
       base_tsc = 0, base_utc_ns = 0, tsc_hz = 0, last_sync_epoch = 0, next_attempt_ns = 0, last_address = 0,
       last_stratum = 0, timeout_ms = 3000, retries = 3, sync_interval = 3600, updates = 0, uptime = 0, failures = 0,
       server = ''time.cloudflare.com'', t_hw = demo_cmos\<rparr>,
     s_log = empty_log, s_mem = boot_heap,
     s_display = (display_statics demo_cmos (\<lambda>_. 0))\<lparr>initialized := True, width := 80, height := 25\<rparr>\<rparr>"

lemma demo_valid: "valid (timed_init cmos_ports (clk demo_sys_env) (s_timed demo_sys))"
proof -
  have d: "in_range demo_date" by (simp add: in_range_def demo_date_def)
  have "\<exists>w. rtc_read cmos_ports demo_date demo_cmos = (True, demo_date, w)"
    using cmos_sim.rtc_read_device [of demo_cmos "encode 0 demo_date" demo_date] decode_encode [OF d, of 0] d
    by (simp add: demo_cmos_def encode_def [of 0 demo_date "0x0B"])
  then show ?thesis by (auto simp: timed_init_def read_tsc_def demo_sys_def demo_sys_env_def Let_def)
qed

section \<open>Properties\<close>

text \<open>C26: the service table is always well formed: whatever sequence of starts, stops, waits and polls happens,
  with any service numbers, and however the rest of the kernel changes, the ten services keep their names and
  dependencies, and the exit code that \<open>service_exit_code\<close> reports is nonzero exactly for services
  whose state is reported as failed - numbers outside the table included.\<close>

theorem service_table_wellformed:
  assumes "service_reachable env s"
  shows "map label (services s) = map label service_table \<and>
    (\<forall>sid. service_state sid s = SERVICE_FAILED \<longleftrightarrow> service_exit_code sid s \<noteq> 0)"
proof -
  from reachable_table [OF assms] have t: "table_ok (services s)" .
  have "good (services s ! nat sid)" if "in_table sid" for sid
    using that t table_length [OF t] by (simp add: table_ok_def list_all_length in_table_less)
  with t show ?thesis by (simp add: table_ok_def service_state_def service_exit_code_def good_def)
qed

theorem service_table_wellformed_witness:
  "service_exit_code 4 (snd (service_start demo_sys_env 4 (service_init demo_sys_env demo_sys))) \<noteq> 0 \<and>
   map label (services (snd (service_start demo_sys_env 4 (service_init demo_sys_env demo_sys)))) = map label service_table"
proof -
  let ?s = "snd (service_start demo_sys_env 4 (service_init demo_sys_env demo_sys))"
  have "service_reachable demo_sys_env ?s"
    by (intro service_reachable.Start service_reachable.Init) (simp add: demo_sys_def)
  from service_table_wellformed [OF this] have
    "map label (services ?s) = map label service_table" "service_state 4 ?s = SERVICE_FAILED \<longleftrightarrow> service_exit_code 4 ?s \<noteq> 0"
    by blast+
  moreover have "service_state 4 ?s = SERVICE_FAILED"
    by (simp add: service_start_def service_init_def demo_sys_def service_table_def stopped_def in_table_less fail_def
        service_state_def Let_def upd_def numeral_eq_Suc)
  ultimately show ?thesis by blast
qed

text \<open>C25: the boot sequence brings the system up. When the clock chip can be read and the subsystems behind the
  services work, \<open>start_boot_services\<close> starts every service in an order that respects the dependencies and each
  is ready in time: all ten in a normal boot, and in recovery mode the seven that are not skipped, while the three
  that are stay stopped.\<close>

theorem boot_brings_up:
  assumes "map label (services s) = map label service_table" and "env_works env"
    and "valid (timed_init (prt env) (clk env) (s_timed s))" and "memory_heap_bytes (s_mem s) \<noteq> 0"
    and "initialized (s_display s)" and "width (s_display s) \<noteq> 0" and "height (s_display s) \<noteq> 0"
  shows "fst (start_boot_services env recovery (service_init env s)) = (if recovery then 7 else 10) \<and>
    (\<forall>sid. in_table sid \<longrightarrow>
       service_state sid (snd (start_boot_services env recovery (service_init env s))) =
         (if recovery \<and> sid \<in> {3, 4, 6} then SERVICE_STOPPED else SERVICE_READY))"
proof -
  let ?s = "service_init env s"
  have t: "table_ok (services ?s)" using assms(1) by (rule service_init_ok)
  have l: "states ?s = replicate 10 SERVICE_STOPPED"
    using table_length [OF t] by (simp add: service_init_def o_def map_replicate_const)
  have "updates (s_timed ?s) = 1"
    using assms(3) by (auto simp: service_init_def timed_stop_def timed_init_def Let_def case_prod_beta split: if_splits)
  then have b: "boot_ok ?s" using t assms(4-) by (simp add: boot_ok_def service_init_def shape_def)
  have "orderly recovery (states ?s) boot_order" unfolding l by (rule boot_orderly)
  from boot_fold [OF boot_table b assms(2) this, of 0] obtain s' where s':
    "start_boot_services env recovery ?s = (length (filter (\<lambda>i. \<not> skipped_in recovery i) boot_order), s')"
    "states s' = booted recovery boot_order (replicate 10 SERVICE_STOPPED)"
    unfolding l start_boot_services_def by auto
  have n: "length (filter (\<lambda>i. \<not> skipped_in recovery i) boot_order) = (if recovery then 7 else 10)"
    by (simp add: boot_order_def skipped_in_def)
  have "length (services s') = 10" using arg_cong [OF s'(2), of length] booted_order by (cases recovery) simp_all
  then have "state (services s' ! i) = (if recovery \<and> i \<in> {3, 4, 6} then SERVICE_STOPPED else SERVICE_READY)" if "i < 10" for i
    using arg_cong [OF s'(2), of "\<lambda>xs. xs ! i"] that by (cases recovery) (simp_all add: booted_order)
  then show ?thesis by (auto simp: s'(1) n service_state_def in_table_less)
qed

theorem boot_brings_up_witness:
  "fst (start_boot_services demo_sys_env False (service_init demo_sys_env demo_sys)) = 10 \<and>
   service_state 9 (snd (start_boot_services demo_sys_env False (service_init demo_sys_env demo_sys))) = SERVICE_READY"
proof -
  have "env_works demo_sys_env" by (simp add: env_works_def demo_sys_env_def)
  moreover have "memory_heap_bytes (s_mem demo_sys) \<noteq> 0"
    by (simp add: demo_sys_def boot_heap_def heap_setup_def Let_def memory_heap_bytes_def heap_consts)
  moreover have "map label (services demo_sys) = map label service_table" "prt demo_sys_env = cmos_ports"
    "initialized (s_display demo_sys)" "width (s_display demo_sys) \<noteq> 0" "height (s_display demo_sys) \<noteq> 0"
    by (simp_all add: demo_sys_def demo_sys_env_def)
  moreover have "in_table 9" by (simp add: in_table_less)
  ultimately show ?thesis using boot_brings_up [of demo_sys demo_sys_env False] demo_valid by simp
qed

end
