(* ===== verification/Panic.thy ===== *)
theory Panic
  imports Log C_Code
begin

text \<open>
  The kernel panic, \<open>src/kernel/core/panic.c\<close>: the log is saved as text, then the report is printed
  and the processor halts.

  The printing functions are state transformers of the console of theory \<open>Display\<close>; a statement
  list is a \<open>seq\<close>. The values that inline assembly reads are records of registers and \<open>cpuid\<close>
  results, the stack is a byte memory, and the names that the build puts into the text are the
  record \<open>build\<close>. The calls that store the report (\<open>varfs_store\<close>, \<open>pstore_write_panic\<close>) are fields
  of \<open>panic_env\<close>. An access outside \<open>log_save_buf\<close> is \<open>None\<close>.
\<close>

type_synonym 'w out = "'w display \<Rightarrow> 'w display"

definition seq :: "'w out list \<Rightarrow> 'w out" where
  "seq fs st = fold (\<lambda>f. f) fs st"

section \<open>Printing\<close>

definition BOX_H :: char where "BOX_H = CHR 0xCD"
definition BOX_V :: char where "BOX_V = CHR 0xBA"
definition BOX_TL :: char where "BOX_TL = CHR 0xC9"
definition BOX_TR :: char where "BOX_TR = CHR 0xBB"
definition BOX_BL :: char where "BOX_BL = CHR 0xC8"
definition BOX_BR :: char where "BOX_BR = CHR 0xBC"
definition BOX_LS :: char where "BOX_LS = CHR 0xCC"
definition BOX_RS :: char where "BOX_RS = CHR 0xB9"
definition BOX_LC :: char where "BOX_LC = CHR 0xC7"
definition BOX_RC :: char where "BOX_RC = CHR 0xB6"
definition ATTR :: u8 where "ATTR = 0x4F"

definition hex_digits :: string where
  "hex_digits = ''0123456789ABCDEF''"

definition pch :: "'w ports \<Rightarrow> char \<Rightarrow> 'w out" where
  "pch io c = display_putc io c"

definition pst :: "'w ports \<Rightarrow> string \<Rightarrow> 'w out" where
  "pst io s = display_puts io s"

text \<open>\<open>t[(v >> (i * 4)) & 0x0F]\<close>.\<close>

definition nibble :: "u64 \<Rightarrow> nat \<Rightarrow> char" where
  "nibble v i = hex_digits ! unat (drop_bit (i * 4) v AND 0x0F)"

definition ph8 :: "'w ports \<Rightarrow> u64 \<Rightarrow> 'w out" where
  "ph8 io v = fold (\<lambda>i. pch io (nibble v i)) (rev [0..<16])"

definition ph4 :: "'w ports \<Rightarrow> u64 \<Rightarrow> 'w out" where
  "ph4 io v = fold (\<lambda>i. pch io (nibble v i)) (rev [0..<4])"

definition ph2 :: "'w ports \<Rightarrow> u64 \<Rightarrow> 'w out" where
  "ph2 io v = seq [pch io (nibble v 1), pch io (nibble v 0)]"

definition ph1 :: "'w ports \<Rightarrow> u64 \<Rightarrow> 'w out" where
  "ph1 io v = pch io (nibble v 0)"

definition sp :: "'w ports \<Rightarrow> int \<Rightarrow> 'w out" where
  "sp io n = fold (\<lambda>_. pch io (CHR '' '')) [0..<nat n]"

definition rule :: "'w ports \<Rightarrow> char \<Rightarrow> char \<Rightarrow> char \<Rightarrow> 'w out" where
  "rule io l m r = seq [pch io l, fold (\<lambda>_. pch io m) [0..<78], pch io r, pch io LF]"

definition btop :: "'w ports \<Rightarrow> 'w out" where
  "btop io = rule io BOX_TL BOX_H BOX_TR"

definition bbot :: "'w ports \<Rightarrow> 'w out" where
  "bbot io = rule io BOX_BL BOX_H BOX_BR"

definition bsep :: "'w ports \<Rightarrow> 'w out" where
  "bsep io = rule io BOX_LS BOX_H BOX_RS"

definition bdiv :: "'w ports \<Rightarrow> 'w out" where
  "bdiv io = rule io BOX_LC (CHR 0xC4) BOX_RC"

definition vline :: "'w ports \<Rightarrow> string \<Rightarrow> 'w out" where
  "vline io s = seq [pch io BOX_V, pch io (CHR '' ''), pst io s, sp io (76 - int (length s)), pch io BOX_V, pch io LF]"

text \<open>The text and the length; a null pointer is \<open>None\<close>.\<close>

definition bounded_prefix :: "string option \<Rightarrow> nat \<Rightarrow> string" where
  "bounded_prefix s limit = take limit (case s of None \<Rightarrow> ''UNSPECIFIED_KERNEL_FAILURE'' | Some s \<Rightarrow> s)"

definition bounded_text :: "'w ports \<Rightarrow> string option \<Rightarrow> nat \<Rightarrow> 'w display \<Rightarrow> nat \<times> 'w display" where
  "bounded_text io s limit st =
     (length (bounded_prefix s limit), fold (pch io) (bounded_prefix s limit) st)"

definition canonical :: "u64 \<Rightarrow> bool" where
  "canonical a \<longleftrightarrow> drop_bit 48 a = 0 \<or> drop_bit 48 a = 0xFFFF"

definition rhash :: "string option \<Rightarrow> u64" where
  "rhash reason =
     (case reason of None \<Rightarrow> 1469598103934665603
      | Some s \<Rightarrow> fold (\<lambda>c h. (h XOR ucast (ord c)) * 1099511628211) s 1469598103934665603)"

section \<open>Saving the log\<close>

definition LOG_SAVE_SIZE :: nat where "LOG_SAVE_SIZE = 6144"

type_synonym save = "char list \<times> nat"

text \<open>\<open>log_save_buf[pos++] = c\<close>, and the loops with and without the guard \<open>pos + 1 < sizeof log_save_buf\<close>.\<close>

definition emit_char :: "char \<Rightarrow> save \<Rightarrow> save option" where
  "emit_char c = (\<lambda>(b, p). map_option (\<lambda>b. (b, p + 1)) (store p c b))"

fun emit_all :: "string \<Rightarrow> save \<Rightarrow> save option" where
  "emit_all [] s = Some s"
| "emit_all (c # cs) s = (case emit_char c s of None \<Rightarrow> None | Some s \<Rightarrow> emit_all cs s)"

fun emit_guarded :: "string \<Rightarrow> save \<Rightarrow> save option" where
  "emit_guarded [] s = Some s"
| "emit_guarded (c # cs) s =
     (if snd s + 1 < LOG_SAVE_SIZE then case emit_char c s of None \<Rightarrow> None | Some s \<Rightarrow> emit_guarded cs s else Some s)"

text \<open>\<open>if (pos + room < sizeof log_save_buf) { ... }\<close>.\<close>

definition emit_if :: "nat \<Rightarrow> string \<Rightarrow> save \<Rightarrow> save option" where
  "emit_if room t s = (if snd s + room < LOG_SAVE_SIZE then emit_all t s else Some s)"

definition sec_digits :: "u64 \<Rightarrow> string" where
  "sec_digits sec = (if sec = 0 then ''0'' else rev (digits (unat sec)))"

definition frac_text :: "u64 \<Rightarrow> string" where
  "frac_text frac = [CHR ''.'', nibble frac 2, nibble frac 1, nibble frac 0]"

definition level_text :: "int \<Rightarrow> string" where
  "level_text lv = (if lv = LOG_ERROR then ''ERROR'' else if lv = LOG_WARN then ''WARN ''
     else if lv = LOG_INFO then ''INFO '' else ''DEBUG'')"

definition save_entry :: "u64 \<times> int \<times> string \<times> string \<Rightarrow> save \<Rightarrow> save option" where
  "save_entry = (\<lambda>(ts, lv, sub, m) s.
     let sec = ts div 1000000000; frac = ts mod 1000000000 div 1000000 in
     case emit_guarded (sec_digits sec) s of None \<Rightarrow> None | Some s \<Rightarrow>
     case emit_if 4 (frac_text frac) s of None \<Rightarrow> None | Some s \<Rightarrow>
     case emit_if 8 ('' ['' @ level_text lv @ ''] '') s of None \<Rightarrow> None | Some s \<Rightarrow>
     case emit_guarded sub s of None \<Rightarrow> None | Some s \<Rightarrow>
     case emit_if 3 '': '' s of None \<Rightarrow> None | Some s \<Rightarrow>
     case emit_guarded m s of None \<Rightarrow> None | Some s \<Rightarrow> emit_if 1 [LF] s)"

fun save_entries :: "(u64 \<times> int \<times> string \<times> string) list \<Rightarrow> save \<Rightarrow> save option" where
  "save_entries [] s = Some s"
| "save_entries (e # es) s =
     (if snd s + 100 < LOG_SAVE_SIZE then case save_entry e s of None \<Rightarrow> None | Some s \<Rightarrow> save_entries es s
      else Some s)"

definition log_file_name :: "u64 \<Rightarrow> string" where
  "log_file_name i = ''/mnt/logs/log-'' @ map (nibble i) (rev [0..<16]) @ ''.log''"

record 'w panic_env =
  pv_store :: "string \<Rightarrow> string \<Rightarrow> 'w \<Rightarrow> 'w"
  pstore_write_panic :: "string option \<Rightarrow> string \<Rightarrow> 'w \<Rightarrow> 'w"

record 'w panic_state =
  panic_active :: bool
  log_save_buf :: "char list"
  log_save_size :: nat
  p_log :: logd
  p_hw :: 'w
  p_display :: "'w display"

text \<open>The whole buffer is zero-terminated, its size stored, and the file written unless the log is empty.\<close>

definition panic_log_save :: "'w panic_env \<Rightarrow> u64 \<Rightarrow> 'w panic_state \<Rightarrow> 'w panic_state option" where
  "panic_log_save env i s =
     (case save_entries (log_view (p_log s)) (log_save_buf s, 0) of None \<Rightarrow> None
      | Some (b, p) \<Rightarrow>
          map_option (\<lambda>b. let s = s\<lparr>log_save_buf := b, log_save_size := p\<rparr> in
             if p = 0 then s else s\<lparr>p_hw := pv_store env (log_file_name i) (take p b) (p_hw s)\<rparr>)
          (if p + 1 < LOG_SAVE_SIZE then store p NUL b else Some b))"

section \<open>The report\<close>

record regs =
  rax :: u64 rbx :: u64 rcx :: u64 rdx :: u64 rsi :: u64 rdi :: u64 rbp :: u64 rsp :: u64
  r8 :: u64 r9 :: u64 r10 :: u64 r11 :: u64 r12 :: u64 r13 :: u64 r14 :: u64 r15 :: u64
  rip :: u64 rflags :: u64 cr0 :: u64 cr2 :: u64 cr3 :: u64 cr4 :: u64
  seg_cs :: u64 seg_ss :: u64 seg_ds :: u64 seg_es :: u64 seg_fs :: u64 seg_gs :: u64

record cpu =
  cpuid_max :: u32
  vendor0 :: u64
  vendor1 :: u64
  vendor2 :: u64
  eax1 :: u32

record build =
  os_name :: string
  kernel_version :: string
  architecture :: string

text \<open>A boxed line, and a line with three registers.\<close>

definition boxed :: "'w ports \<Rightarrow> 'w out list \<Rightarrow> 'w out" where
  "boxed io body = seq ([pch io BOX_V] @ body @ [pch io BOX_V, pch io LF])"

definition reg_line :: "'w ports \<Rightarrow> string \<Rightarrow> u64 \<Rightarrow> string \<Rightarrow> u64 \<Rightarrow> string \<Rightarrow> u64 \<Rightarrow> 'w out" where
  "reg_line io a x b y c z =
     boxed io [pst io a, ph8 io x, pst io b, ph8 io y, pst io c, ph8 io z, sp io 10]"

definition panic_head :: "'w ports \<Rightarrow> 'w out" where
  "panic_head io = seq
     [btop io,
      boxed io [pst io ''                         ***  OS64 KERNEL PANIC  ***                        ''],
      bsep io,
      vline io ''OS64 encountered an unrecoverable kernel fault and stopped safely.'',
      vline io ''User-program and filesystem errors must not reach this screen.'',
      vline io ''Record the panic ID and attach the saved kernel log when reporting it.'',
      boxed io [pst io ''  Stop code: OS64_KERNEL_PANIC                                               '']]"

definition reason_of :: "string option \<Rightarrow> string option" where
  "reason_of reason = (case reason of Some s \<Rightarrow> if s = [] then None else Some s | None \<Rightarrow> None)"

definition panic_reason :: "'w ports \<Rightarrow> string option \<Rightarrow> 'w out" where
  "panic_reason io reason = boxed io
     [pst io ''  Reason:    '',
      \<lambda>st. let (rl, st) = bounded_text io (reason_of reason) 60 st in sp io (60 - int rl) st]"

definition panic_registers :: "'w ports \<Rightarrow> regs \<Rightarrow> 'w out" where
  "panic_registers io r = seq
     [bsep io,
      vline io ''Recovery: reboot into OS64 Recovery Mode and inspect /mnt/logs.'',
      vline io ''Do not continue using the machine after an unrecoverable kernel fault.'',
      bsep io,
      reg_line io ''  RAX '' (rax r) ''  RBX '' (rbx r) ''  RCX '' (rcx r),
      reg_line io ''  RDX '' (rdx r) ''  RSI '' (rsi r) ''  RDI '' (rdi r),
      reg_line io ''  RBP '' (rbp r) ''  RSP '' (rsp r) ''  R8  '' (r8 r),
      reg_line io ''  R9  '' (r9 r) ''  R10 '' (r10 r) ''  R11 '' (r11 r),
      reg_line io ''  R12 '' (r12 r) ''  R13 '' (r13 r) ''  R14 '' (r14 r),
      reg_line io ''  R15 '' (r15 r) ''  RIP '' (rip r) ''  RFL '' (rflags r),
      bsep io,
      reg_line io ''  CR0 '' (cr0 r) ''  CR2 '' (cr2 r) ''  CR3 '' (cr3 r),
      boxed io [pst io ''  CR4 '', ph8 io (cr4 r), pst io ''  CS:'', ph4 io (seg_cs r), pst io '' SS:'', ph4 io (seg_ss r),
        pst io '' DS:'', ph4 io (seg_ds r), pst io '' ES:'', ph4 io (seg_es r), pst io '' FS:'', ph4 io (seg_fs r),
        pst io '' GS:'', ph4 io (seg_gs r), sp io 14],
      bdiv io]"

text \<open>Family, model and stepping.\<close>

definition cpu_signature :: "cpu \<Rightarrow> u32 \<times> u32 \<times> u32" where
  "cpu_signature c =
     (if 1 \<le> cpuid_max c
      then let stepping = eax1 c AND 0xF; model = drop_bit 4 (eax1 c) AND 0xF; family = drop_bit 8 (eax1 c) AND 0xF
        in if family = 6 \<or> family = 15
           then (family + (drop_bit 20 (eax1 c) AND 0xFF), model OR (drop_bit 16 (eax1 c) AND 0xF0), stepping)
           else (family, model, stepping)
      else (0, 0, 0))"

definition vendor_chars :: "'w ports \<Rightarrow> u64 \<Rightarrow> 'w out" where
  "vendor_chars io v = fold (\<lambda>i. pch io (chr (ucast (drop_bit (i * 8) v)))) [0..<4]"

definition panic_cpu :: "'w ports \<Rightarrow> cpu \<Rightarrow> 'w out" where
  "panic_cpu io c =
     (let (family, model, stepping) = cpu_signature c in seq
       [boxed io [pst io ''  Vendor: '', vendor_chars io (vendor0 c), vendor_chars io (vendor1 c), vendor_chars io (vendor2 c),
          pst io ''  Family: '', ph2 io (ucast family), pst io ''  Model: '', ph2 io (ucast model),
          pst io ''  Step: '', ph1 io (ucast stepping), sp io 26],
        bdiv io])"

text \<open>The frame-pointer chain, at most six frames.\<close>

fun frames :: "memory \<Rightarrow> nat \<Rightarrow> u64 \<Rightarrow> u64 list" where
  "frames m 0 walk = []"
| "frames m (Suc n) walk =
     (if walk \<noteq> 0 \<and> canonical walk then ld64 m (unat (walk + 8)) # frames m n (ld64 m (unat walk)) else [])"

definition trace_row :: "'w ports \<Rightarrow> u64 list \<Rightarrow> nat \<Rightarrow> 'w out" where
  "trace_row io fr i =
     (let end = min (i + 3) (length fr) in boxed io
       [fold (\<lambda>j. seq [pch io (CHR '' ''), pch io (CHR ''#''), ph1 io (of_nat j), pch io (CHR '' ''), ph8 io (fr ! j)])
          [i..<end],
        sp io (77 - int (1 + 20 * (end - i)))])"

definition panic_trace :: "'w ports \<Rightarrow> u64 list \<Rightarrow> 'w out" where
  "panic_trace io fr = seq
     [boxed io [pst io ''  Call trace:'', sp io 64],
      if fr = [] then boxed io [pst io ''  (unavailable - RBP chain invalid)                                         '']
      else fold (\<lambda>k. trace_row io fr (3 * k)) [0..<(length fr + 2) div 3],
      bdiv io]"

definition stack_cell :: "'w ports \<Rightarrow> memory \<Rightarrow> u64 \<Rightarrow> nat \<Rightarrow> 'w out" where
  "stack_cell io m sp_reg idx = seq
     [pch io (CHR '' ''), ph2 io (of_nat (idx * 8)), pch io (CHR '' ''), ph8 io (ld64 m (unat (sp_reg + of_nat (idx * 8)))),
      pch io (CHR '' '')]"

definition stack_row :: "'w ports \<Rightarrow> memory \<Rightarrow> u64 \<Rightarrow> nat \<Rightarrow> 'w out" where
  "stack_row io m sp_reg k =
     (let idxs = filter (\<lambda>idx. idx < 16) (map (\<lambda>c. k * 4 + c) [0..<4]) in boxed io
       [fold (stack_cell io m sp_reg) idxs, sp io (78 - int (1 + 21 * length idxs))])"

definition panic_stack :: "'w ports \<Rightarrow> memory \<Rightarrow> u64 \<Rightarrow> 'w out" where
  "panic_stack io m sp_reg = seq
     [boxed io [pst io ''  Stack dump:'', sp io 65],
      if sp_reg = 0 \<or> \<not> canonical sp_reg
      then boxed io [pst io ''  Stack pointer unavailable                                                    '']
      else seq [stack_row io m sp_reg 0, stack_row io m sp_reg 1],
      bsep io]"

definition panic_foot :: "'w ports \<Rightarrow> build \<Rightarrow> u64 \<Rightarrow> 'w out" where
  "panic_foot io bd i = seq
     [boxed io [pst io ''  Panic ID: 0x'', ph8 io i,
        pst io (''    System halted    '' @ os_name bd @ '' '' @ kernel_version bd @ '' '' @ architecture bd), sp io 4],
      bbot io]"

text \<open>Everything after the reason, and the whole screen.\<close>

definition panic_rest :: "'w ports \<Rightarrow> build \<Rightarrow> cpu \<Rightarrow> memory \<Rightarrow> regs \<Rightarrow> u64 \<Rightarrow> 'w out" where
  "panic_rest io bd c m r i = seq
     [panic_registers io r, panic_cpu io c, panic_trace io (frames m 6 (rbp r)), panic_stack io m (rsp r), panic_foot io bd i]"

definition panic_screen :: "'w ports \<Rightarrow> build \<Rightarrow> cpu \<Rightarrow> memory \<Rightarrow> regs \<Rightarrow> string option \<Rightarrow> u64 \<Rightarrow> 'w out" where
  "panic_screen io bd c m r reason i = seq
     [display_color io ATTR, display_clear io, panic_head io, panic_reason io reason, panic_rest io bd c m r i]"

definition panic_id :: "string option \<Rightarrow> regs \<Rightarrow> u64" where
  "panic_id reason r = rhash reason XOR rsp r XOR cr2 r XOR rip r"

text \<open>The state in which the processor halts; a second panic halts at once.\<close>

definition kernel_panic :: "'w ports \<Rightarrow> 'w panic_env \<Rightarrow> build \<Rightarrow> cpu \<Rightarrow> memory \<Rightarrow> regs \<Rightarrow> string option \<Rightarrow>
    'w panic_state \<Rightarrow> 'w panic_state option" where
  "kernel_panic io env bd c m r reason s =
     (if panic_active s then Some s
      else map_option (\<lambda>s.
          let s = s\<lparr>p_hw := pstore_write_panic env reason (take (log_save_size s) (log_save_buf s)) (p_hw s)\<rparr>
          in s\<lparr>p_display := panic_screen io bd c m r reason (panic_id reason r) (p_display s)\<rparr>)
        (panic_log_save env (panic_id reason r) (s\<lparr>panic_active := True\<rparr>)))"

section \<open>The report as a text\<close>

text \<open>\<open>prints io n f\<close>: the function prints a text with at least \<open>n\<close> line feeds.\<close>

definition prints :: "'w ports \<Rightarrow> nat \<Rightarrow> 'w out \<Rightarrow> bool" where
  "prints io n f \<longleftrightarrow> (\<exists>t. f = display_puts io t \<and> n \<le> count_list t LF)"

lemma display_puts_append: "display_puts io (s @ t) st = display_puts io t (display_puts io s st)"
  by (simp add: display_puts_def)

lemma seq_Cons: "seq (f # fs) st = seq fs (f st)"
  by (simp add: seq_def)

lemma prints_pch: "prints io 0 (pch io c)" "prints io 1 (pch io LF)"
  unfolding prints_def by (rule exI [of _ "[c]"], simp add: pch_def display_puts_def fun_eq_iff)
    (rule exI [of _ "[LF]"], simp add: pch_def display_puts_def fun_eq_iff)

lemma prints_pst: "prints io 0 (pst io s)"
  by (auto simp: prints_def pst_def fun_eq_iff)

lemma prints_Nil: "prints io 0 (seq [])"
  unfolding prints_def by (rule exI [of _ "[]"]) (simp add: seq_def display_puts_def fun_eq_iff)

lemma prints_Cons: "prints io m f \<Longrightarrow> prints io n (seq fs) \<Longrightarrow> prints io (m + n) (seq (f # fs))"
  unfolding prints_def
  by (elim exE conjE, rule_tac x = "t @ ta" in exI) (simp add: seq_Cons display_puts_append fun_eq_iff)

lemma prints_fold: "(\<And>x. prints io 0 (f x)) \<Longrightarrow> prints io 0 (fold f xs)"
proof (induction xs)
  case Nil
  then show ?case unfolding prints_def by (intro exI [of _ "[]"]) (simp add: display_puts_def fun_eq_iff)
next
  case (Cons x xs)
  then obtain s t where "f x = display_puts io s" "fold f xs = display_puts io t" unfolding prints_def by blast
  then show ?case unfolding prints_def by (intro exI [of _ "s @ t"]) (simp add: display_puts_append fun_eq_iff)
qed

lemma prints_le: "prints io n f \<Longrightarrow> m \<le> n \<Longrightarrow> prints io m f"
  by (auto simp: prints_def)

lemma prints_fold_pos: "xs \<noteq> [] \<Longrightarrow> (\<And>x. prints io n (f x)) \<Longrightarrow> prints io n (fold f xs)"
proof -
  assume x: "xs \<noteq> []" and f: "\<And>x. prints io n (f x)"
  from x obtain y ys where xs: "xs = y # ys" by (cases xs) auto
  have "prints io 0 (fold f ys)" using f prints_le by (intro prints_fold) blast
  then obtain s t where "f y = display_puts io s" "n \<le> count_list s LF" "fold f ys = display_puts io t"
    using f [of y] unfolding prints_def by blast
  then show ?thesis unfolding prints_def xs by (intro exI [of _ "s @ t"]) (simp add: display_puts_append fun_eq_iff)
qed

lemma prints_seq0: "list_all (prints io 0) fs \<Longrightarrow> prints io 0 (seq fs)"
  by (induction fs) (auto intro: prints_Nil prints_Cons [of _ 0 _ 0, simplified])

lemma prints_boxed: "list_all (prints io 0) fs \<Longrightarrow> prints io 1 (boxed io fs)"
proof -
  assume "list_all (prints io 0) fs"
  moreover have "prints io 1 (seq [pch io BOX_V, pch io LF])"
    using prints_Cons [OF prints_pch(1) prints_Cons [OF prints_pch(2) prints_Nil]] by simp
  ultimately have "prints io 1 (seq (fs @ [pch io BOX_V, pch io LF]))"
    by (induction fs) (auto dest: prints_Cons)
  then show ?thesis unfolding boxed_def using prints_Cons [OF prints_pch(1)] by fastforce
qed

lemma prints_numbers:
  "prints io 0 (ph8 io v)" "prints io 0 (ph4 io v)" "prints io 0 (ph2 io v)" "prints io 0 (ph1 io v)" "prints io 0 (sp io k)"
  "prints io 0 (vendor_chars io v)"
  by (simp_all add: ph8_def ph4_def ph2_def ph1_def sp_def vendor_chars_def prints_fold prints_pch prints_seq0)

lemma prints_seq: "list_all2 (prints io) ns fs \<Longrightarrow> prints io (sum_list ns) (seq fs)"
  by (induction rule: list_all2_induct) (auto intro: prints_Nil prints_Cons)

lemma prints_lines: "list_all2 (prints io) ns fs \<Longrightarrow> sum_list ns = n \<Longrightarrow> prints io n (seq fs)"
  using prints_seq by blast

lemma prints_rule: "prints io 1 (rule io l m r)"
  unfolding rule_def
  by (rule prints_lines [of _ "[0, 0, 0, 1]"]) (simp_all add: prints_pch prints_pch [unfolded One_nat_def] prints_fold)

lemma prints_box: "prints io 1 (btop io)" "prints io 1 (bbot io)" "prints io 1 (bsep io)" "prints io 1 (bdiv io)"
  by (simp_all only: btop_def bbot_def bsep_def bdiv_def prints_rule)

lemma prints_vline: "prints io 1 (vline io s)"
  unfolding vline_def
  by (rule prints_lines [of _ "[0, 0, 0, 0, 0, 1]"])
    (simp_all add: prints_pch prints_pch [unfolded One_nat_def] prints_pst prints_numbers)

lemma prints_reg_line: "prints io 1 (reg_line io a x b y c z)"
  unfolding reg_line_def by (rule prints_boxed) (simp add: prints_pst prints_numbers)

text \<open>The facts for a report line.\<close>

lemmas prints_line = prints_box [unfolded One_nat_def] prints_vline [unfolded One_nat_def]
  prints_reg_line [unfolded One_nat_def] prints_boxed [unfolded One_nat_def] prints_pst prints_numbers

lemma prints_registers: "prints io 14 (panic_registers io r)"
  unfolding panic_registers_def
  by (rule prints_lines [of _ "replicate 14 1"]) (simp_all add: numeral_eq_Suc prints_line)

lemma prints_cpu: "prints io 2 (panic_cpu io c)"
  unfolding panic_cpu_def Let_def case_prod_beta
  by (rule prints_lines [of _ "[1, 1]"]) (simp_all add: prints_line)

lemma prints_trace: "prints io 3 (panic_trace io fr)"
proof -
  have row: "prints io 1 (trace_row io fr i)" for i
    unfolding trace_row_def Let_def by (intro prints_boxed) (simp add: prints_fold prints_seq0 prints_pch prints_numbers)
  have "prints io 1 (if fr = [] then boxed io [pst io t] else fold (\<lambda>k. trace_row io fr (3 * k)) [0..<(length fr + 2) div 3])" for t
  proof (cases "fr = []")
    case True
    have "prints io 1 (boxed io [pst io t])" by (rule prints_boxed) (simp add: prints_pst)
    then show ?thesis using True by simp
  next
    case False
    then have "[0..<(length fr + 2) div 3] \<noteq> []" by (cases fr) simp_all
    then have "prints io 1 (fold (\<lambda>k. trace_row io fr (3 * k)) [0..<(length fr + 2) div 3])" by (rule prints_fold_pos) (rule row)
    then show ?thesis using False by simp
  qed
  then show ?thesis unfolding panic_trace_def
    by (intro prints_lines [of _ "[1, 1, 1]"]) (simp_all add: prints_line)
qed

lemma prints_stack: "prints io 3 (panic_stack io m v)"
proof -
  have row: "prints io 1 (stack_row io m v k)" for k
    unfolding stack_row_def Let_def stack_cell_def
    by (intro prints_boxed) (simp add: prints_fold prints_seq0 prints_pch prints_numbers)
  have "prints io 2 (seq [stack_row io m v 0, stack_row io m v 1])"
    by (rule prints_lines [of _ "[1, 1]"]) (simp_all add: row [unfolded One_nat_def])
  then have "prints io 1 (seq [stack_row io m v 0, stack_row io m v 1])" by (rule prints_le) simp
  then show ?thesis unfolding panic_stack_def
    by (intro prints_lines [of _ "[1, 1, 1]"]) (simp_all add: prints_line)
qed

lemma prints_foot: "prints io 2 (panic_foot io bd i)"
  unfolding panic_foot_def by (rule prints_lines [of _ "[1, 1]"]) (simp_all add: prints_line)

lemma prints_head: "prints io 7 (panic_head io)"
  unfolding panic_head_def by (rule prints_lines [of _ "replicate 7 1"]) (simp_all add: numeral_eq_Suc prints_line)

lemma prints_rest: "prints io 24 (panic_rest io bd c m r i)"
  unfolding panic_rest_def
  by (rule prints_lines [of _ "[14, 2, 3, 3, 2]"])
    (simp_all add: prints_registers prints_cpu prints_trace prints_stack prints_foot)

section \<open>What scrolls off the screen\<close>

text \<open>Two teletypes with the cursor at the same place whose cells agree below row \<open>m\<close>.\<close>

definition agree :: "int \<Rightarrow> tty \<Rightarrow> tty \<Rightarrow> bool" where
  "agree m s t \<longleftrightarrow> snd s = snd t \<and> (\<forall>x y. m < int y \<longrightarrow> fst s x y = fst t x y)"

lemma agree_mono: "agree m s t \<Longrightarrow> m \<le> n \<Longrightarrow> agree n s t"
  by (auto simp: agree_def)

lemma agree_scroll:
  assumes "agree m (g, r, c) (g', r, c)"
  shows "agree (if r < h then m else m - 1) (tty_scroll w h a (g, r, c)) (tty_scroll w h a (g', r, c))"
  using assms by (auto simp: agree_def tty_scroll_def)

lemma agree_type:
  assumes "agree m (g, r, c) (g', r, c)"
  shows "agree m (tty_type w h a ch (g, r, c)) (tty_type w h a ch (g', r, c))"
  using assms by (auto simp: agree_def tty_type_def tty_store_def Let_def)

text \<open>Printing the same text moves the difference up by at least the number of line feeds.\<close>

lemma agree_char:
  assumes "agree (int r - d) (g, r, c) (g', r, c)" and "r < h"
  shows "\<exists>f f' r' c'. tty_char w h a ch (g, r, c) = (f, r', c') \<and> tty_char w h a ch (g', r, c) = (f', r', c') \<and> r' < h \<and>
    agree (int r' - (d + (if ch = LF then 1 else 0))) (f, r', c') (f', r', c')"
proof -
  obtain f r1 c1 where t: "tty_type w h a ch (g, r, c) = (f, r1, c1)" by (metis prod_cases3)
  obtain f' r2 c2 where t': "tty_type w h a ch (g', r, c) = (f', r2, c2)" by (metis prod_cases3)
  have a: "agree (int r - d) (f, r1, c1) (f', r2, c2)" using agree_type [OF assms(1), of w h a ch] t t' by simp
  then have e: "r2 = r1" "c2 = c1" by (simp_all add: agree_def)
  have r: "r1 = r \<or> r1 = Suc r" "ch = LF \<longrightarrow> r1 = Suc r"
    using t by (auto simp: tty_type_def Let_def split: if_splits)
  note s = agree_scroll [OF a [unfolded e], of h w a]
  have p: "\<exists>k. tty_scroll w h a (f, r1, c1) = (k, if r1 < h then r1 else h - 1, c1)" for f
    by (simp add: tty_scroll_def)
  from p [of f] obtain k where k: "tty_scroll w h a (f, r1, c1) = (k, if r1 < h then r1 else h - 1, c1)" by blast
  from p [of f'] obtain k' where k': "tty_scroll w h a (f', r1, c1) = (k', if r1 < h then r1 else h - 1, c1)" by blast
  let ?r = "if r1 < h then r1 else h - 1"
  have "agree (int ?r - (d + (if ch = LF then 1 else 0))) (k, ?r, c1) (k', ?r, c1)"
    by (rule agree_mono [OF s [unfolded k k']]) (use r assms(2) in \<open>auto simp: of_nat_diff\<close>)
  moreover have "?r < h" using assms(2) by auto
  ultimately show ?thesis unfolding tty_char_def t t' e k k' by blast
qed

lemma agree_text:
  assumes "agree (int r - d) (g, r, c) (g', r, c)" and "r < h"
  shows "\<exists>f f' r' c'. fold (tty_char w h a) s (g, r, c) = (f, r', c') \<and> fold (tty_char w h a) s (g', r, c) = (f', r', c') \<and>
    r' < h \<and> agree (int r' - (d + int (count_list s LF))) (f, r', c') (f', r', c')"
  using assms
proof (induction s arbitrary: g g' r c d)
  case (Cons ch s)
  from agree_char [OF Cons.prems, of w a ch] obtain f f' r' c' where
    1: "tty_char w h a ch (g, r, c) = (f, r', c')" "tty_char w h a ch (g', r, c) = (f', r', c')" "r' < h"
      "agree (int r' - (d + (if ch = LF then 1 else 0))) (f, r', c') (f', r', c')" by blast
  from Cons.IH [OF 1(4,3)] 1(1,2) show ?case by (auto simp: ac_simps)
qed auto

text \<open>Different printable characters keep the cursors together.\<close>

definition printable :: "char \<Rightarrow> bool" where
  "printable c \<longleftrightarrow> c \<noteq> LF \<and> c \<noteq> BS"

lemma agree_other:
  assumes "agree (int r) (g, r, c) (g', r, c)" and "r < h" and "printable x" and "printable y"
  shows "\<exists>f f' r' c'. tty_char w h a x (g, r, c) = (f, r', c') \<and> tty_char w h a y (g', r, c) = (f', r', c') \<and> r' < h \<and>
    agree (int r') (f, r', c') (f', r', c')"
  using assms by (auto simp: tty_char_def tty_type_def tty_scroll_def printable_def agree_def tty_store_def Let_def)

lemma agree_others:
  assumes "agree (int r) (g, r, c) (g', r, c)" and "r < h" and "length s = length t" and "list_all printable s" "list_all printable t"
  shows "\<exists>f f' r' c'. fold (tty_char w h a) s (g, r, c) = (f, r', c') \<and> fold (tty_char w h a) t (g', r, c) = (f', r', c') \<and>
    r' < h \<and> agree (int r') (f, r', c') (f', r', c')"
  using assms(3,1,2,4,5)
proof (induction s t arbitrary: g g' r c rule: list_induct2)
  case (Cons x s y t)
  from agree_other [OF Cons.prems(1,2), of x y w a] Cons.prems obtain f f' r' c' where
    1: "tty_char w h a x (g, r, c) = (f, r', c')" "tty_char w h a y (g', r, c) = (f', r', c')" "r' < h"
      "agree (int r') (f, r', c') (f', r', c')" by auto
  from Cons.IH [OF 1(4,3)] Cons.prems 1(1,2) show ?case by simp
qed auto

lemma puts_screen:
  assumes "console_ok st" and "output_sink st = None"
  shows "console_ok (display_puts io s st) \<and> output_sink (display_puts io s st) = None \<and>
    width (display_puts io s st) = width st \<and> height (display_puts io s st) = height st \<and>
    color (display_puts io s st) = color st \<and>
    screen (display_puts io s st) = fold (tty_char (width st) (height st) (color st)) s (screen st)"
  using assms
proof (induction s arbitrary: st)
  case (Cons c s)
  note p = display_putc_screen [OF Cons.prems, of io c]
  from Cons.IH [of "display_putc io c st"] p show ?case by (simp add: display_puts_def)
qed (simp add: display_puts_def)

lemma clear_fields: "width (display_clear io st) = width st \<and> height (display_clear io st) = height st \<and>
    color (display_clear io st) = color st \<and> output_sink (display_clear io st) = output_sink st"
proof -
  have "cells_only st (fold (\<lambda>y. fold (\<lambda>x st. render_cell x y 32 (color st) st) [0..<width st]) [0..<height st] st)"
    by (intro cells_only_fold cells_only_render)
  from cells_only_fields [OF this] show ?thesis by (simp add: display_clear_def Let_def)
qed

lemma color_fields: "width (display_color io a st) = width st \<and> height (display_color io a st) = height st \<and>
    output_sink (display_color io a st) = output_sink st \<and> (geometry_ok st \<longrightarrow> geometry_ok (display_color io a st))"
  by (simp add: display_color_def apply_color_def Let_def geometry_ok_def)

text \<open>The line with the reason.\<close>

definition reason_text :: "string option \<Rightarrow> string" where
  "reason_text reason = (let p = bounded_prefix (reason_of reason) 60
     in [BOX_V] @ ''  Reason:    '' @ p @ replicate (60 - length p) (CHR '' '') @ [BOX_V])"

lemma length_reason_text: "length (reason_text reason) = 75"
  by (simp add: reason_text_def bounded_prefix_def Let_def)

lemma sp_text: "sp io n = display_puts io (replicate (nat n) (CHR '' ''))"
proof -
  have "fold (\<lambda>_. pch io c) [0..<k] st = fold (display_putc io) (replicate k c) st" for k c and st :: "'a display"
    by (induction k arbitrary: st) (simp_all add: pch_def fold_append flip: replicate_append_same)
  then show ?thesis by (simp add: sp_def display_puts_def fun_eq_iff)
qed

lemma panic_reason_text: "panic_reason io reason = display_puts io (reason_text reason @ [LF])"
proof -
  have "nat (60 - int n) = 60 - n" for n by simp
  then show ?thesis
    by (simp add: panic_reason_def boxed_def seq_def bounded_text_def sp_text pst_def fun_eq_iff display_puts_def reason_text_def
        Let_def pch_def [abs_def])
qed

lemma printable_reason:
  assumes "\<forall>s. reason = Some s \<longrightarrow> list_all printable s"
  shows "list_all printable (reason_text reason)"
proof -
  have "list_all printable ''UNSPECIFIED_KERNEL_FAILURE''" "list_all printable ''  Reason:    ''" "printable BOX_V" "printable (CHR '' '')"
    by (simp_all add: printable_def BOX_V_def)
  moreover have "list_all printable (bounded_prefix (reason_of reason) 60)"
    using assms calculation(1) unfolding bounded_prefix_def reason_of_def
    by (auto simp: list_all_iff dest!: in_set_takeD split: option.splits if_splits)
  ultimately show ?thesis unfolding reason_text_def Let_def list_all_append by (simp add: list_all_iff)
qed

section \<open>The saved log\<close>

text \<open>\<open>wrote t s s'\<close>: the text \<open>t\<close> was appended, inside the buffer.\<close>

definition wrote :: "string \<Rightarrow> save \<Rightarrow> save \<Rightarrow> bool" where
  "wrote t s s' \<longleftrightarrow> length (fst s') = LOG_SAVE_SIZE \<and> snd s' = snd s + length t \<and> snd s' \<le> LOG_SAVE_SIZE \<and>
     take (snd s') (fst s') = take (snd s) (fst s) @ t"

definition save_ok :: "save \<Rightarrow> bool" where
  "save_ok s \<longleftrightarrow> length (fst s) = LOG_SAVE_SIZE \<and> snd s \<le> LOG_SAVE_SIZE"

lemma wrote_ok: "wrote t s s' \<Longrightarrow> save_ok s'"
  by (simp add: wrote_def save_ok_def)

lemma wrote_Nil: "save_ok s \<Longrightarrow> wrote [] s s"
  by (simp add: wrote_def save_ok_def)

lemma wrote_append: "wrote t s s' \<Longrightarrow> wrote u s' s'' \<Longrightarrow> wrote (t @ u) s s''"
  unfolding wrote_def by (elim conjE) (simp only: length_append add.assoc append_assoc simp_thms)

lemma wrote_size: "wrote t s s' \<Longrightarrow> snd s' = snd s + length t"
  by (simp add: wrote_def)

lemma emit_char_wrote:
  assumes "save_ok s" and "snd s < LOG_SAVE_SIZE"
  shows "\<exists>s'. emit_char c s = Some s' \<and> wrote [c] s s'"
  using assms by (cases s) (simp add: emit_char_def store_def wrote_def save_ok_def take_Suc_conv_app_nth)

lemma emit_all_wrote: "save_ok s \<Longrightarrow> snd s + length t \<le> LOG_SAVE_SIZE \<Longrightarrow> \<exists>s'. emit_all t s = Some s' \<and> wrote t s s'"
proof (induction t arbitrary: s)
  case (Cons c t)
  then obtain s1 where 1: "emit_char c s = Some s1" "wrote [c] s s1" using emit_char_wrote [of s c] by auto
  with Cons.IH [OF wrote_ok [OF 1(2)]] Cons.prems(2) obtain s2 where "emit_all t s1 = Some s2" "wrote t s1 s2"
    by (auto simp: wrote_size)
  with 1 wrote_append [OF 1(2)] show ?case by fastforce
qed (simp add: wrote_Nil)

lemma emit_guarded_wrote:
  assumes "save_ok s"
  shows "\<exists>k s'. emit_guarded t s = Some s' \<and> wrote (take k t) s s' \<and> (snd s + length t < LOG_SAVE_SIZE \<longrightarrow> k = length t)"
  using assms
proof (induction t arbitrary: s)
  case Nil
  then show ?case by (auto simp: wrote_Nil)
next
  case (Cons c t)
  show ?case
  proof (cases "snd s + 1 < LOG_SAVE_SIZE")
    case True
    then obtain s1 where 1: "emit_char c s = Some s1" "wrote [c] s s1" using emit_char_wrote [OF Cons.prems, of c] by auto
    from Cons.IH [OF wrote_ok [OF 1(2)]] obtain k s2 where
      2: "emit_guarded t s1 = Some s2" "wrote (take k t) s1 s2" "snd s1 + length t < LOG_SAVE_SIZE \<longrightarrow> k = length t" by blast
    then show ?thesis using True 1 wrote_append [OF 1(2) 2(2)] by (intro exI [of _ "Suc k"] exI [of _ s2]) (auto simp: wrote_size)
  next
    case False
    then show ?thesis using wrote_Nil [OF Cons.prems] by (intro exI [of _ 0] exI [of _ s]) auto
  qed
qed

lemma emit_if_wrote:
  assumes "save_ok s" and "length t \<le> room + 1"
  shows "\<exists>u s'. emit_if room t s = Some s' \<and> wrote u s s' \<and> (snd s + room < LOG_SAVE_SIZE \<longrightarrow> u = t)"
proof (cases "snd s + room < LOG_SAVE_SIZE")
  case True
  then show ?thesis using emit_all_wrote [OF assms(1), of t] assms(2) by (auto simp: emit_if_def)
next
  case False
  then show ?thesis using wrote_Nil [OF assms(1)] by (intro exI [of _ "[]"] exI [of _ s]) (simp add: emit_if_def)
qed

text \<open>The line of an entry.\<close>

definition saved_line :: "u64 \<times> int \<times> string \<times> string \<Rightarrow> string" where
  "saved_line = (\<lambda>(ts, lv, sub, m). sec_digits (ts div 1000000000) @ frac_text (ts mod 1000000000 div 1000000) @
     ('' ['' @ level_text lv @ ''] '') @ sub @ '': '' @ m @ [LF])"

lemma save_entry_wrote:
  assumes "save_ok s"
  shows "\<exists>u s'. save_entry e s = Some s' \<and> wrote u s s' \<and>
    (snd s + 100 < LOG_SAVE_SIZE \<and> length (saved_line e) \<le> 100 \<longrightarrow> u = saved_line e)"
proof -
  obtain ts lv sub m where e: "e = (ts, lv, sub, m)" by (metis prod_cases4)
  let ?n = "sec_digits (ts div 1000000000)" and ?f = "frac_text (ts mod 1000000000 div 1000000)"
    and ?l = "'' ['' @ level_text lv @ ''] ''"
  have l: "length ?f \<le> 4 + 1" "length ?l \<le> 8 + 1" "length ?f = 4" "length ?l = 9" by (simp_all add: frac_text_def level_text_def)
  obtain k1 s1 where 1: "emit_guarded ?n s = Some s1" "wrote (take k1 ?n) s s1" "snd s + length ?n < LOG_SAVE_SIZE \<longrightarrow> k1 = length ?n"
    using emit_guarded_wrote [OF assms] by blast
  obtain u2 s2 where 2: "emit_if 4 ?f s1 = Some s2" "wrote u2 s1 s2" "snd s1 + 4 < LOG_SAVE_SIZE \<longrightarrow> u2 = ?f"
    using emit_if_wrote [OF wrote_ok [OF 1(2)] l(1)] by blast
  obtain u3 s3 where 3: "emit_if 8 ?l s2 = Some s3" "wrote u3 s2 s3" "snd s2 + 8 < LOG_SAVE_SIZE \<longrightarrow> u3 = ?l"
    using emit_if_wrote [OF wrote_ok [OF 2(2)] l(2)] by blast
  obtain k4 s4 where 4: "emit_guarded sub s3 = Some s4" "wrote (take k4 sub) s3 s4" "snd s3 + length sub < LOG_SAVE_SIZE \<longrightarrow> k4 = length sub"
    using emit_guarded_wrote [OF wrote_ok [OF 3(2)]] by blast
  obtain u5 s5 where 5: "emit_if 3 '': '' s4 = Some s5" "wrote u5 s4 s5" "snd s4 + 3 < LOG_SAVE_SIZE \<longrightarrow> u5 = '': ''"
    using emit_if_wrote [OF wrote_ok [OF 4(2)], of "'': ''" 3] by auto
  obtain k6 s6 where 6: "emit_guarded m s5 = Some s6" "wrote (take k6 m) s5 s6" "snd s5 + length m < LOG_SAVE_SIZE \<longrightarrow> k6 = length m"
    using emit_guarded_wrote [OF wrote_ok [OF 5(2)]] by blast
  obtain u7 s7 where 7: "emit_if 1 [LF] s6 = Some s7" "wrote u7 s6 s7" "snd s6 + 1 < LOG_SAVE_SIZE \<longrightarrow> u7 = [LF]"
    using emit_if_wrote [OF wrote_ok [OF 6(2)], of "[LF]" 1] by auto
  have w: "wrote (take k1 ?n @ u2 @ u3 @ take k4 sub @ u5 @ take k6 m @ u7) s s7"
    using 1(2) 2(2) 3(2) 4(2) 5(2) 6(2) 7(2) by (intro wrote_append)
  have "take k1 ?n @ u2 @ u3 @ take k4 sub @ u5 @ take k6 m @ u7 = saved_line e"
    if "snd s + 100 < LOG_SAVE_SIZE" "length (saved_line e) \<le> 100"
    using that 1(3) 2(3) 3(3) 4(3) 5(3) 6(3) 7(3) l(3,4) wrote_size [OF 1(2)] wrote_size [OF 2(2)] wrote_size [OF 3(2)]
      wrote_size [OF 4(2)] wrote_size [OF 5(2)] wrote_size [OF 6(2)] by (simp add: saved_line_def e)
  moreover have "save_entry e s = Some s7" using 1 2 3 4 5 6 7 by (simp add: save_entry_def e Let_def)
  ultimately show ?thesis using w by blast
qed

lemma save_entries_wrote:
  assumes "save_ok s"
  shows "\<exists>u s'. save_entries es s = Some s' \<and> wrote u s s' \<and>
    (list_all (\<lambda>e. length (saved_line e) \<le> 100) es \<longrightarrow>
      (\<exists>n \<le> length es. u = concat (map saved_line (take n es)) \<and> (n < length es \<longrightarrow> LOG_SAVE_SIZE \<le> snd s' + 100)))"
  using assms
proof (induction es arbitrary: s)
  case Nil
  then show ?case using wrote_Nil by auto
next
  case (Cons e es)
  show ?case
  proof (cases "snd s + 100 < LOG_SAVE_SIZE")
    case True
    from save_entry_wrote [OF Cons.prems, of e] obtain u1 s1 where
      1: "save_entry e s = Some s1" "wrote u1 s s1" "length (saved_line e) \<le> 100 \<longrightarrow> u1 = saved_line e" using True by blast
    from Cons.IH [OF wrote_ok [OF 1(2)]] obtain u s' where
      2: "save_entries es s1 = Some s'" "wrote u s1 s'" "list_all (\<lambda>e. length (saved_line e) \<le> 100) es \<longrightarrow>
      (\<exists>n \<le> length es. u = concat (map saved_line (take n es)) \<and> (n < length es \<longrightarrow> LOG_SAVE_SIZE \<le> snd s' + 100))" by blast
    have "\<exists>n \<le> length (e # es). u1 @ u = concat (map saved_line (take n (e # es))) \<and>
        (n < length (e # es) \<longrightarrow> LOG_SAVE_SIZE \<le> snd s' + 100)"
      if l: "list_all (\<lambda>e. length (saved_line e) \<le> 100) (e # es)"
    proof -
      from l 2(3) obtain n where "n \<le> length es" "u = concat (map saved_line (take n es))"
        "n < length es \<longrightarrow> LOG_SAVE_SIZE \<le> snd s' + 100" by auto
      then show ?thesis using l 1(3) by (intro exI [of _ "Suc n"]) simp
    qed
    then show ?thesis using True 1(1) 2(1) wrote_append [OF 1(2) 2(2)] by (intro exI [of _ "u1 @ u"] exI [of _ s']) simp
  next
    case False
    then show ?thesis using wrote_Nil [OF Cons.prems] by (intro exI [of _ "[]"] exI [of _ s]) (auto intro: exI [of _ 0])
  qed
qed

section \<open>Properties\<close>


text \<open>C33: saving the log is memory safe and complete. Whatever the log holds, however long its texts are,
  \<open>panic_log_save\<close> stays inside its buffer of 6144 characters. When no line is longer than 100 characters the
  saved text consists of whole lines, oldest first, without a gap, and entries are only left out once less than
  101 characters of the buffer are free; unless it is empty, exactly this text is written to the log file.\<close>

theorem panic_log_saved:
  assumes "length (log_save_buf s) = LOG_SAVE_SIZE"
  shows "\<exists>s'. panic_log_save env i s = Some s' \<and> log_save_size s' \<le> LOG_SAVE_SIZE \<and>
    (list_all (\<lambda>e. length (saved_line e) \<le> 100) (log_view (p_log s)) \<longrightarrow>
      (\<exists>n. take (log_save_size s') (log_save_buf s') = concat (map saved_line (take n (log_view (p_log s)))) \<and>
        (n < log_count (p_log s) \<longrightarrow> LOG_SAVE_SIZE \<le> log_save_size s' + 100))) \<and>
    (log_save_size s' \<noteq> 0 \<longrightarrow>
      p_hw s' = pv_store env (log_file_name i) (take (log_save_size s') (log_save_buf s')) (p_hw s))"
proof -
  have "save_ok (log_save_buf s, 0)" using assms by (simp add: save_ok_def)
  from save_entries_wrote [OF this, of "log_view (p_log s)"] obtain u b p where
    1: "save_entries (log_view (p_log s)) (log_save_buf s, 0) = Some (b, p)" "wrote u (log_save_buf s, 0) (b, p)"
      "list_all (\<lambda>e. length (saved_line e) \<le> 100) (log_view (p_log s)) \<longrightarrow>
      (\<exists>n \<le> length (log_view (p_log s)). u = concat (map saved_line (take n (log_view (p_log s)))) \<and>
        (n < length (log_view (p_log s)) \<longrightarrow> LOG_SAVE_SIZE \<le> p + 100))"
    by auto
  define b' where "b' = (if p + 1 < LOG_SAVE_SIZE then b[p := NUL] else b)"
  have b: "length b = LOG_SAVE_SIZE" "p \<le> LOG_SAVE_SIZE" "take p b = u" using 1(2) by (auto simp: wrote_def)
  then have t: "take p b' = u" by (simp add: b'_def)
  let ?s = "s\<lparr>log_save_buf := b', log_save_size := p\<rparr>"
  let ?r = "if p = 0 then ?s else ?s\<lparr>p_hw := pv_store env (log_file_name i) (take p b') (p_hw s)\<rparr>"
  have "panic_log_save env i s = Some ?r" using b by (simp add: panic_log_save_def 1(1) store_def b'_def Let_def)
  moreover have r: "log_save_size ?r = p" "log_save_buf ?r = b'"
    "p \<noteq> 0 \<longrightarrow> p_hw ?r = pv_store env (log_file_name i) (take p b') (p_hw s)" by simp_all
  moreover have "\<exists>n. take p b' = concat (map saved_line (take n (log_view (p_log s)))) \<and>
      (n < log_count (p_log s) \<longrightarrow> LOG_SAVE_SIZE \<le> p + 100)"
    if "list_all (\<lambda>e. length (saved_line e) \<le> 100) (log_view (p_log s))"
    using 1(3) that t by (auto simp: log_view_def)
  ultimately show ?thesis using b(2) by (intro exI [of _ ?r]) (simp only: r simp_thms, blast)
qed

text \<open>A console after boot and two reasons.\<close>

definition demo_build :: build where
  "demo_build = \<lparr>os_name = ''OS64'', kernel_version = ''1.0'', architecture = ''x86_64''\<rparr>"

definition demo_cpu :: cpu where
  "demo_cpu = \<lparr>cpuid_max = 0, vendor0 = 0, vendor1 = 0, vendor2 = 0, eax1 = 0\<rparr>"

definition demo_regs :: regs where
  "demo_regs = \<lparr>rax = 0, rbx = 0, rcx = 0, rdx = 0, rsi = 0, rdi = 0, rbp = 0x8000, rsp = 0x7F00, r8 = 0, r9 = 0,
     r10 = 0, r11 = 0, r12 = 0, r13 = 0, r14 = 0, r15 = 0, rip = 0x100000, rflags = 2, cr0 = 0, cr2 = 0, cr3 = 0, cr4 = 0,
     seg_cs = 8, seg_ss = 16, seg_ds = 16, seg_es = 16, seg_fs = 0, seg_gs = 0\<rparr>"


definition demo_panic :: "unit panic_state" where
  "demo_panic = \<lparr>panic_active = True, log_save_buf = replicate LOG_SAVE_SIZE NUL, log_save_size = 0, p_log = empty_log,
     p_hw = (), p_display = display_statics () (\<lambda>_. 0)\<rparr>"

theorem panic_log_saved_witness:
  "\<exists>s'. panic_log_save \<lparr>pv_store = (\<lambda>_ _ w. w), pstore_write_panic = (\<lambda>_ _ w. w)\<rparr> 7 demo_panic = Some s' \<and> log_save_size s' \<le> LOG_SAVE_SIZE"
proof -
  have "length (log_save_buf demo_panic) = LOG_SAVE_SIZE" by (simp add: demo_panic_def)
  from panic_log_saved [OF this, of "\<lparr>pv_store = (\<lambda>_ _ w. w), pstore_write_panic = (\<lambda>_ _ w. w)\<rparr>" 7] show ?thesis by blast
qed

end
