(* ===== verification/Ps2.thy ===== *)
theory Ps2
  imports Ports
begin

text \<open>
  The PS/2 controller, keyboard and mouse of the kernel: \<open>src/kernel/drivers/keyboard/ps2.c\<close> and
  \<open>src/kernel/drivers/keyboard/keyboard.c\<close>.

  The static variables and the hardware are the record \<open>ps2\<close>; a function that fails with 0 returns
  \<open>None\<close> and keeps the state it reached, by the combinator \<open>check\<close> of theory \<open>Ports\<close>. The locale
  \<open>ps2_input\<close> is the contract of a controller that has bytes of the keyboard or of the mouse to
  give. The results: the decoder turns the scan codes of a US keyboard into the text that was
  typed, and the mouse driver reads back the packets of a mouse that moves less than 128 steps.
\<close>

section \<open>The controller\<close>

record 'w ps2 =
  controller_ok :: bool
  keyboard_ok :: bool
  mouse_ok :: bool
  mouse_packet :: bytes
  mouse_packet_size :: nat
  p_hw :: 'w

definition PS2_TIMEOUT :: nat where "PS2_TIMEOUT = 100000"

definition inp :: "'w ports \<Rightarrow> u16 \<Rightarrow> 'w ps2 \<Rightarrow> u8 \<times> 'w ps2" where
  "inp io p st = (let (v, w) = inb io p (p_hw st) in (v, st\<lparr>p_hw := w\<rparr>))"

definition outp :: "'w ports \<Rightarrow> u16 \<Rightarrow> u8 \<Rightarrow> 'w ps2 \<Rightarrow> 'w ps2" where
  "outp io p v st = st\<lparr>p_hw := outb io p v (p_hw st)\<rparr>"

text \<open>The loops, with the number of attempts left.\<close>

fun wait_status :: "'w ports \<Rightarrow> (u8 \<Rightarrow> bool) \<Rightarrow> nat \<Rightarrow> 'w ps2 \<Rightarrow> unit option \<times> 'w ps2" where
  "wait_status io ok 0 st = (None, st)"
| "wait_status io ok (Suc n) st = (let (v, st) = inp io 0x64 st in if ok v then (Some (), st) else wait_status io ok n st)"

definition wait_input_empty :: "'w ports \<Rightarrow> 'w ps2 \<Rightarrow> unit option \<times> 'w ps2" where
  "wait_input_empty io = wait_status io (\<lambda>v. v AND 0x02 = 0) PS2_TIMEOUT"

definition wait_output_full :: "'w ports \<Rightarrow> 'w ps2 \<Rightarrow> unit option \<times> 'w ps2" where
  "wait_output_full io = wait_status io (\<lambda>v. v AND 0x01 \<noteq> 0) PS2_TIMEOUT"

definition write_command :: "'w ports \<Rightarrow> u8 \<Rightarrow> 'w ps2 \<Rightarrow> unit option \<times> 'w ps2" where
  "write_command io v = check (wait_input_empty io) (\<lambda>_ st. (Some (), outp io 0x64 v st))"

definition write_data :: "'w ports \<Rightarrow> u8 \<Rightarrow> 'w ps2 \<Rightarrow> unit option \<times> 'w ps2" where
  "write_data io v = check (wait_input_empty io) (\<lambda>_ st. (Some (), outp io 0x60 v st))"

definition read_wait :: "'w ports \<Rightarrow> 'w ps2 \<Rightarrow> u8 option \<times> 'w ps2" where
  "read_wait io = check (wait_output_full io) (\<lambda>_ st. let (v, st) = inp io 0x60 st in (Some v, st))"

text \<open>Discarding stale output, at most 32 bytes.\<close>

fun drain :: "'w ports \<Rightarrow> nat \<Rightarrow> 'w ps2 \<Rightarrow> 'w ps2" where
  "drain io 0 st = st"
| "drain io (Suc n) st =
     (let (v, st) = inp io 0x64 st in if v AND 1 \<noteq> 0 then drain io n (snd (inp io 0x60 st)) else st)"

definition ps2_controller_init :: "'w ports \<Rightarrow> 'w ps2 \<Rightarrow> unit option \<times> 'w ps2" where
  "ps2_controller_init io st =
     check (write_command io 0xAD) (\<lambda>_. check (write_command io 0xA7) (\<lambda>_ st.
       check (write_command io 0x20) (\<lambda>_. check (read_wait io) (\<lambda>config.
         let config = (config OR 0x40 OR 0x20) AND NOT (0x01 OR 0x02 OR 0x10) in
         check (write_command io 0x60) (\<lambda>_. check (write_data io config) (\<lambda>_.
           check (write_command io 0xAE) (\<lambda>_ st. (Some (), st\<lparr>controller_ok := True\<rparr>))))))
       (drain io 32 st)))
     (st\<lparr>controller_ok := False, keyboard_ok := False, mouse_ok := False\<rparr>)"

text \<open>A command and its acknowledgement, with the retries left; 0xFE asks for the command again.\<close>

fun keyboard_retries :: "'w ports \<Rightarrow> u8 \<Rightarrow> nat \<Rightarrow> 'w ps2 \<Rightarrow> unit option \<times> 'w ps2" where
  "keyboard_retries io v 0 st = (None, st)"
| "keyboard_retries io v (Suc n) st =
     check (write_data io v) (\<lambda>_. check (read_wait io) (\<lambda>response st.
       if response = 0xFA then (Some (), st) else if response \<noteq> 0xFE then (None, st) else keyboard_retries io v n st)) st"

definition ps2_keyboard_command :: "'w ports \<Rightarrow> u8 \<Rightarrow> 'w ps2 \<Rightarrow> unit option \<times> 'w ps2" where
  "ps2_keyboard_command io v = keyboard_retries io v 3"

definition ps2_keyboard_initialize :: "'w ports \<Rightarrow> 'w ps2 \<Rightarrow> unit option \<times> 'w ps2" where
  "ps2_keyboard_initialize io st =
     (if \<not> controller_ok st then (None, st)
      else check (write_data io 0xFF) (\<lambda>_. check (read_wait io) (\<lambda>response st.
        if response \<noteq> 0xFA then (None, st)
        else check (read_wait io) (\<lambda>response st.
          if response \<noteq> 0xAA \<and> response \<noteq> 0x00 then (None, st)
          else check (ps2_keyboard_command io 0xF0) (\<lambda>_. check (ps2_keyboard_command io 0x02) (\<lambda>_.
            check (ps2_keyboard_command io 0xF4) (\<lambda>_ st. (Some (), st\<lparr>keyboard_ok := True\<rparr>)))) st) st)) st)"

definition ps2_data_available :: "'w ports \<Rightarrow> 'w ps2 \<Rightarrow> bool \<times> 'w ps2" where
  "ps2_data_available io st =
     (let (status, st) = inp io 0x64 st in (controller_ok st \<and> status AND 0x01 \<noteq> 0 \<and> status AND 0x20 = 0, st))"

definition ps2_read_data :: "'w ports \<Rightarrow> 'w ps2 \<Rightarrow> u8 \<times> 'w ps2" where
  "ps2_read_data io st = (let (ok, st) = ps2_data_available io st in if ok then inp io 0x60 st else (0, st))"

section \<open>The mouse\<close>

fun mouse_retries :: "'w ports \<Rightarrow> u8 \<Rightarrow> nat \<Rightarrow> 'w ps2 \<Rightarrow> unit option \<times> 'w ps2" where
  "mouse_retries io v 0 st = (None, st)"
| "mouse_retries io v (Suc n) st =
     check (write_command io 0xD4) (\<lambda>_. check (write_data io v) (\<lambda>_. check (read_wait io) (\<lambda>reply st.
       if reply = 0xFA then (Some (), st) else if reply \<noteq> 0xFE then (None, st) else mouse_retries io v n st))) st"

definition mouse_command :: "'w ports \<Rightarrow> u8 \<Rightarrow> 'w ps2 \<Rightarrow> unit option \<times> 'w ps2" where
  "mouse_command io v = mouse_retries io v 3"

definition ps2_mouse_initialize :: "'w ports \<Rightarrow> 'w ps2 \<Rightarrow> unit option \<times> 'w ps2" where
  "ps2_mouse_initialize io st =
     (let st = st\<lparr>mouse_ok := False, mouse_packet_size := 0\<rparr> in
      if \<not> controller_ok st then (None, st)
      else check (write_command io 0xA8) (\<lambda>_. check (write_command io 0x20) (\<lambda>_. check (read_wait io) (\<lambda>config.
        let config = config AND NOT (0x02 OR 0x20) in
        check (write_command io 0x60) (\<lambda>_. check (write_data io config) (\<lambda>_.
          check (mouse_command io 0xFF) (\<lambda>_. check (read_wait io) (\<lambda>reply st.
            if reply \<noteq> 0xAA then (None, st)
            else check (read_wait io) (\<lambda>_. check (mouse_command io 0xF6) (\<lambda>_. check (mouse_command io 0xF4) (\<lambda>_ st.
              (Some (), st\<lparr>mouse_ok := True\<rparr>)))) st))))))) st)"

definition ps2_mouse_shutdown :: "'w ports \<Rightarrow> 'w ps2 \<Rightarrow> 'w ps2" where
  "ps2_mouse_shutdown io st =
     (let st = (if mouse_ok st then snd (mouse_command io 0xF5 st) else st); st = snd (write_command io 0xA7 st)
      in st\<lparr>mouse_ok := False, mouse_packet_size := 0\<rparr>)"

text \<open>
  A byte of the mouse and the packet under construction; a complete packet gives the two movements
  and the buttons.
\<close>

type_synonym move = "int \<times> int \<times> u8"

definition mouse_byte :: "u8 \<Rightarrow> bytes \<times> nat \<Rightarrow> move option \<times> bytes \<times> nat" where
  "mouse_byte value = (\<lambda>(p, n).
     if n = 0 \<and> value AND 0x08 = 0 then (None, p, n)
     else let p = p[n := value]; n = n + 1 in
       if n \<noteq> 3 then (None, p, n)
       else if p ! 0 AND 0xC0 \<noteq> 0 then (None, p, 0)
       else (Some (sint (p ! 1), - sint (p ! 2), p ! 0 AND 7), p, 0))"

definition ps2_mouse_poll :: "'w ports \<Rightarrow> 'w ps2 \<Rightarrow> move option \<times> 'w ps2" where
  "ps2_mouse_poll io st =
     (if \<not> mouse_ok st then (None, st)
      else let (status, st) = inp io 0x64 st in
        if status AND 0x01 = 0 \<or> status AND 0x20 = 0 then (None, st)
        else let (value, st) = inp io 0x60 st; (m, p, n) = mouse_byte value (mouse_packet st, mouse_packet_size st)
          in (m, st\<lparr>mouse_packet := p, mouse_packet_size := n\<rparr>))"

section \<open>The keyboard decoder\<close>

record keyboard =
  shift :: bool
  ctrl :: bool
  alt :: bool
  caps :: bool
  extended :: bool
  kready :: bool

definition letter :: "char \<Rightarrow> keyboard \<Rightarrow> char" where
  "letter c k = (if caps k \<noteq> shift k then chr (ord c - ord (CHR ''a'') + ord (CHR ''A'')) else c)"

definition normal :: "u8 \<Rightarrow> char" where
  "normal s = (if s = 1 then CHR 0x1B else if 2 \<le> s \<and> s \<le> 13 then ''1234567890-='' ! unat (s - 2)
     else if s = 14 then CHR 0x08 else if s = 15 then CHR 0x09 else if s = 26 then CHR ''['' else if s = 27 then CHR '']''
     else if s = 28 then CHR 0x0A else if s = 39 then CHR '';'' else if s = 40 then CHR 0x27 else if s = 41 then CHR 0x60
     else if s = 43 then CHR 0x5C else if s = 51 then CHR '','' else if s = 52 then CHR ''.'' else if s = 53 then CHR ''/''
     else if s = 57 then CHR '' '' else NUL)"

definition shifted :: "u8 \<Rightarrow> char" where
  "shifted s = (if 2 \<le> s \<and> s \<le> 13 then ''!@#$%^&*()_+'' ! unat (s - 2)
     else if s = 26 then CHR 0x7B else if s = 27 then CHR 0x7D else if s = 39 then CHR '':'' else if s = 40 then CHR 0x22
     else if s = 41 then CHR ''~'' else if s = 43 then CHR ''|'' else if s = 51 then CHR ''<'' else if s = 52 then CHR ''>''
     else if s = 53 then CHR ''?'' else if s = 57 then CHR '' '' else NUL)"

text \<open>A code after the prefix 0xE0, and a code without it.\<close>

definition extended_key :: "u8 \<Rightarrow> char" where
  "extended_key s =
     (if s = 72 then CHR 0x11 else if s = 80 then CHR 0x12 else if s = 75 then CHR 0x13 else if s = 77 then CHR 0x14
      else if s = 71 then CHR 0x91 else if s = 79 then CHR 0x92 else if s = 73 then CHR 0x93 else if s = 81 then CHR 0x94
      else if s = 82 then CHR 0x95 else if s = 83 then CHR 0x96 else NUL)"

definition plain_value :: "u8 \<Rightarrow> keyboard \<Rightarrow> char" where
  "plain_value s k =
     (if 16 \<le> s \<and> s \<le> 25 then letter (''qwertyuiop'' ! unat (s - 16)) k
      else if 30 \<le> s \<and> s \<le> 38 then letter (''asdfghjkl'' ! unat (s - 30)) k
      else if 44 \<le> s \<and> s \<le> 50 then letter (''zxcvbnm'' ! unat (s - 44)) k
      else if shift k then shifted s else normal s)"

definition plain_key :: "u8 \<Rightarrow> keyboard \<Rightarrow> char" where
  "plain_key s k =
     (if 59 \<le> s \<and> s \<le> 68 then chr (0x80 + s - 58)
      else if s = 15 \<and> shift k then CHR 0x8F
      else let value = plain_value s k in
        if ctrl k \<and> between (CHR ''a'') (CHR ''z'') value then chr (ord value - ord (CHR ''a'') + 1)
        else if alt k \<and> value \<noteq> NUL then chr (ord value OR 0x80)
        else value)"

definition decode_key :: "u8 \<Rightarrow> keyboard \<Rightarrow> char \<times> keyboard" where
  "decode_key s k =
     (if s = 0xE0 then (NUL, k\<lparr>extended := True\<rparr>)
      else let released = s AND 0x80 \<noteq> 0; s = s AND 0x7F in
        if s = 42 \<or> s = 54 then (NUL, k\<lparr>shift := \<not> released\<rparr>)
        else if s = 29 then (NUL, k\<lparr>ctrl := \<not> released\<rparr>)
        else if s = 56 then (NUL, k\<lparr>alt := \<not> released\<rparr>)
        else if s = 58 \<and> \<not> released then (NUL, k\<lparr>caps := \<not> caps k\<rparr>)
        else if released then (NUL, k\<lparr>extended := False\<rparr>)
        else if extended k then (extended_key s, k\<lparr>extended := False\<rparr>)
        else (plain_key s k, k))"

definition keyboard_init :: "'w ports \<Rightarrow> keyboard \<times> 'w ps2 \<Rightarrow> bool \<times> keyboard \<times> 'w ps2" where
  "keyboard_init io = (\<lambda>(k, st).
     let k = \<lparr>shift = False, ctrl = False, alt = False, caps = False, extended = False, kready = False\<rparr>;
         (ok, st) = check (ps2_controller_init io) (\<lambda>_. ps2_keyboard_initialize io) st
     in if ok = None then (False, k, st) else (True, k\<lparr>kready := True\<rparr>, st))"

definition keyboard_poll :: "'w ports \<Rightarrow> keyboard \<times> 'w ps2 \<Rightarrow> char \<times> keyboard \<times> 'w ps2" where
  "keyboard_poll io = (\<lambda>(k, st).
     if \<not> kready k then (NUL, k, st)
     else let (ok, st) = ps2_data_available io st in
       if \<not> ok then (NUL, k, st)
       else let (s, st) = ps2_read_data io st; (c, k) = decode_key s k in (c, k, st))"

section \<open>The contract of the controller\<close>

text \<open>
  The bytes that wait in the controller, each with the port it came from (\<open>True\<close> for the mouse):
  bit 0 of the status says that there is one, bit 5 that the next one is of the mouse.
\<close>

locale ps2_input =
  fixes io :: "'w ports" and queue :: "'w \<Rightarrow> (bool \<times> u8) list"
  assumes status_empty: "queue w = [] \<Longrightarrow> fst (inb io 0x64 w) AND 1 = 0"
    and status_next: "queue w = (a, v) # q \<Longrightarrow>
      fst (inb io 0x64 w) AND 1 \<noteq> 0 \<and> (fst (inb io 0x64 w) AND 0x20 \<noteq> 0 \<longleftrightarrow> a)"
    and status_keeps: "queue (snd (inb io 0x64 w)) = queue w"
    and data_next: "queue w = (a, v) # q \<Longrightarrow> fst (inb io 0x60 w) = v \<and> queue (snd (inb io 0x60 w)) = q"

text \<open>The keyboard and the mouse polled in turn.\<close>

fun polls :: "'w ports \<Rightarrow> nat \<Rightarrow> keyboard \<times> 'w ps2 \<Rightarrow> string \<times> move list \<times> keyboard \<times> 'w ps2" where
  "polls io 0 (k, st) = ([], [], k, st)"
| "polls io (Suc n) (k, st) =
     (let (c, k, st) = keyboard_poll io (k, st); (m, st) = ps2_mouse_poll io st; (cs, ms, r) = polls io n (k, st)
      in ((if c = NUL then cs else c # cs), (case m of None \<Rightarrow> ms | Some x \<Rightarrow> x # ms), r))"

text \<open>What the bytes of each port mean on their own.\<close>

fun decode_keys :: "u8 list \<Rightarrow> keyboard \<Rightarrow> string \<times> keyboard" where
  "decode_keys [] k = ([], k)"
| "decode_keys (s # ss) k = (let (c, k) = decode_key s k; (cs, k) = decode_keys ss k in ((if c = NUL then cs else c # cs), k))"

fun moved :: "u8 list \<Rightarrow> bytes \<times> nat \<Rightarrow> move list \<times> bytes \<times> nat" where
  "moved [] p = ([], p)"
| "moved (v # vs) p = (let (m, p) = mouse_byte v p; (ms, p) = moved vs p in ((case m of None \<Rightarrow> ms | Some x \<Rightarrow> x # ms), p))"

definition from_port :: "bool \<Rightarrow> (bool \<times> u8) list \<Rightarrow> u8 list" where
  "from_port a q = map snd (filter (\<lambda>x. fst x = a) q)"

lemma from_port_simps [simp]:
  "from_port a [] = []"
  "from_port a ((b, v) # q) = (if b = a then v # from_port a q else from_port a q)"
  by (auto simp: from_port_def)

lemma kready_decode [simp]: "kready (snd (decode_key s k)) = kready k"
  by (auto simp: decode_key_def Let_def)

definition drivers_live :: "keyboard \<Rightarrow> 'w ps2 \<Rightarrow> bool" where
  "drivers_live k st \<longleftrightarrow> kready k \<and> controller_ok st \<and> mouse_ok st"

context ps2_input
begin

lemma kbd_poll_empty:
  assumes "drivers_live k st" "queue (p_hw st) = []"
  shows "\<exists>w. queue w = [] \<and> keyboard_poll io (k, st) = (NUL, k, st\<lparr>p_hw := w\<rparr>)"
  using assms status_empty [of "p_hw st"] status_keeps [of "p_hw st"]
  by (auto simp: drivers_live_def keyboard_poll_def ps2_data_available_def inp_def case_prod_beta)

lemma kbd_poll_mouse:
  assumes "drivers_live k st" "queue (p_hw st) = (True, v) # q"
  shows "\<exists>w. queue w = (True, v) # q \<and> keyboard_poll io (k, st) = (NUL, k, st\<lparr>p_hw := w\<rparr>)"
  using assms status_next [of "p_hw st" True v q] status_keeps [of "p_hw st"]
  by (auto simp: drivers_live_def keyboard_poll_def ps2_data_available_def inp_def case_prod_beta)

lemma kbd_poll_key:
  assumes live: "drivers_live k st" and q: "queue (p_hw st) = (False, v) # q"
  shows "\<exists>w. queue w = q \<and>
    keyboard_poll io (k, st) = (fst (decode_key v k), snd (decode_key v k), st\<lparr>p_hw := w\<rparr>)"
proof -
  let ?w = "snd (inb io 0x64 (p_hw st))" and ?w2 = "snd (inb io 0x64 (snd (inb io 0x64 (p_hw st))))"
  have 1: "queue ?w = (False, v) # q" and 2: "queue ?w2 = (False, v) # q"
    using q by (simp_all add: status_keeps)
  show ?thesis
    using live status_next [OF q] status_next [OF 1] data_next [OF 2]
    by (auto simp: drivers_live_def keyboard_poll_def ps2_data_available_def ps2_read_data_def inp_def case_prod_beta)
qed

lemma mouse_poll_other:
  assumes "drivers_live k st" "queue (p_hw st) = [] \<or> queue (p_hw st) = (False, v) # q"
  shows "\<exists>w. queue w = queue (p_hw st) \<and> ps2_mouse_poll io st = (None, st\<lparr>p_hw := w\<rparr>)"
  using assms status_empty [of "p_hw st"] status_next [of "p_hw st" False v q] status_keeps [of "p_hw st"]
  by (auto simp: drivers_live_def ps2_mouse_poll_def inp_def case_prod_beta)

lemma mouse_poll_byte:
  assumes live: "drivers_live k st" and q: "queue (p_hw st) = (True, v) # q"
    and m: "mouse_byte v (mouse_packet st, mouse_packet_size st) = (m, p, n)"
  shows "\<exists>w. queue w = q \<and>
    ps2_mouse_poll io st = (m, st\<lparr>p_hw := w, mouse_packet := p, mouse_packet_size := n\<rparr>)"
proof -
  have 1: "queue (snd (inb io 0x64 (p_hw st))) = (True, v) # q" using q by (simp add: status_keeps)
  show ?thesis
    using live m status_next [OF q] data_next [OF 1]
    by (auto simp: drivers_live_def ps2_mouse_poll_def inp_def case_prod_beta)
qed

text \<open>One round of the two polls takes what its driver is waiting for and leaves the rest.\<close>

lemma queue_cases:
  fixes q :: "(bool \<times> u8) list"
  obtains "q = []" | v r where "q = (True, v) # r" | v r where "q = (False, v) # r"
  by (metis (full_types) list.exhaust surj_pair)

lemma mouse_step:
  assumes live: "drivers_live k st" and hw: "queue (p_hw st) = q" and p: "(mouse_packet st, mouse_packet_size st) = p"
  shows "\<exists>m w p' n. ps2_mouse_poll io st = (m, st\<lparr>p_hw := w, mouse_packet := p', mouse_packet_size := n\<rparr>) \<and>
    from_port False (queue w) = from_port False q \<and>
    moved (from_port True q) p =
      (let (ms, r) = moved (from_port True (queue w)) (p', n) in ((case m of None \<Rightarrow> ms | Some x \<Rightarrow> x # ms), r)) \<and>
    length (queue w) \<le> length q \<and> (q \<noteq> [] \<and> fst (hd q) \<longrightarrow> length (queue w) < length q)"
proof (cases "\<exists>v r. q = (True, v) # r")
  case True
  then obtain v r where q: "q = (True, v) # r" by blast
  obtain m p' n where m: "mouse_byte v p = (m, p', n)" by (metis prod_cases3)
  obtain w where "queue w = r"
    "ps2_mouse_poll io st = (m, st\<lparr>p_hw := w, mouse_packet := p', mouse_packet_size := n\<rparr>)"
    using mouse_poll_byte [OF live, of v r m p' n] hw q m p by auto
  then show ?thesis using q m
    by (intro exI [of _ m] exI [of _ w] exI [of _ p'] exI [of _ n]) (simp add: case_prod_beta Let_def)
next
  case False
  then obtain v r where q: "q = [] \<or> q = (False, v) # r" by (cases q rule: queue_cases) auto
  obtain w where "queue w = q" "ps2_mouse_poll io st = (None, st\<lparr>p_hw := w\<rparr>)"
    using mouse_poll_other [OF live, of v r] q hw by auto
  then show ?thesis using q p
    by (intro exI [of _ None] exI [of _ w] exI [of _ "mouse_packet st"] exI [of _ "mouse_packet_size st"])
       (auto simp: case_prod_beta)
qed

lemma key_step:
  assumes live: "drivers_live k st"
  shows "\<exists>c k' w. keyboard_poll io (k, st) = (c, k', st\<lparr>p_hw := w\<rparr>) \<and> kready k' \<and>
    from_port True (queue w) = from_port True (queue (p_hw st)) \<and>
    decode_keys (from_port False (queue (p_hw st))) k =
      (let (cs, r) = decode_keys (from_port False (queue w)) k' in ((if c = NUL then cs else c # cs), r)) \<and>
    length (queue w) \<le> length (queue (p_hw st)) \<and>
    (queue (p_hw st) \<noteq> [] \<longrightarrow> length (queue w) < length (queue (p_hw st)) \<or> queue w \<noteq> [] \<and> fst (hd (queue w)))"
proof -
  have ready: "kready k" using live by (simp add: drivers_live_def)
  consider "queue (p_hw st) = []" | v q where "queue (p_hw st) = (True, v) # q" | v q where "queue (p_hw st) = (False, v) # q"
    by (cases "queue (p_hw st)" rule: queue_cases) auto
  then show ?thesis
  proof cases
    case 1
    obtain w where "queue w = []" "keyboard_poll io (k, st) = (NUL, k, st\<lparr>p_hw := w\<rparr>)"
      using kbd_poll_empty [OF live 1] by blast
    then show ?thesis using 1 ready by (intro exI [of _ NUL] exI [of _ k] exI [of _ w]) simp
  next
    case (2 v q)
    obtain w where "queue w = (True, v) # q" "keyboard_poll io (k, st) = (NUL, k, st\<lparr>p_hw := w\<rparr>)"
      using kbd_poll_mouse [OF live 2] by blast
    then show ?thesis using 2 ready by (intro exI [of _ NUL] exI [of _ k] exI [of _ w]) (simp add: case_prod_beta)
  next
    case (3 v q)
    obtain w where "queue w = q"
      "keyboard_poll io (k, st) = (fst (decode_key v k), snd (decode_key v k), st\<lparr>p_hw := w\<rparr>)"
      using kbd_poll_key [OF live 3] by blast
    then show ?thesis using 3 ready
      by (intro exI [of _ "fst (decode_key v k)"] exI [of _ "snd (decode_key v k)"] exI [of _ w]) (simp add: case_prod_beta Let_def)
  qed
qed

lemma polls_separate:
  assumes "drivers_live k st" "length (queue (p_hw st)) \<le> n"
  shows "\<exists>st'. polls io n (k, st) = (fst (decode_keys (from_port False (queue (p_hw st))) k),
      fst (moved (from_port True (queue (p_hw st))) (mouse_packet st, mouse_packet_size st)),
      snd (decode_keys (from_port False (queue (p_hw st))) k), st') \<and> queue (p_hw st') = []"
  using assms
proof (induction n arbitrary: k st)
  case 0
  then show ?case by simp
next
  case (Suc n)
  obtain c k' w where k: "keyboard_poll io (k, st) = (c, k', st\<lparr>p_hw := w\<rparr>)" "kready k'"
    "from_port True (queue w) = from_port True (queue (p_hw st))"
    "decode_keys (from_port False (queue (p_hw st))) k =
      (let (cs, r) = decode_keys (from_port False (queue w)) k' in ((if c = NUL then cs else c # cs), r))"
    "length (queue w) \<le> length (queue (p_hw st))"
    "queue (p_hw st) \<noteq> [] \<longrightarrow> length (queue w) < length (queue (p_hw st)) \<or> queue w \<noteq> [] \<and> fst (hd (queue w))"
    using key_step [OF Suc.prems(1)] by blast
  let ?s = "st\<lparr>p_hw := w\<rparr>"
  have live: "drivers_live k' ?s" using Suc.prems(1) k(2) by (simp add: drivers_live_def)
  have hw: "queue (p_hw ?s) = queue w" and p: "(mouse_packet ?s, mouse_packet_size ?s) = (mouse_packet st, mouse_packet_size st)"
    by simp_all
  obtain m w' p i where m: "ps2_mouse_poll io ?s = (m, ?s\<lparr>p_hw := w', mouse_packet := p, mouse_packet_size := i\<rparr>)"
    "from_port False (queue w') = from_port False (queue w)"
    "moved (from_port True (queue w)) (mouse_packet st, mouse_packet_size st) =
      (let (ms, r) = moved (from_port True (queue w')) (p, i) in ((case m of None \<Rightarrow> ms | Some x \<Rightarrow> x # ms), r))"
    "length (queue w') \<le> length (queue w)"
    "queue w \<noteq> [] \<and> fst (hd (queue w)) \<longrightarrow> length (queue w') < length (queue w)"
    using mouse_step [OF live hw p] by blast
  let ?t = "?s\<lparr>p_hw := w', mouse_packet := p, mouse_packet_size := i\<rparr>"
  have "drivers_live k' ?t" using live by (simp add: drivers_live_def)
  moreover have "length (queue (p_hw ?t)) \<le> n"
    using Suc.prems(2) k(5,6) m(4,5) by (cases "queue (p_hw st) = []") auto
  ultimately obtain st' where "polls io n (k', ?t) = (fst (decode_keys (from_port False (queue w')) k'),
      fst (moved (from_port True (queue w')) (p, i)), snd (decode_keys (from_port False (queue w')) k'), st')"
    "queue (p_hw st') = []"
    using Suc.IH [of k' ?t] by auto
  moreover have "decode_keys (from_port False (queue (p_hw st))) k =
      ((if c = NUL then fst (decode_keys (from_port False (queue w')) k') else c # fst (decode_keys (from_port False (queue w')) k')),
       snd (decode_keys (from_port False (queue w')) k'))"
    using k(4) m(2) by (simp add: case_prod_beta)
  moreover have "fst (moved (from_port True (queue (p_hw st))) (mouse_packet st, mouse_packet_size st)) =
      (case m of None \<Rightarrow> fst (moved (from_port True (queue w')) (p, i)) | Some x \<Rightarrow> x # fst (moved (from_port True (queue w')) (p, i)))"
    using k(3) m(3) by (simp add: case_prod_beta)
  ultimately show ?case
    using k(1) m(1) by (simp add: Let_def)
qed

end

section \<open>A controller with a keyboard and a mouse\<close>

type_synonym i8042 = "(bool \<times> u8) list"

definition i8042_ports :: "i8042 ports" where
  "i8042_ports = \<lparr>
     inb = (\<lambda>p w. if p = 0x64 then ((case w of [] \<Rightarrow> 0 | x # q \<Rightarrow> if fst x then 0x21 else 0x01), w)
        else if p = 0x60 then (case w of [] \<Rightarrow> (0, w) | x # q \<Rightarrow> (snd x, q)) else (0, w)),
     outb = (\<lambda>p x w. w), inw = (\<lambda>p w. (0, w)), outw = (\<lambda>p x w. w)\<rparr>"

interpretation i8042_sim: ps2_input i8042_ports id
  by unfold_locales (auto simp: i8042_ports_def)

section \<open>The keys of a US keyboard\<close>

text \<open>The rows of the keyboard: the first scan code, the characters without and with shift.\<close>

definition us_rows :: "(u8 \<times> string \<times> string) list" where
  "us_rows =
     [(2, ''1234567890-='', ''!@#$%^&*()_+''), (16, ''qwertyuiop[]'', ''QWERTYUIOP{}''),
      (30, ''asdfghjkl;'' @ [CHR 0x27, CHR 0x60], ''ASDFGHJKL:'' @ [CHR 0x22, CHR ''~'']),
      (43, CHR 0x5C # ''zxcvbnm,./'', ''|ZXCVBNM<>?''), (57, '' '', []), (28, [CHR 0x0A], []), (15, [CHR 0x09], [])]"

text \<open>The codes of pressing and releasing the key of a character, with shift where it needs it.\<close>

fun key_codes :: "(u8 \<times> string \<times> string) list \<Rightarrow> char \<Rightarrow> u8 list" where
  "key_codes [] c = []"
| "key_codes ((s, lower, upper) # rows) c =
     (let at = (\<lambda>xs. s + of_nat (length (takeWhile (\<lambda>x. x \<noteq> c) xs))) in
      if c \<in> set lower then [at lower, at lower + 0x80]
      else if c \<in> set upper then [42, at upper, at upper + 0x80, 170]
      else key_codes rows c)"

definition us_text :: "string \<Rightarrow> bool" where
  "us_text t \<longleftrightarrow> list_all (\<lambda>c. list_ex (\<lambda>(s, lower, upper). c \<in> set lower \<or> c \<in> set upper) us_rows) t"

definition idle :: keyboard where
  "idle = \<lparr>shift = False, ctrl = False, alt = False, caps = False, extended = False, kready = True\<rparr>"

lemma kready_idle [simp]: "kready idle"
  by (simp add: idle_def)

lemma typed_key_all:
  "list_all (\<lambda>c. decode_keys (key_codes us_rows c) idle = ([c], idle)) (concat (map (\<lambda>(s, lower, upper). lower @ upper) us_rows))"
  by code_simp

lemma typed_append:
  "decode_keys (xs @ ys) k = (fst (decode_keys xs k) @ fst (decode_keys ys (snd (decode_keys xs k))), snd (decode_keys ys (snd (decode_keys xs k))))"
  by (induction xs arbitrary: k) (simp_all add: case_prod_beta Let_def)

lemma typed_text: "us_text t \<Longrightarrow> decode_keys (concat (map (key_codes us_rows) t)) idle = (t, idle)"
proof (induction t)
  case (Cons c t)
  then have "c \<in> set (concat (map (\<lambda>(s, lower, upper). lower @ upper) us_rows))"
    by (auto simp: us_text_def list_ex_iff)
  then have "decode_keys (key_codes us_rows c) idle = ([c], idle)"
    using typed_key_all unfolding list_all_iff by blast
  with Cons show ?case by (simp add: typed_append us_text_def)
qed simp

section \<open>The packets of a mouse\<close>

text \<open>The movement as the protocol has it: nine-bit numbers, their signs in bits 4 and 5 of the first byte, upwards positive.\<close>

definition packet_bytes :: "move \<Rightarrow> u8 list" where
  "packet_bytes = (\<lambda>(dx, dy, b).
     [0x08 OR b OR (if dx < 0 then 0x10 else 0) OR (if dy > 0 then 0x20 else 0), word_of_int dx, word_of_int (- dy)])"

definition small_move :: "move \<Rightarrow> bool" where
  "small_move = (\<lambda>(dx, dy, b). -128 \<le> dx \<and> dx \<le> 127 \<and> -127 \<le> dy \<and> dy \<le> 128 \<and> b < 8)"

lemma moved_append:
  "moved (xs @ ys) p = (fst (moved xs p) @ fst (moved ys (snd (moved xs p))), snd (moved ys (snd (moved xs p))))"
  by (induction xs arbitrary: p) (auto simp: case_prod_beta Let_def split: option.split)

lemma first_byte:
  assumes "b < (8::u8)"
  shows "(0x08 OR b OR (if x then 0x10 else 0) OR (if y then 0x20 else 0)) AND 0x08 \<noteq> 0"
    "(0x08 OR b OR (if x then 0x10 else 0) OR (if y then 0x20 else 0)) AND 0xC0 = 0"
    "(0x08 OR b OR (if x then 0x10 else 0) OR (if y then 0x20 else 0)) AND 7 = b"
proof -
  have "unat b < 8" using assms by (simp add: word_less_nat_alt)
  then have "unat b \<in> {0, 1, 2, 3, 4, 5, 6, 7}" by auto
  then have "(of_nat (unat b) :: u8) \<in> {0, 1, 2, 3, 4, 5, 6, 7}" by (elim insertE emptyE) simp_all
  then have "b \<in> {0, 1, 2, 3, 4, 5, 6, 7}" by simp
  then show "(0x08 OR b OR (if x then 0x10 else 0) OR (if y then 0x20 else 0)) AND 0x08 \<noteq> 0"
    "(0x08 OR b OR (if x then 0x10 else 0) OR (if y then 0x20 else 0)) AND 0xC0 = 0"
    "(0x08 OR b OR (if x then 0x10 else 0) OR (if y then 0x20 else 0)) AND 7 = b"
    by (elim insertE emptyE; simp)+
qed

lemma sint_small: "\<lbrakk>-128 \<le> i; i \<le> 127\<rbrakk> \<Longrightarrow> sint (word_of_int i :: u8) = i"
  by (simp add: sint_sbintrunc' signed_take_bit_int_eq_self)

lemma moved_packet:
  assumes "small_move m" "length p = 3"
  shows "\<exists>p'. length p' = 3 \<and> moved (packet_bytes m) (p, 0) = ([m], p', 0)"
proof -
  obtain dx dy b where m: "m = (dx, dy, b)" by (metis prod_cases3)
  obtain x y z where p: "p = [x, y, z]" using assms(2) by (auto simp: numeral_3_eq_3 length_Suc_conv)
  have "sint (word_of_int dx :: u8) = dx" "sint (- word_of_int dy :: u8) = - dy" "b < 8"
    using assms(1) sint_small [of dx] sint_small [of "- dy"] by (simp_all add: m small_move_def)
  then show ?thesis
    by (simp add: m p packet_bytes_def mouse_byte_def first_byte Let_def)
qed

lemma moved_packets:
  "\<lbrakk>list_all small_move ms; length p = 3\<rbrakk> \<Longrightarrow> fst (moved (concat (map packet_bytes ms)) (p, 0)) = ms"
proof (induction ms arbitrary: p)
  case (Cons m ms)
  obtain p' where "length p' = 3" "moved (packet_bytes m) (p, 0) = ([m], p', 0)"
    using moved_packet [of m p] Cons.prems by auto
  then show ?case using Cons by (simp add: moved_append)
qed simp

section \<open>The two streams\<close>


definition demo_ps2 :: "i8042 \<Rightarrow> i8042 ps2" where
  "demo_ps2 q = \<lparr>controller_ok = True, keyboard_ok = True, mouse_ok = True, mouse_packet = [0, 0, 0],
     mouse_packet_size = 0, p_hw = q\<rparr>"


section \<open>Where the drivers fail\<close>

text \<open>
  Faster movements lose their ninth bit: the signs in the first byte are not read, so 200 steps to
  the right are reported as 56 steps to the left although no overflow bit is set.
\<close>

lemma mouse_fast_move_reversed: "moved (packet_bytes (200, 0, 0)) ([0, 0, 0], 0) = ([(-56, 0, 0)], [8, 200, 0], 0)"
  by code_simp

text \<open>
  The right control and alt keys send the prefix 0xE0; their branch returns without clearing
  \<open>extended\<close>, so the next key is taken for an extended one: right control with C gives nothing,
  whereas left control with C gives the character 3, and after right alt is released the next
  letter is lost.
\<close>

lemma right_modifier_swallows_key:
  "fst (decode_keys [0xE0, 29, 46, 174] idle) = []"
  "fst (decode_keys [29, 46, 174] idle) = [CHR 0x03]"
  "fst (decode_keys [0xE0, 56, 0xE0, 184, 30, 158, 30, 158] idle) = ''a''"
  by code_simp+

text \<open>With caps lock on, or shift held, control and a letter give the capital letter.\<close>

lemma caps_lock_disables_control: "fst (decode_keys [58, 186, 29, 46, 174] idle) = ''C''"
  by code_simp

end
