(* ===== verification/Spec2Isabelle.thy ===== *)
theory Spec2Isabelle
  imports M64_Shell Terminal Service Panic Ps2
begin

text \<open>
  A verification library for OS64, an x86-64 hobby operating system with a freestanding kernel
  (\<^verbatim>\<open>src/kernel\<close>), a self-contained rescue kernel (\<^verbatim>\<open>src/mini64\<close>) and a
  text user-interface library (\<^verbatim>\<open>src/user/libtui\<close>).

  \<^item> Prelude: machine integers, byte buffers, little-endian fields, C strings.
  \<^item> Memory: \<^verbatim>\<open>src/kernel/mm/memory.c\<close>, the heap and the Multiboot2 memory sizing.
  \<^item> Allocator: the interface of the heap and its properties.
\<close>

end
